(* ===== verification/Prelude.thy ===== *)
theory Prelude
  imports Main "HOL-Library.Word" "HOL-Library.Multiset"
begin

text \<open>
  Shared vocabulary of the development: the machine types of the Rust sources, panics as
  values, the collections of rewrite rules the component theories fill, and the generic
  lemmas on lists, options and words that more than one component needs.
\<close>

section \<open>Types of the model\<close>

text \<open>
  Rust's fixed-width integers are words of the same width; \<open>sint\<close> reads a signed one.  The
  64-bit targets the crate is built for have a 64-bit \<open>usize\<close>.  A Rust \<open>String\<close> or \<open>&str\<close> is the
  list of its UTF-8 bytes, one \<open>char\<close> per byte.
\<close>

type_synonym i32 = "32 word"
type_synonym i64 = "64 word"
type_synonym usize = "64 word"
type_synonym u128 = "128 word"
type_synonym bytes = "char list"

text \<open>
  A panic carries its message.  A second panic while the first one unwinds aborts the process.
\<close>

datatype panic = Panic string | Abort

type_synonym 'a res = "panic + 'a"

text \<open>What polling a future gives.\<close>

datatype 'a poll = Pending | Ready 'a

text \<open>
  An operation on a state that may panic returns the state it leaves behind together with its
  outcome: what was written before the panic stays written.
\<close>

type_synonym ('s, 'a) outcome = "'s \<times> 'a res"

text \<open>How the crate was built: \<open>overflow_checks\<close> is rustc's option (on in dev builds, off in
  release builds), \<open>mock\<close> is the cargo feature that replaces the clock.\<close>

record build =
  overflow_checks :: bool
  mock :: bool

section \<open>Collections of facts\<close>

named_theorems stack_simps \<open>effects of the span stack operations on the fields of the stack\<close>
named_theorems ctx_simps \<open>effects of the tracing context operations\<close>
named_theorems report_simps \<open>effects of the reporters\<close>
named_theorems chan_simps \<open>effects of the channel operations\<close>

section \<open>Generic lemmas\<close>

fun is_ok :: "'e + 'a \<Rightarrow> bool" where
  "is_ok (Inl e) = False"
| "is_ok (Inr x) = True"

lemma is_ok_iff: "is_ok r \<longleftrightarrow> (\<exists>x. r = Inr x)"
  by (cases r) auto

text \<open>The element at the end of a Rust \<open>Vec\<close> used as a stack (\<open>slice::last\<close>).\<close>

definition last_opt :: "'a list \<Rightarrow> 'a option" where
  "last_opt xs = (if xs = [] then None else Some (last xs))"

lemma last_opt_Nil [simp]: "last_opt [] = None"
  by (simp add: last_opt_def)

lemma last_opt_snoc [simp]: "last_opt (xs @ [x]) = Some x"
  by (simp add: last_opt_def)

lemma last_opt_eq_None [simp]: "last_opt xs = None \<longleftrightarrow> xs = []"
  by (simp add: last_opt_def)

lemma last_opt_eq_Some: "last_opt xs = Some x \<longleftrightarrow> (\<exists>ys. xs = ys @ [x])"
  by (cases xs rule: rev_cases) auto

lemma last_opt_map: "last_opt (map f xs) = map_option f (last_opt xs)"
  by (simp add: last_opt_def last_map)

text \<open>Removing the element at an index, as handing an owned value out of a collection does.\<close>

definition remove_nth :: "nat \<Rightarrow> 'a list \<Rightarrow> 'a list" where
  "remove_nth i xs = take i xs @ drop (Suc i) xs"

lemma mset_remove_nth:
  "i < length xs \<Longrightarrow> mset xs = add_mset (xs ! i) (mset (remove_nth i xs))"
  by (subst id_take_nth_drop [of i xs]) (simp_all add: remove_nth_def)

lemma length_remove_nth [simp]:
  "i < length xs \<Longrightarrow> length (remove_nth i xs) = length xs - 1"
  by (simp add: remove_nth_def)

lemma set_remove_nth_subset: "set (remove_nth i xs) \<subseteq> set xs"
  using set_take_subset [of i xs] set_drop_subset [of "Suc i" xs] by (auto simp: remove_nth_def)

lemma map_remove_nth: "map f (remove_nth i xs) = remove_nth i (map f xs)"
  by (simp add: remove_nth_def take_map drop_map)

lemma distinct_snoc: "distinct (xs @ [x]) \<longleftrightarrow> distinct xs \<and> x \<notin> set xs"
  by auto

text \<open>How a count over a list changes when one element does.\<close>

lemma length_filter_update:
  "t < length xs \<Longrightarrow> length (filter P (xs[t := y])) + (if P (xs ! t) then 1 else 0) =
     length (filter P xs) + (if P y then 1 else 0)"
proof (induction xs arbitrary: t)
  case (Cons x xs)
  then show ?case by (cases t) auto
qed simp

lemma sum_list_map_update:
  fixes f :: "'a \<Rightarrow> nat"
  shows "t < length xs \<Longrightarrow> sum_list (map f (xs[t := y])) + f (xs ! t) = sum_list (map f xs) + f y"
proof (induction xs arbitrary: t)
  case (Cons x xs)
  then show ?case by (cases t) auto
qed simp

lemma length_filter_two:
  assumes "t < length xs" and "u < length xs" and "t \<noteq> u" and "P (xs ! t)" and "P (xs ! u)"
  shows "2 \<le> length (filter P xs)"
proof -
  have "card {t, u} \<le> card {i. i < length xs \<and> P (xs ! i)}"
    using assms by (intro card_mono) auto
  with assms(3) show ?thesis by (simp add: length_filter_conv_card)
qed

text \<open>Taking apart what was packed into one number.\<close>

lemma pack_div_mod:
  fixes x y m :: nat
  assumes "y < m"
  shows "(x * m + y) div m = x" and "(x * m + y) mod m = y"
  using assms by simp_all

end
