(* ===== verification/Rust_Std.thy ===== *)
theory Rust_Std
  imports Prelude
begin

text \<open>
  The part of Rust's standard library the crate relies on: overflow of machine arithmetic,
  decimal printing and parsing of integers, splitting of strings, UTF-8 validation and the wall
  clock.  Sorting and searching of slices is in \<open>Rust_Slice\<close>, floating point in \<open>F64\<close>.
\<close>

section \<open>Arithmetic that may overflow\<close>

text \<open>\<open>a + b\<close> on \<open>i32\<close>: a panic under overflow checks, two's complement wrap-around otherwise.\<close>

definition add_i32 :: "build \<Rightarrow> i32 \<Rightarrow> i32 \<Rightarrow> i32 res" where
  "add_i32 cfg a b =
     (if overflow_checks cfg \<and> sint (a + b) \<noteq> sint a + sint b
      then Inl (Panic ''attempt to add with overflow'') else Inr (a + b))"

definition add_usize :: "build \<Rightarrow> usize \<Rightarrow> usize \<Rightarrow> usize res" where
  "add_usize cfg a b =
     (if overflow_checks cfg \<and> unat (a + b) \<noteq> unat a + unat b
      then Inl (Panic ''attempt to add with overflow'') else Inr (a + b))"

definition sub_usize :: "build \<Rightarrow> usize \<Rightarrow> usize \<Rightarrow> usize res" where
  "sub_usize cfg a b =
     (if overflow_checks cfg \<and> unat a < unat b
      then Inl (Panic ''attempt to subtract with overflow'') else Inr (a - b))"

lemma sint_of_nat_i32: "n < 2 ^ 31 \<Longrightarrow> sint (of_nat n :: i32) = int n"
  using signed_take_bit_int_eq_self [of 31 "int n"] by (simp add: signed_of_nat)

lemma add_i32_of_nat:
  assumes "Suc n < 2 ^ 31"
  shows "add_i32 cfg (of_nat n) 1 = Inr (of_nat (Suc n))"
proof -
  have s: "(of_nat n + 1 :: i32) = of_nat (Suc n)" by simp
  have "sint (of_nat (Suc n) :: i32) = sint (of_nat n :: i32) + sint (1 :: i32)"
    using assms sint_of_nat_i32 [of n] sint_of_nat_i32 [of "Suc n"] by simp
  then show ?thesis
    unfolding add_i32_def s by simp
qed

lemma unat_of_nat_usize: "n < 2 ^ 64 \<Longrightarrow> unat (of_nat n :: usize) = n"
  by (simp add: unat_of_nat take_bit_nat_eq_self)

lemma of_nat_usize_eq_0: "n < 2 ^ 64 \<Longrightarrow> (of_nat n :: usize) = 0 \<longleftrightarrow> n = 0"
  using unat_of_nat_usize [of n] unat_0_iff [of "of_nat n :: usize"] by simp

section \<open>Decimal printing and parsing\<close>

definition digit_char :: "nat \<Rightarrow> char" where
  "digit_char d = char_of (48 + d)"

definition digit_val :: "char \<Rightarrow> nat option" where
  "digit_val c = (let k = of_char c in if 48 \<le> k \<and> k \<le> 57 then Some (k - 48) else None)"

fun show_nat :: "nat \<Rightarrow> string" where
  "show_nat n = (if n < 10 then [digit_char n] else show_nat (n div 10) @ [digit_char (n mod 10)])"

declare show_nat.simps [simp del]

definition show_int :: "int \<Rightarrow> string" where
  "show_int i = (if i < 0 then CHR ''-'' # show_nat (nat (- i)) else show_nat (nat i))"

text \<open>\<open>to_string\<close> of an \<open>i32\<close> and of a \<open>u128\<close>.\<close>

definition i32_to_string :: "i32 \<Rightarrow> string" where
  "i32_to_string w = show_int (sint w)"

definition u128_to_string :: "u128 \<Rightarrow> string" where
  "u128_to_string w = show_nat (unat w)"

text \<open>\<open>str::parse::<i32>\<close>: an optional sign, at least one digit, every step checked.\<close>

definition i32_checked :: "int \<Rightarrow> int option" where
  "i32_checked i = (if - (2 ^ 31) \<le> i \<and> i < 2 ^ 31 then Some i else None)"

fun parse_i32_digits :: "bool \<Rightarrow> int \<Rightarrow> string \<Rightarrow> int option" where
  "parse_i32_digits pos acc [] = Some acc"
| "parse_i32_digits pos acc (c # cs) =
     (case i32_checked (acc * 10) of
        None \<Rightarrow> None
      | Some m \<Rightarrow>
          (case digit_val c of
             None \<Rightarrow> None
           | Some d \<Rightarrow>
               (case i32_checked (if pos then m + int d else m - int d) of
                  None \<Rightarrow> None
                | Some a \<Rightarrow> parse_i32_digits pos a cs)))"

definition parse_i32 :: "string \<Rightarrow> i32 option" where
  "parse_i32 s =
     (case s of
        [] \<Rightarrow> None
      | c # cs \<Rightarrow>
          if (c = CHR ''+'' \<or> c = CHR ''-'') \<and> cs = [] then None
          else if c = CHR ''+'' then map_option word_of_int (parse_i32_digits True 0 cs)
          else if c = CHR ''-'' then map_option word_of_int (parse_i32_digits False 0 cs)
          else map_option word_of_int (parse_i32_digits True 0 s))"

lemma of_char_digit_char: "d < 10 \<Longrightarrow> of_char (digit_char d) = 48 + d"
  by (simp add: digit_char_def of_char_of)

lemma digit_val_digit_char [simp]: "d < 10 \<Longrightarrow> digit_val (digit_char d) = Some d"
  by (simp add: digit_val_def of_char_digit_char)

lemma show_nat_nonempty [simp]: "show_nat n \<noteq> []"
  by (subst show_nat.simps) simp

lemma show_nat_digits: "c \<in> set (show_nat n) \<Longrightarrow> digit_val c \<noteq> None"
proof (induction n rule: show_nat.induct)
  case (1 n)
  then show ?case
    by (cases "n < 10") (auto simp: show_nat.simps [of n])
qed

lemma digit_val_minus [simp]: "digit_val (CHR ''-'') = None" "digit_val (CHR ''+'') = None"
  by (simp_all add: digit_val_def)

lemma show_nat_no_sign: "CHR ''-'' \<notin> set (show_nat n)" "CHR ''+'' \<notin> set (show_nat n)"
  using show_nat_digits by fastforce+

lemma parse_i32_digits_append:
  "parse_i32_digits pos acc (xs @ ys) =
     Option.bind (parse_i32_digits pos acc xs) (\<lambda>a. parse_i32_digits pos a ys)"
  by (induction xs arbitrary: acc) (auto split: option.splits)

lemma parse_show_nat:
  assumes "if pos then n < 2 ^ 31 else n \<le> 2 ^ 31"
  shows "parse_i32_digits pos 0 (show_nat n) = Some (if pos then int n else - int n)"
  using assms
proof (induction n rule: show_nat.induct)
  case (1 n)
  show ?case
  proof (cases "n < 10")
    case True
    with "1.prems" show ?thesis
      by (simp add: show_nat.simps [of n] i32_checked_def)
  next
    case False
    let ?q = "n div 10" and ?r = "n mod 10"
    have n: "int n = 10 * int ?q + int ?r"
      by (metis mult_div_mod_eq of_nat_add of_nat_mult of_nat_numeral)
    have "parse_i32_digits pos 0 (show_nat ?q) = Some (if pos then int ?q else - int ?q)"
      using False "1.IH" "1.prems" by (simp split: if_splits)
    then have "parse_i32_digits pos 0 (show_nat n) =
        parse_i32_digits pos (if pos then int ?q else - int ?q) [digit_char ?r]"
      using False by (simp add: show_nat.simps [of n] parse_i32_digits_append)
    also have "\<dots> = Some (if pos then int n else - int n)"
      using n "1.prems" by (auto simp: i32_checked_def split: if_splits)
    finally show ?thesis .
  qed
qed

lemma sint_i32_range: "- (2 ^ 31) \<le> sint (w :: i32)" "sint (w :: i32) < 2 ^ 31"
  using sint_range_size [of w] by (simp_all add: word_size)

lemma parse_i32_to_string: "parse_i32 (i32_to_string w) = Some w"
proof (cases "sint w < 0")
  case True
  then have "nat (- sint w) \<le> 2 ^ 31" using sint_i32_range(1) [of w] by simp
  then have "parse_i32_digits False 0 (show_nat (nat (- sint w))) = Some (sint w)"
    using parse_show_nat [of False "nat (- sint w)"] True by simp
  with True show ?thesis
    by (simp add: parse_i32_def i32_to_string_def show_int_def)
next
  case False
  let ?s = "show_nat (nat (sint w))"
  have "nat (sint w) < 2 ^ 31" using sint_i32_range(2) [of w] by simp
  then have p: "parse_i32_digits True 0 ?s = Some (sint w)"
    using parse_show_nat [of True "nat (sint w)"] False by simp
  obtain c cs where s: "?s = c # cs" by (meson list.exhaust show_nat_nonempty)
  then have "c \<noteq> CHR ''-''" "c \<noteq> CHR ''+''"
    using show_nat_no_sign [of "nat (sint w)"] by auto
  with False p s show ?thesis
    by (simp add: parse_i32_def i32_to_string_def show_int_def)
qed

lemma i32_to_string_no_minus: "0 \<le> sint w \<Longrightarrow> CHR ''-'' \<notin> set (i32_to_string w)"
  by (simp add: i32_to_string_def show_int_def show_nat_no_sign)

text \<open>Printing is injective: reading the digits back in base ten.\<close>

definition read_nat :: "string \<Rightarrow> nat" where
  "read_nat s = foldl (\<lambda>a c. 10 * a + (case digit_val c of Some d \<Rightarrow> d | None \<Rightarrow> 0)) 0 s"

lemma read_show_nat: "read_nat (show_nat n) = n"
proof (induction n rule: show_nat.induct)
  case (1 n)
  then show ?case
    by (cases "n < 10") (simp_all add: show_nat.simps [of n] read_nat_def)
qed

lemma u128_to_string_inj: "u128_to_string a = u128_to_string b \<longleftrightarrow> a = b"
  by (metis read_show_nat u128_to_string_def word_unat_eq_iff)

section \<open>Strings\<close>

text \<open>\<open>str::split\<close> on one ASCII character: always at least one piece.\<close>

fun str_split :: "char \<Rightarrow> string \<Rightarrow> string list" where
  "str_split c [] = [[]]"
| "str_split c (x # xs) =
     (if x = c then [] # str_split c xs
      else (case str_split c xs of [] \<Rightarrow> [[x]] | p # ps \<Rightarrow> (x # p) # ps))"

lemma str_split_nonempty [simp]: "str_split c s \<noteq> []"
  by (cases s) (auto split: list.splits)

lemma str_split_piece:
  assumes "c \<notin> set p"
  shows "str_split c p = [p]" and "str_split c (p @ c # s) = p # str_split c s"
  using assms by (induction p) auto

lemma length_str_split: "length (str_split c s) = Suc (count_list s c)"
  by (induction s) (auto split: list.splits)

text \<open>
  \<open>String::from_utf8\<close> accepts exactly the well-formed UTF-8 byte sequences: no overlong forms,
  no surrogates, nothing above U+10FFFF.
\<close>

definition byte_in :: "nat \<Rightarrow> nat \<Rightarrow> char \<Rightarrow> bool" where
  "byte_in lo hi c \<longleftrightarrow> lo \<le> of_char c \<and> of_char c \<le> hi"

abbreviation cont_byte :: "char \<Rightarrow> bool" where
  "cont_byte \<equiv> byte_in 128 191"

fun utf8_valid :: "bytes \<Rightarrow> bool" where
  "utf8_valid [] = True"
| "utf8_valid (b # r) =
     (if byte_in 0 127 b then utf8_valid r
      else if byte_in 194 223 b then
        (case r of c1 # r' \<Rightarrow> cont_byte c1 \<and> utf8_valid r' | _ \<Rightarrow> False)
      else if byte_in 224 239 b then
        (case r of c1 # c2 # r' \<Rightarrow>
            (if b = char_of (224::nat) then byte_in 160 191 c1
             else if b = char_of (237::nat) then byte_in 128 159 c1
             else cont_byte c1) \<and> cont_byte c2 \<and> utf8_valid r'
         | _ \<Rightarrow> False)
      else if byte_in 240 244 b then
        (case r of c1 # c2 # c3 # r' \<Rightarrow>
            (if b = char_of (240::nat) then byte_in 144 191 c1
             else if b = char_of (244::nat) then byte_in 128 143 c1
             else cont_byte c1) \<and> cont_byte c2 \<and> cont_byte c3 \<and> utf8_valid r'
         | _ \<Rightarrow> False)
      else False)"

definition from_utf8 :: "bytes \<Rightarrow> string option" where
  "from_utf8 bs = (if utf8_valid bs then Some bs else None)"

lemma utf8_valid_ascii: "(\<And>c. c \<in> set s \<Longrightarrow> byte_in 0 127 c) \<Longrightarrow> utf8_valid s"
  by (induction s) auto

lemma utf8_valid_show_nat: "utf8_valid (show_nat n)"
proof (rule utf8_valid_ascii)
  fix c assume "c \<in> set (show_nat n)"
  then show "byte_in 0 127 c"
    using show_nat_digits [of c n] by (auto simp: digit_val_def byte_in_def Let_def split: if_splits)
qed

section \<open>The wall clock\<close>

text \<open>
  \<open>SystemTime\<close> is a signed count of nanoseconds from the Unix epoch.  \<open>duration_since\<close> fails for
  a time before the epoch; \<open>as_millis() as i64\<close> truncates to the low 64 bits.
\<close>

type_synonym SystemTime = int

definition duration_since_epoch :: "SystemTime \<Rightarrow> nat option" where
  "duration_since_epoch t = (if 0 \<le> t then Some (nat t) else None)"

definition millis_i64 :: "SystemTime \<Rightarrow> i64" where
  "millis_i64 t =
     (case duration_since_epoch t of Some d \<Rightarrow> of_nat (d div 1000000) | None \<Rightarrow> 0)"

end
