(* ===== verification/Proto.thy ===== *)
theory Proto
  imports Rust_Std
begin

text \<open>
  The protobuf messages the agent builds, with the fields its struct literals name, and the
  two methods \<^verbatim>\<open>src/src/proto/v3/mod.rs\<close> adds to \<open>SpanObject\<close>.  The message types
  themselves are generated from a git submodule; an enumerator that the sources cast with
  \<open>as i32\<close> is kept as the enumerator.  A floating point value is its 64 IEEE bits (theory F64).
\<close>

type_synonym f64 = "64 word"

record KeyStringValuePair =
  kv_key :: string
  kv_value :: string

record Log =
  log_time :: i64
  log_data :: "KeyStringValuePair list"

datatype RefType = CrossProcess | CrossThread

record SegmentReference =
  ref_type :: RefType
  ref_trace_id :: string
  parent_trace_segment_id :: string
  ref_parent_span_id :: i32
  parent_service :: string
  parent_service_instance :: string
  parent_endpoint :: string
  network_address_used_at_peer :: string

datatype SpanType = Entry | Exit | Local

datatype SpanLayer = Unknown | Http

record SpanObject =
  span_id :: i32
  parent_span_id :: i32
  start_time :: i64
  end_time :: i64
  refs :: "SegmentReference list"
  operation_name :: string
  peer :: string
  span_type :: SpanType
  span_layer :: SpanLayer
  component_id :: i32
  is_error :: bool
  tags :: "KeyStringValuePair list"
  logs :: "Log list"
  skip_analysis :: bool

record SegmentObject =
  seg_trace_id :: string
  seg_trace_segment_id :: string
  seg_spans :: "SpanObject list"
  seg_service :: string
  seg_service_instance :: string
  is_size_limited :: bool

record TraceContext =
  tctx_trace_id :: string
  tctx_trace_segment_id :: string
  tctx_span_id :: i32

datatype Content = Text string | Json string | Yaml string

record LogDataBody =
  body_type :: string
  body_content :: "Content option"

record LogData =
  ld_timestamp :: i64
  ld_service :: string
  ld_service_instance :: string
  ld_endpoint :: string
  ld_body :: "LogDataBody option"
  ld_trace_context :: "TraceContext option"
  ld_tags :: "KeyStringValuePair list option"
  ld_layer :: string

record Label =
  label_name :: string
  label_value :: string

record MeterBucketValue =
  mbv_bucket :: f64
  mbv_count :: i64
  is_negative_infinity :: bool

datatype Metric =
    SingleValue string "Label list" f64
  | HistogramValues string "Label list" "MeterBucketValue list"

record MeterData =
  md_service :: string
  md_service_instance :: string
  md_timestamp :: i64
  md_metric :: "Metric option"

record InstanceProperties =
  ip_service :: string
  ip_service_instance :: string
  ip_properties :: "KeyStringValuePair list"
  ip_layer :: string

record InstancePingPkg =
  ping_service :: string
  ping_service_instance :: string
  ping_layer :: string

section \<open>Methods of SpanObject\<close>

definition kv_pair :: "string \<times> string \<Rightarrow> KeyStringValuePair" where
  "kv_pair p = \<lparr>kv_key = fst p, kv_value = snd p\<rparr>"

text \<open>\<open>now\<close> is what \<open>fetch_time(TimePeriod::Log)\<close> returned.\<close>

definition SpanObject_add_log :: "i64 \<Rightarrow> (string \<times> string) list \<Rightarrow> SpanObject \<Rightarrow> SpanObject" where
  "SpanObject_add_log now message obj =
     obj\<lparr>logs := logs obj @ [\<lparr>log_time = now, log_data = map kv_pair message\<rparr>]\<rparr>"

definition SpanObject_add_tag :: "string \<Rightarrow> string \<Rightarrow> SpanObject \<Rightarrow> SpanObject" where
  "SpanObject_add_tag key value obj =
     obj\<lparr>tags := tags obj @ [\<lparr>kv_key = key, kv_value = value\<rparr>]\<rparr>"

end
