(* ===== verification/Common.thy ===== *)
theory Common
  imports Proto
begin

text \<open>
  \<^verbatim>\<open>src/src/common\<close>: the clock (\<open>fetch_time\<close>) and the id generator.  What the operating system
  and the \<open>uuid\<close> crate supply, the current time and a random 128-bit value, are arguments.
\<close>

section \<open>system_time.rs\<close>

datatype TimePeriod = Start | PLog | PMetric | End

definition fetch_time :: "build \<Rightarrow> SystemTime \<Rightarrow> TimePeriod \<Rightarrow> i64" where
  "fetch_time cfg now period =
     (if mock cfg then
        (case period of Start \<Rightarrow> 1 | PLog \<Rightarrow> 10 | PMetric \<Rightarrow> 10 | End \<Rightarrow> 100)
      else millis_i64 now)"

lemma millis_i64_exact:
  assumes "0 \<le> t" and "t div 1000000 < 2 ^ 63"
  shows "sint (millis_i64 t) = t div 1000000"
proof -
  have "millis_i64 t = of_nat (nat (t div 1000000))"
    using assms(1) by (simp add: millis_i64_def duration_since_epoch_def nat_div_distrib)
  moreover have "sint (of_nat (nat (t div 1000000)) :: i64) = t div 1000000"
    using assms signed_take_bit_int_eq_self [of 63 "t div 1000000"]
      pos_imp_zdiv_nonneg_iff [of 1000000 t] by (simp add: sint_sbintrunc')
  ultimately show ?thesis by simp
qed

text \<open>Later readings of the clock give later timestamps, as long as they fit.\<close>

lemma fetch_time_mono:
  assumes "\<not> mock cfg" and "0 \<le> t1" and "t1 \<le> t2" and "t2 div 1000000 < 2 ^ 63"
  shows "sint (fetch_time cfg t1 p) \<le> sint (fetch_time cfg t2 q)"
proof -
  have "t1 div 1000000 \<le> t2 div 1000000" using assms(3) by (rule zdiv_mono1) simp
  then show ?thesis
    using assms by (simp add: fetch_time_def millis_i64_exact)
qed

section \<open>random_generator.rs\<close>

definition RandomGenerator_generate :: "u128 \<Rightarrow> string" where
  "RandomGenerator_generate uuid_v4 = u128_to_string uuid_v4"

lemma generate_nonempty [simp]: "RandomGenerator_generate u \<noteq> []"
  by (simp add: RandomGenerator_generate_def u128_to_string_def)

lemma generate_utf8 [simp]: "utf8_valid (RandomGenerator_generate u)"
  by (simp add: RandomGenerator_generate_def u128_to_string_def utf8_valid_show_nat)

lemma generate_inj: "RandomGenerator_generate u = RandomGenerator_generate v \<longleftrightarrow> u = v"
  by (simp add: RandomGenerator_generate_def u128_to_string_inj)

section \<open>Background tasks\<close>

text \<open>\<open>tokio::time::interval\<close> panics when its period is zero.\<close>

definition zero_period_panic :: panic where
  "zero_period_panic = Panic ''`period` must be non-zero.''"

end
