(* ===== verification/Wait_Group.thy ===== *)
theory Wait_Group
  imports Rust_Std
begin

text \<open>
  \<^verbatim>\<open>src/src/common/wait_group.rs\<close>: a counter behind a mutex with a condition variable.  The
  three operations as they run under the lock, then the interleavings of one waiting thread
  with the threads that still owe a \<open>done\<close>.
\<close>

section \<open>The operations\<close>

text \<open>The mutex guards the count; a panic while the guard is held poisons it, and every later
  \<open>lock().unwrap()\<close> panics.\<close>

record WaitGroup =
  wg_count :: usize
  wg_poisoned :: bool

definition poison_panic :: panic where
  "poison_panic = Panic ''called `Result::unwrap()` on an `Err` value: PoisonError { .. }''"

definition WaitGroup_default :: WaitGroup where
  "WaitGroup_default = \<lparr>wg_count = 0, wg_poisoned = False\<rparr>"

definition WaitGroup_add :: "build \<Rightarrow> usize \<Rightarrow> WaitGroup \<Rightarrow> (WaitGroup, unit) outcome" where
  "WaitGroup_add cfg n wg =
     (if wg_poisoned wg then (wg, Inl poison_panic)
      else (case add_usize cfg (wg_count wg) n of
              Inl p \<Rightarrow> (wg\<lparr>wg_poisoned := True\<rparr>, Inl p)
            | Inr c \<Rightarrow> (wg\<lparr>wg_count := c\<rparr>, Inr ())))"

text \<open>The result of \<open>done\<close> says whether \<open>notify_all\<close> was called.\<close>

definition WaitGroup_done :: "build \<Rightarrow> WaitGroup \<Rightarrow> (WaitGroup, bool) outcome" where
  "WaitGroup_done cfg wg =
     (if wg_poisoned wg then (wg, Inl poison_panic)
      else (case sub_usize cfg (wg_count wg) 1 of
              Inl p \<Rightarrow> (wg\<lparr>wg_poisoned := True\<rparr>, Inl p)
            | Inr c \<Rightarrow> (wg\<lparr>wg_count := c\<rparr>, Inr (c = 0))))"

text \<open>One turn of the loop of \<open>wait\<close>: \<open>True\<close> when the loop is left, \<open>False\<close> when the thread
  parks on the condition variable.\<close>

definition WaitGroup_wait_check :: "WaitGroup \<Rightarrow> bool res" where
  "WaitGroup_wait_check wg =
     (if wg_poisoned wg then Inl poison_panic else Inr (\<not> (0 < wg_count wg)))"

text \<open>The count read as a number; \<open>wg_at n\<close> is an unpoisoned group that owes \<open>n\<close> calls.\<close>

definition wg_at :: "nat \<Rightarrow> WaitGroup \<Rightarrow> bool" where
  "wg_at n wg \<longleftrightarrow> wg_count wg = of_nat n \<and> n < 2 ^ 64 \<and> \<not> wg_poisoned wg"

lemma wg_at_default: "wg_at 0 WaitGroup_default"
  by (simp add: wg_at_def WaitGroup_default_def)

lemma WaitGroup_add_at:
  assumes "wg_at n wg" and "Suc n < 2 ^ 64"
  shows "\<exists>wg'. WaitGroup_add cfg 1 wg = (wg', Inr ()) \<and> wg_at (Suc n) wg'"
proof -
  have s: "(of_nat n + 1 :: usize) = of_nat (Suc n)" by simp
  have "unat (of_nat (Suc n) :: usize) = unat (of_nat n :: usize) + unat (1 :: usize)"
    using assms unat_of_nat_usize [of n] unat_of_nat_usize [of "Suc n"] by (simp add: wg_at_def)
  then have "add_usize cfg (of_nat n) 1 = Inr (of_nat (Suc n))"
    unfolding add_usize_def s by simp
  with assms show ?thesis
    by (simp add: WaitGroup_add_def wg_at_def)
qed

lemma WaitGroup_done_at:
  assumes "wg_at (Suc n) wg"
  shows "\<exists>wg'. WaitGroup_done cfg wg = (wg', Inr (n = 0)) \<and> wg_at n wg'"
proof -
  have u: "unat (of_nat (Suc n) :: usize) = Suc n" and n: "n < 2 ^ 64"
    using assms unat_of_nat_usize [of "Suc n"] by (simp_all add: wg_at_def)
  have "sub_usize cfg (of_nat (Suc n)) 1 = Inr (of_nat n)"
    unfolding sub_usize_def u by simp
  with assms n show ?thesis
    by (simp add: WaitGroup_done_def wg_at_def of_nat_usize_eq_0 del: of_nat_Suc)
qed

lemma WaitGroup_wait_check_at: "wg_at n wg \<Longrightarrow> WaitGroup_wait_check wg = Inr (n = 0)"
  by (simp add: WaitGroup_wait_check_def wg_at_def of_nat_usize_eq_0 word_neq_0_conv [symmetric])

section \<open>One waiting thread and the threads that call done\<close>

text \<open>
  \<open>Running\<close>: \<open>wait\<close> not yet entered; \<open>Parked\<close>: blocked in \<open>Condvar::wait\<close>; \<open>Woken\<close>: notified (or
  woken spuriously), about to take the lock again; \<open>Returned\<close>: \<open>wait\<close> is over.  \<open>owed\<close> counts the
  \<open>done\<close> calls still to come.  Each step is one critical section under the mutex.
\<close>

datatype waiter = Running | Parked | Woken | Returned

record wg_sys =
  sys_wg :: WaitGroup
  sys_owed :: nat
  sys_waiter :: waiter

inductive wg_step :: "build \<Rightarrow> wg_sys \<Rightarrow> wg_sys \<Rightarrow> bool" for cfg where
  step_done: "0 < sys_owed s \<Longrightarrow> WaitGroup_done cfg (sys_wg s) = (wg', Inr notify) \<Longrightarrow>
     wg_step cfg s \<lparr>sys_wg = wg', sys_owed = sys_owed s - 1,
       sys_waiter = (if notify \<and> sys_waiter s = Parked then Woken else sys_waiter s)\<rparr>"
| step_check: "sys_waiter s \<in> {Running, Woken} \<Longrightarrow> WaitGroup_wait_check (sys_wg s) = Inr leave \<Longrightarrow>
     wg_step cfg s (s\<lparr>sys_waiter := (if leave then Returned else Parked)\<rparr>)"

inductive wg_spurious :: "wg_sys \<Rightarrow> wg_sys \<Rightarrow> bool" where
  "sys_waiter s = Parked \<Longrightarrow> wg_spurious s (s\<lparr>sys_waiter := Woken\<rparr>)"

inductive_cases wg_stepE: "wg_step cfg s t"
inductive_cases wg_spuriousE: "wg_spurious s t"

text \<open>The states a wait can pass through, starting after \<open>n\<close> \<open>add(1)\<close> calls.\<close>

inductive wg_reach :: "build \<Rightarrow> nat \<Rightarrow> wg_sys \<Rightarrow> bool" for cfg n where
  wg_reach_start: "wg_at n wg \<Longrightarrow> wg_reach cfg n \<lparr>sys_wg = wg, sys_owed = n, sys_waiter = Running\<rparr>"
| wg_reach_step: "wg_reach cfg n s \<Longrightarrow> wg_step cfg s t \<Longrightarrow> wg_reach cfg n t"
| wg_reach_spurious: "wg_reach cfg n s \<Longrightarrow> wg_spurious s t \<Longrightarrow> wg_reach cfg n t"

text \<open>The invariant: the counter is what is owed; a parked thread has something to wait for; a
  thread that returned owes nothing.\<close>

definition wg_inv :: "wg_sys \<Rightarrow> bool" where
  "wg_inv s \<longleftrightarrow> wg_at (sys_owed s) (sys_wg s)
     \<and> (sys_waiter s = Parked \<longrightarrow> 0 < sys_owed s)
     \<and> (sys_waiter s = Returned \<longrightarrow> sys_owed s = 0)"

lemma wg_step_inv:
  assumes "wg_step cfg s t" and "wg_inv s"
  shows "wg_inv t"
  using assms(1)
proof (cases rule: wg_step.cases)
  case (step_done wg' notify)
  obtain m where m: "sys_owed s = Suc m" using step_done(2) by (cases "sys_owed s") auto
  then obtain wg'' where "WaitGroup_done cfg (sys_wg s) = (wg'', Inr (m = 0))" "wg_at m wg''"
    using WaitGroup_done_at [of m "sys_wg s" cfg] assms(2) by (auto simp: wg_inv_def)
  with step_done m assms(2) show ?thesis by (auto simp: wg_inv_def)
next
  case (step_check leave)
  with assms(2) show ?thesis by (auto simp: wg_inv_def WaitGroup_wait_check_at)
qed

lemma wg_reach_inv: "wg_reach cfg n s \<Longrightarrow> wg_inv s"
proof (induction rule: wg_reach.induct)
  case (wg_reach_start wg)
  then show ?case by (simp add: wg_inv_def)
next
  case (wg_reach_step s t)
  then show ?case by (blast intro: wg_step_inv)
next
  case (wg_reach_spurious s t)
  then show ?case by (auto simp: wg_inv_def elim!: wg_spuriousE)
qed

text \<open>Progress: as long as the wait has not returned some thread can run.\<close>

lemma wg_inv_progress:
  assumes "wg_inv s" and "sys_waiter s \<noteq> Returned"
  shows "\<exists>t. wg_step cfg s t"
proof (cases "sys_waiter s = Parked")
  case True
  with assms(1) obtain m where m: "sys_owed s = Suc m"
    by (cases "sys_owed s") (auto simp: wg_inv_def)
  then obtain wg' where "WaitGroup_done cfg (sys_wg s) = (wg', Inr (m = 0))"
    using WaitGroup_done_at assms(1) by (metis wg_inv_def)
  with m show ?thesis using wg_step.step_done [of s cfg wg' "m = 0"] by auto
next
  case False
  with assms(2) have "sys_waiter s \<in> {Running, Woken}" by (cases "sys_waiter s") auto
  moreover have "WaitGroup_wait_check (sys_wg s) = Inr (sys_owed s = 0)"
    using assms(1) by (simp add: wg_inv_def WaitGroup_wait_check_at)
  ultimately show ?thesis by (blast intro: wg_step.step_check)
qed

text \<open>Every step that is not a spurious wake-up brings the end nearer.\<close>

definition wg_measure :: "wg_sys \<Rightarrow> nat" where
  "wg_measure s = 3 * sys_owed s +
     (case sys_waiter s of Running \<Rightarrow> 2 | Woken \<Rightarrow> 2 | Parked \<Rightarrow> 1 | Returned \<Rightarrow> 0)"

lemma wg_step_measure: "wg_step cfg s t \<Longrightarrow> wg_measure t < wg_measure s"
  by (induction rule: wg_step.induct) (auto simp: wg_measure_def split: waiter.splits)

lemma wg_steps_bounded: "(wg_step cfg ^^ k) s t \<Longrightarrow> k + wg_measure t \<le> wg_measure s"
proof (induction k arbitrary: t)
  case (Suc k)
  then obtain u where "(wg_step cfg ^^ k) s u" "wg_step cfg u t" by auto
  with Suc.IH [of u] wg_step_measure [of cfg u t] show ?case by simp
qed simp

text \<open>C17. The wait group does not lose a wake-up: in every interleaving of a waiting thread with the
  threads that owe \<open>n\<close> calls of \<open>done\<close>, spurious wake-ups included, the counter is what is still owed,
  \<open>wait\<close> returns only when nothing is, no reachable state is stuck before \<open>wait\<close> has returned, and the
  number of steps to the end is bounded as long as there are no spurious wake-ups.\<close>

theorem wait_group_loses_no_wake_up:
  assumes "wg_reach cfg n s"
  shows "wg_at (sys_owed s) (sys_wg s) \<and> (sys_waiter s = Returned \<longrightarrow> sys_owed s = 0) \<and>
    ((\<forall>t. \<not> wg_step cfg s t) \<longrightarrow> sys_waiter s = Returned) \<and>
    ((wg_step cfg ^^ k) s t \<longrightarrow> k \<le> 3 * sys_owed s + 2)"
proof -
  have inv: "wg_inv s" by (rule wg_reach_inv [OF assms])
  have "wg_measure s \<le> 3 * sys_owed s + 2" by (simp add: wg_measure_def split: waiter.split)
  then show ?thesis
    using inv wg_inv_progress [OF inv, of cfg] wg_steps_bounded [of k cfg s t] by (auto simp: wg_inv_def)
qed

text \<open>The witness: the waiting thread has parked while one call is owed.\<close>

theorem wait_group_loses_no_wake_up_witness:
  "\<exists>t. wg_step \<lparr>overflow_checks = True, mock = False\<rparr>
     \<lparr>sys_wg = \<lparr>wg_count = 1, wg_poisoned = False\<rparr>, sys_owed = 1, sys_waiter = Parked\<rparr> t"
proof -
  let ?cfg = "\<lparr>overflow_checks = True, mock = False\<rparr>" and ?wg = "\<lparr>wg_count = 1, wg_poisoned = False\<rparr> :: WaitGroup"
  let ?s0 = "\<lparr>sys_wg = ?wg, sys_owed = 1, sys_waiter = Running\<rparr>"
  have "wg_at 1 ?wg" by (simp add: wg_at_def)
  then have "wg_reach ?cfg 1 ?s0" by (rule wg_reach_start)
  moreover have "wg_step ?cfg ?s0 (?s0\<lparr>sys_waiter := (if False then Returned else Parked)\<rparr>)"
    by (rule step_check) (simp_all add: WaitGroup_wait_check_def)
  ultimately have "wg_reach ?cfg 1 \<lparr>sys_wg = ?wg, sys_owed = 1, sys_waiter = Parked\<rparr>"
    using wg_reach_step by fastforce
  from wait_group_loses_no_wake_up [OF this] show ?thesis by auto
qed

end
