(* ===== verification/Span_Stack.thy ===== *)
theory Span_Stack
  imports Common Wait_Group
begin

text \<open>
  \<open>SpanStack\<close> of \<^verbatim>\<open>src/src/trace/trace_context.rs\<close>: the stack of active spans and the list of
  finalized ones that a tracing context shares with its spans, and the two ways a span leaves
  the stack.  Each operation holds a lock only while it runs and no operation runs inside
  another, so \<open>try_read\<close> and \<open>try_write\<close> are refused only to a thread that meets a guard of another:
  \<open>Trace_Locks\<close> has these calls, \<open>Span_Locks\<close> the interleavings.
\<close>

section \<open>Data\<close>

type_synonym SpanUid = usize

record ActiveSpan =
  as_uid :: SpanUid
  as_span_id :: i32
  as_ref :: "SegmentReference option"

definition ActiveSpan_new :: "SpanUid \<Rightarrow> i32 \<Rightarrow> ActiveSpan" where
  "ActiveSpan_new uid sid = \<lparr>as_uid = uid, as_span_id = sid, as_ref = None\<rparr>"

text \<open>\<open>fs_obj\<close> is \<open>None\<close> while the span lives on as an unfinished \<open>AsyncSpan\<close>.\<close>

record FinalizeSpan =
  fs_uid :: SpanUid
  fs_obj :: "SpanObject option"
  fs_ref :: "SegmentReference option"

definition FinalizeSpan_new ::
  "SpanUid \<Rightarrow> SpanObject option \<Rightarrow> SegmentReference option \<Rightarrow> FinalizeSpan" where
  "FinalizeSpan_new uid obj rf = \<lparr>fs_uid = uid, fs_obj = obj, fs_ref = rf\<rparr>"

record SpanStack =
  finalized :: "FinalizeSpan list"
  active :: "ActiveSpan list"

definition SpanStack_default :: SpanStack where
  "SpanStack_default = \<lparr>finalized = [], active = []\<rparr>"

section \<open>Operations\<close>

definition pop_active :: "SpanUid \<Rightarrow> SpanStack \<Rightarrow> SpanStack \<times> ActiveSpan option" where
  "pop_active uid st =
     (if (case last_opt (active st) of Some a \<Rightarrow> as_uid a = uid | None \<Rightarrow> False)
      then (st\<lparr>active := butlast (active st)\<rparr>, last_opt (active st))
      else (st, None))"

text \<open>What both ways of closing do to the span object: set the end time, append the reference
  that \<open>continued\<close> left, if any.\<close>

definition close_obj :: "i64 \<Rightarrow> SegmentReference option \<Rightarrow> SpanObject \<Rightarrow> SpanObject" where
  "close_obj end_t rf obj =
     obj\<lparr>end_time := end_t,
         refs := (case rf of Some r \<Rightarrow> refs obj @ [r] | None \<Rightarrow> refs obj)\<rparr>"

definition not_active_panic :: panic where
  "not_active_panic = Panic ''Finalize span isn't the active span''"

definition finalize_span ::
  "build \<Rightarrow> SystemTime \<Rightarrow> SpanUid \<Rightarrow> SpanObject option \<Rightarrow> SpanStack \<Rightarrow> (SpanStack, unit) outcome" where
  "finalize_span cfg now uid obj st =
     (case pop_active uid st of
        (st', None) \<Rightarrow> (st', Inl not_active_panic)
      | (st', Some a) \<Rightarrow>
          let fs = (case obj of
              Some ob \<Rightarrow> FinalizeSpan_new uid (Some (close_obj (fetch_time cfg now End) (as_ref a) ob)) None
            | None \<Rightarrow> FinalizeSpan_new uid None (as_ref a))
          in (st'\<lparr>finalized := finalized st' @ [fs]\<rparr>, Inr ()))"

text \<open>The loop of \<open>finalize_async_span\<close> over the finalized list; \<open>None\<close> when it runs off the end.\<close>

fun fill_async :: "i64 \<Rightarrow> SpanUid \<Rightarrow> SpanObject \<Rightarrow> FinalizeSpan list \<Rightarrow> FinalizeSpan list option" where
  "fill_async end_t uid obj [] = None"
| "fill_async end_t uid obj (f # fs) =
     (if fs_uid f = uid
      then Some (f\<lparr>fs_obj := Some (close_obj end_t (fs_ref f) obj), fs_ref := None\<rparr> # fs)
      else map_option (\<lambda>fs'. f # fs') (fill_async end_t uid obj fs))"

definition unreachable_panic :: panic where
  "unreachable_panic = Panic ''internal error: entered unreachable code''"

definition finalize_async_span ::
  "build \<Rightarrow> SystemTime \<Rightarrow> SpanUid \<Rightarrow> SpanObject \<Rightarrow> SpanStack \<Rightarrow> (SpanStack, unit) outcome" where
  "finalize_async_span cfg now uid obj st =
     (case fill_async (fetch_time cfg now End) uid obj (finalized st) of
        None \<Rightarrow> (st, Inl unreachable_panic)
      | Some fin \<Rightarrow> (st\<lparr>finalized := fin\<rparr>, Inr ()))"

section \<open>Lemmas\<close>

lemma close_obj_fields [simp]:
  "span_id (close_obj e r ob) = span_id ob"
  "parent_span_id (close_obj e r ob) = parent_span_id ob"
  "start_time (close_obj e r ob) = start_time ob"
  "end_time (close_obj e r ob) = e"
  "refs (close_obj e r ob) = refs ob @ (case r of Some x \<Rightarrow> [x] | None \<Rightarrow> [])"
  "operation_name (close_obj e r ob) = operation_name ob"
  "peer (close_obj e r ob) = peer ob"
  "span_type (close_obj e r ob) = span_type ob"
  "span_layer (close_obj e r ob) = span_layer ob"
  "tags (close_obj e r ob) = tags ob"
  "logs (close_obj e r ob) = logs ob"
  by (simp_all add: close_obj_def split: option.splits)

lemma pop_active_top [simp]:
  "active st = as @ [a] \<Longrightarrow> as_uid a = uid \<Longrightarrow>
     pop_active uid st = (st\<lparr>active := as\<rparr>, Some a)"
  by (simp add: pop_active_def)

lemma pop_active_other:
  "map_option as_uid (last_opt (active st)) \<noteq> Some uid \<Longrightarrow> pop_active uid st = (st, None)"
  by (auto simp: pop_active_def split: option.splits)

lemma finalize_span_top [stack_simps]:
  assumes "active st = as @ [a]" and "as_uid a = uid"
  shows "finalize_span cfg now uid (Some ob) st =
      (st\<lparr>active := as, finalized := finalized st @
         [FinalizeSpan_new uid (Some (close_obj (fetch_time cfg now End) (as_ref a) ob)) None]\<rparr>, Inr ())"
    and "finalize_span cfg now uid None st =
      (st\<lparr>active := as, finalized := finalized st @ [FinalizeSpan_new uid None (as_ref a)]\<rparr>, Inr ())"
  using assms by (simp_all add: finalize_span_def)

text \<open>Closing a span that is not on top is a panic that leaves the stack as it was.\<close>

lemma finalize_span_not_top [stack_simps]:
  assumes "map_option as_uid (last_opt (active st)) \<noteq> Some uid"
  shows "finalize_span cfg now uid ob st = (st, Inl not_active_panic)"
  using assms by (simp add: finalize_span_def pop_active_other)

lemma fill_async_hit:
  assumes "fs_uid f = uid" and "uid \<notin> fs_uid ` set pre"
  shows "fill_async e uid ob (pre @ f # post) =
    Some (pre @ f\<lparr>fs_obj := Some (close_obj e (fs_ref f) ob), fs_ref := None\<rparr> # post)"
  using assms by (induction pre) auto

lemma fill_async_None: "fill_async e uid ob fs = None \<longleftrightarrow> uid \<notin> fs_uid ` set fs"
  by (induction fs) auto

lemma fill_async_split:
  assumes "fill_async e uid ob fs = Some fs'"
  shows "\<exists>pre f post. fs = pre @ f # post \<and> fs_uid f = uid \<and> uid \<notin> fs_uid ` set pre \<and>
    fs' = pre @ f\<lparr>fs_obj := Some (close_obj e (fs_ref f) ob), fs_ref := None\<rparr> # post"
proof -
  from assms have "uid \<in> fs_uid ` set fs" using fill_async_None [of e uid ob fs] by auto
  then obtain pre f post where "fs = pre @ f # post" "fs_uid f = uid" "uid \<notin> fs_uid ` set pre"
    using split_list_first_prop [of fs "\<lambda>f. fs_uid f = uid"] by fastforce
  with assms show ?thesis by (metis fill_async_hit option.inject)
qed

lemma fill_async_uids: "fill_async e uid ob fs = Some fs' \<Longrightarrow> map fs_uid fs' = map fs_uid fs"
  by (auto dest!: fill_async_split)

end
