(* ===== verification/Span.thy ===== *)
theory Span
  imports Span_Stack
begin

text \<open>
  \<^verbatim>\<open>src/src/trace/span.rs\<close>: \<open>Span\<close>, the guard of an active span, and \<open>AsyncSpan\<close>, what
  \<open>prepare_for_async\<close> turns it into.  Both point to the stack and the wait group of their
  context; these are the explicit state \<open>Shared\<close> of the operations.
\<close>

section \<open>Data\<close>

text \<open>What the \<open>Arc\<close>s and \<open>Weak\<close>s of a context and its spans point to.\<close>

record Shared =
  sh_stack :: SpanStack
  sh_wg :: WaitGroup

record Span =
  sp_uid :: SpanUid
  sp_obj :: "SpanObject option"

record AsyncSpan =
  asy_uid :: SpanUid
  asy_obj :: "SpanObject option"

definition SKYWALKING_RUST_COMPONENT_ID :: i32 where
  "SKYWALKING_RUST_COMPONENT_ID = 11000"

definition unwrap_none_panic :: panic where
  "unwrap_none_panic = Panic ''called `Option::unwrap()` on a `None` value''"

section \<open>Span\<close>

definition Span_new :: "SpanUid \<Rightarrow> SpanObject \<Rightarrow> Span" where
  "Span_new uid obj = \<lparr>sp_uid = uid, sp_obj = Some obj\<rparr>"

definition Span_new_obj ::
  "build \<Rightarrow> SystemTime \<Rightarrow> i32 \<Rightarrow> i32 \<Rightarrow> string \<Rightarrow> string \<Rightarrow> SpanType \<Rightarrow> SpanLayer \<Rightarrow> bool \<Rightarrow> SpanObject" where
  "Span_new_obj cfg now sid parent opname remote_peer stype layer skip =
     \<lparr>span_id = sid, parent_span_id = parent, start_time = fetch_time cfg now Start,
      end_time = 0, refs = [], operation_name = opname, peer = remote_peer,
      span_type = stype, span_layer = layer, component_id = SKYWALKING_RUST_COMPONENT_ID,
      is_error = False, tags = [], logs = [], skip_analysis = skip\<rparr>"

definition is_active_span :: "SpanStack \<Rightarrow> Span \<Rightarrow> bool" where
  "is_active_span st sp =
     (case last_opt (active st) of Some a \<Rightarrow> as_uid a = sp_uid sp | None \<Rightarrow> False)"

text \<open>\<open>Drop for Span\<close>.\<close>

definition Span_drop :: "build \<Rightarrow> SystemTime \<Rightarrow> Span \<Rightarrow> Shared \<Rightarrow> (Shared, unit) outcome" where
  "Span_drop cfg now sp sh =
     (case finalize_span cfg now (sp_uid sp) (sp_obj sp) (sh_stack sh) of
        (st', r) \<Rightarrow> (sh\<lparr>sh_stack := st'\<rparr>, r))"

text \<open>Unwinding from panic \<open>p\<close> runs a destructor; if that panics too, the process aborts.\<close>

definition unwind :: "panic \<Rightarrow> ('s, 'a) outcome \<Rightarrow> ('s, 'b) outcome" where
  "unwind p out = (fst out, case snd out of Inl _ \<Rightarrow> Inl Abort | Inr _ \<Rightarrow> Inl p)"

text \<open>
  \<open>prepare_for_async\<close> owns the span: on every way out, panics included, \<open>self\<close> is dropped.
\<close>

definition prepare_for_async ::
  "build \<Rightarrow> SystemTime \<Rightarrow> Span \<Rightarrow> Shared \<Rightarrow> (Shared, AsyncSpan) outcome" where
  "prepare_for_async cfg now sp sh =
     (if \<not> is_active_span (sh_stack sh) sp
      then unwind (Panic ''current span isn't active span'') (Span_drop cfg now sp sh)
      else (case WaitGroup_add cfg 1 (sh_wg sh) of
              (wg', Inl p) \<Rightarrow> unwind p (Span_drop cfg now sp (sh\<lparr>sh_wg := wg'\<rparr>))
            | (wg', Inr _) \<Rightarrow>
                (case Span_drop cfg now (sp\<lparr>sp_obj := None\<rparr>) (sh\<lparr>sh_wg := wg'\<rparr>) of
                   (sh', Inl p) \<Rightarrow> (sh', Inl p)
                 | (sh', Inr _) \<Rightarrow> (sh', Inr \<lparr>asy_uid = sp_uid sp, asy_obj = sp_obj sp\<rparr>))))"

section \<open>AsyncSpan\<close>

text \<open>\<open>Drop for AsyncSpan\<close>: \<open>alive\<close> says whether the weak pointer to the stack can still be
  upgraded.\<close>

definition AsyncSpan_drop ::
  "build \<Rightarrow> SystemTime \<Rightarrow> bool \<Rightarrow> AsyncSpan \<Rightarrow> Shared \<Rightarrow> (Shared, unit) outcome" where
  "AsyncSpan_drop cfg now alive sp sh =
     (if \<not> alive then (sh, Inl (Panic ''TracingContext has dropped''))
      else (case asy_obj sp of
              None \<Rightarrow> (sh, Inl unwrap_none_panic)
            | Some obj \<Rightarrow>
                (case finalize_async_span cfg now (asy_uid sp) obj (sh_stack sh) of
                   (st', Inl p) \<Rightarrow> (sh\<lparr>sh_stack := st'\<rparr>, Inl p)
                 | (st', Inr _) \<Rightarrow>
                     (case WaitGroup_done cfg (sh_wg sh) of
                        (wg', Inl p) \<Rightarrow> (\<lparr>sh_stack = st', sh_wg = wg'\<rparr>, Inl p)
                      | (wg', Inr _) \<Rightarrow> (\<lparr>sh_stack = st', sh_wg = wg'\<rparr>, Inr ())))))"

section \<open>HandleSpanObject\<close>

text \<open>The trait's methods, on the optional object a \<open>Span\<close> or an \<open>AsyncSpan\<close> holds.\<close>

definition span_object :: "SpanObject option \<Rightarrow> SpanObject res" where
  "span_object ob = (case ob of Some obj \<Rightarrow> Inr obj | None \<Rightarrow> Inl unwrap_none_panic)"

definition span_object_mut ::
  "(SpanObject \<Rightarrow> SpanObject) \<Rightarrow> SpanObject option \<Rightarrow> (SpanObject option, unit) outcome" where
  "span_object_mut f ob =
     (case ob of Some obj \<Rightarrow> (Some (f obj), Inr ()) | None \<Rightarrow> (None, Inl unwrap_none_panic))"

definition handle_span_id :: "SpanObject option \<Rightarrow> i32 res" where
  "handle_span_id ob = map_sum id span_id (span_object ob)"

definition handle_add_log ::
  "build \<Rightarrow> SystemTime \<Rightarrow> (string \<times> string) list \<Rightarrow> SpanObject option \<Rightarrow> (SpanObject option, unit) outcome" where
  "handle_add_log cfg now message =
     span_object_mut (SpanObject_add_log (fetch_time cfg now PLog) message)"

definition handle_add_tag ::
  "string \<Rightarrow> string \<Rightarrow> SpanObject option \<Rightarrow> (SpanObject option, unit) outcome" where
  "handle_add_tag key value = span_object_mut (SpanObject_add_tag key value)"

section \<open>Lemmas\<close>

lemma is_active_span_iff: "is_active_span st sp \<longleftrightarrow> map_option as_uid (last_opt (active st)) = Some (sp_uid sp)"
  by (auto simp: is_active_span_def split: option.splits)

lemma Span_new_obj_fields [simp]:
  "span_id (Span_new_obj cfg now i p n r t l s) = i"
  "parent_span_id (Span_new_obj cfg now i p n r t l s) = p"
  "start_time (Span_new_obj cfg now i p n r t l s) = fetch_time cfg now Start"
  "refs (Span_new_obj cfg now i p n r t l s) = []"
  "operation_name (Span_new_obj cfg now i p n r t l s) = n"
  "peer (Span_new_obj cfg now i p n r t l s) = r"
  "span_type (Span_new_obj cfg now i p n r t l s) = t"
  by (simp_all add: Span_new_obj_def)

lemma Span_drop_top [stack_simps]:
  assumes "active (sh_stack sh) = as @ [a]" and "as_uid a = sp_uid sp" and "sp_obj sp = Some ob"
  shows "Span_drop cfg now sp sh =
    (sh\<lparr>sh_stack := (sh_stack sh)\<lparr>active := as, finalized := finalized (sh_stack sh) @
       [FinalizeSpan_new (sp_uid sp) (Some (close_obj (fetch_time cfg now End) (as_ref a) ob)) None]\<rparr>\<rparr>,
     Inr ())"
  using assms by (simp add: Span_drop_def finalize_span_top)

text \<open>A span can be dropped without a panic exactly when it is the innermost active one.\<close>

lemma Span_drop_ok_iff: "is_ok (snd (Span_drop cfg now sp sh)) \<longleftrightarrow> is_active_span (sh_stack sh) sp"
proof (cases "is_active_span (sh_stack sh) sp")
  case True
  then obtain as a where "active (sh_stack sh) = as @ [a]" "as_uid a = sp_uid sp"
    by (auto simp: is_active_span_iff last_opt_eq_Some)
  with True show ?thesis
    by (cases "sp_obj sp") (simp_all add: Span_drop_def finalize_span_top)
next
  case False
  then show ?thesis
    by (simp add: Span_drop_def is_active_span_iff finalize_span_not_top)
qed

lemma Span_drop_not_top:
  "\<not> is_active_span (sh_stack sh) sp \<Longrightarrow> Span_drop cfg now sp sh = (sh, Inl not_active_panic)"
  by (simp add: Span_drop_def is_active_span_iff finalize_span_not_top)

lemma prepare_for_async_top [stack_simps]:
  assumes "active (sh_stack sh) = as @ [a]" and "as_uid a = sp_uid sp"
    and "WaitGroup_add cfg 1 (sh_wg sh) = (wg', Inr u)"
  shows "prepare_for_async cfg now sp sh =
    (\<lparr>sh_stack = (sh_stack sh)\<lparr>active := as, finalized := finalized (sh_stack sh) @
        [FinalizeSpan_new (sp_uid sp) None (as_ref a)]\<rparr>, sh_wg = wg'\<rparr>,
     Inr \<lparr>asy_uid = sp_uid sp, asy_obj = sp_obj sp\<rparr>)"
proof -
  have "is_active_span (sh_stack sh) sp" using assms by (simp add: is_active_span_iff)
  with assms show ?thesis
    by (simp add: prepare_for_async_def Span_drop_def finalize_span_top)
qed

end
