(* ===== verification/Propagation_Context.thy ===== *)
theory Propagation_Context
  imports Common
begin

text \<open>\<^verbatim>\<open>src/src/trace/propagation/context.rs\<close>: what a request carries from the caller.\<close>

record PropagationContext =
  do_sample :: bool
  pc_parent_trace_id :: string
  pc_parent_trace_segment_id :: string
  pc_parent_span_id :: i32
  pc_parent_service :: string
  pc_parent_service_instance :: string
  destination_endpoint :: string
  destination_address :: string

definition SKYWALKING_HTTP_CONTEXT_HEADER_KEY :: string where
  "SKYWALKING_HTTP_CONTEXT_HEADER_KEY = ''sw8''"

definition PropagationContext_new ::
  "bool \<Rightarrow> string \<Rightarrow> string \<Rightarrow> i32 \<Rightarrow> string \<Rightarrow> string \<Rightarrow> string \<Rightarrow> string \<Rightarrow> PropagationContext" where
  "PropagationContext_new sample tid seg sid srv inst endpoint address =
     \<lparr>do_sample = sample, pc_parent_trace_id = tid, pc_parent_trace_segment_id = seg,
      pc_parent_span_id = sid, pc_parent_service = srv, pc_parent_service_instance = inst,
      destination_endpoint = endpoint, destination_address = address\<rparr>"

end
