(* ===== verification/Reporter.thy ===== *)
theory Reporter
  imports Common
begin

text \<open>
  \<^verbatim>\<open>src/src/reporter/mod.rs\<close>: the items the agent collects and the trait \<open>Report\<close> through which
  tracer, logger, metricer and manager hand them over.  The trait is the locale \<open>reporter\<close>; the
  implementations for \<open>()\<close>, \<open>Box\<close>, \<open>Arc\<close> and \<open>OnceCell\<close> are here, the real reporters in theories
  of their own.
\<close>

section \<open>Collect items\<close>

datatype CollectItem =
    Trace SegmentObject
  | Log LogData
  | Meter MeterData
  | Instance InstanceProperties
  | Ping InstancePingPkg

text \<open>The generated \<open>prost\<close> encoders, one per message type.\<close>

record encoders =
  enc_segment :: "SegmentObject \<Rightarrow> bytes"
  enc_log :: "LogData \<Rightarrow> bytes"
  enc_meter :: "MeterData \<Rightarrow> bytes"
  enc_instance :: "InstanceProperties \<Rightarrow> bytes"
  enc_ping :: "InstancePingPkg \<Rightarrow> bytes"

fun CollectItem_encode_to_vec :: "encoders \<Rightarrow> CollectItem \<Rightarrow> bytes" where
  "CollectItem_encode_to_vec enc (Trace item) = enc_segment enc item"
| "CollectItem_encode_to_vec enc (Log item) = enc_log enc item"
| "CollectItem_encode_to_vec enc (Meter item) = enc_meter enc item"
| "CollectItem_encode_to_vec enc (Instance item) = enc_instance enc item"
| "CollectItem_encode_to_vec enc (Ping item) = enc_ping enc item"

section \<open>The trait Report\<close>

text \<open>A reporter is a function on its own state.\<close>

type_synonym 'r report_fn = "CollectItem \<Rightarrow> 'r \<Rightarrow> ('r, unit) outcome"

text \<open>
  What a client relies on: an accepting reporter takes every item, in order, without a panic and
  stays accepting.
\<close>

locale reporter =
  fixes report :: "'r report_fn"
    and delivered :: "'r \<Rightarrow> CollectItem list"
    and accepting :: "'r \<Rightarrow> bool"
  assumes report_ok: "accepting r \<Longrightarrow> snd (report x r) = Inr ()"
    and delivered_report: "accepting r \<Longrightarrow> delivered (fst (report x r)) = delivered r @ [x]"
    and accepting_report: "accepting r \<Longrightarrow> accepting (fst (report x r))"
begin

lemma report_accepting:
  assumes "accepting r"
  shows "\<exists>r'. report x r = (r', Inr ()) \<and> delivered r' = delivered r @ [x] \<and> accepting r'"
proof -
  have "report x r = (fst (report x r), Inr ())"
    using report_ok [OF assms, of x] by (metis prod.collapse)
  with delivered_report [OF assms, of x] accepting_report [OF assms, of x] show ?thesis by auto
qed

end

text \<open>A single queue or stream keeps more: while it does not accept, it takes nothing.\<close>

locale gated_reporter = reporter +
  assumes refuses: "\<not> accepting r \<Longrightarrow>
    delivered (fst (report x r)) = delivered r \<and> \<not> accepting (fst (report x r))"

lemma gated_reporterI:
  assumes "\<And>x r. accepting r \<Longrightarrow> snd (report x r) = Inr ()"
    and "\<And>x r. delivered (fst (report x r)) = delivered r @ (if accepting r then [x] else [])"
    and "\<And>x r. accepting (fst (report x r)) = accepting r"
  shows "gated_reporter report delivered accepting"
  by unfold_locales (simp_all add: assms)

text \<open>Reporting several items one after the other stops at the first panic.\<close>

fun report_all :: "'r report_fn \<Rightarrow> CollectItem list \<Rightarrow> 'r \<Rightarrow> ('r, unit) outcome" where
  "report_all report [] r = (r, Inr ())"
| "report_all report (x # xs) r =
     (case report x r of (r', Inl p) \<Rightarrow> (r', Inl p) | (r', Inr _) \<Rightarrow> report_all report xs r')"

context reporter
begin

lemma report_all_delivers:
  "accepting r \<Longrightarrow> \<exists>r'. report_all report xs r = (r', Inr ()) \<and>
     delivered r' = delivered r @ xs \<and> accepting r'"
proof (induction xs arbitrary: r)
  case Nil
  then show ?case by simp
next
  case (Cons x xs)
  from report_accepting [OF Cons.prems, of x] obtain r1 where
    "report x r = (r1, Inr ())" "delivered r1 = delivered r @ [x]" "accepting r1" by auto
  with Cons.IH [of r1] show ?case by auto
qed

end

section \<open>Implementations for unit, Box, Arc and OnceCell\<close>

definition unit_report :: "unit report_fn" where
  "unit_report item r = (r, Inr ())"

definition Box_report :: "'r report_fn \<Rightarrow> 'r report_fn" where
  "Box_report inner item r = inner item r"

definition Arc_report :: "'r report_fn \<Rightarrow> 'r report_fn" where
  "Arc_report inner item r = inner item r"

definition OnceCell_report :: "'r report_fn \<Rightarrow> 'r option report_fn" where
  "OnceCell_report inner item c =
     (case c of
        None \<Rightarrow> (None, Inl (Panic ''OnceCell is empty''))
      | Some r \<Rightarrow> (case inner item r of (r', x) \<Rightarrow> (Some r', x)))"

interpretation noop: gated_reporter unit_report "\<lambda>_. []" "\<lambda>_. False"
  by unfold_locales (auto simp: unit_report_def)

lemma reporter_Box: "reporter inner d a \<Longrightarrow> reporter (Box_report inner) d a"
  by (simp add: Box_report_def [abs_def])

lemma reporter_Arc: "reporter inner d a \<Longrightarrow> reporter (Arc_report inner) d a"
  by (simp add: Arc_report_def [abs_def])

lemma OnceCell_report_simps [simp]:
  "OnceCell_report inner x None = (None, Inl (Panic ''OnceCell is empty''))"
  "fst (OnceCell_report inner x (Some r)) = Some (fst (inner x r))"
  "snd (OnceCell_report inner x (Some r)) = snd (inner x r)"
  by (simp_all add: OnceCell_report_def split: prod.splits)

text \<open>An initialised cell is as good a reporter as its content.\<close>

lemma reporter_OnceCell:
  assumes "reporter inner d a"
  shows "reporter (OnceCell_report inner) (\<lambda>c. case c of Some r \<Rightarrow> d r | None \<Rightarrow> [])
    (\<lambda>c. case c of Some r \<Rightarrow> a r | None \<Rightarrow> False)"
  by unfold_locales
    (auto simp: reporter.report_ok [OF assms] reporter.delivered_report [OF assms]
      reporter.accepting_report [OF assms] split: option.splits)

end
