(* ===== verification/Tracing_Context.thy ===== *)
theory Tracing_Context
  imports Span Propagation_Context Reporter
begin

text \<open>
  \<open>TracingContext\<close> and \<open>ContextSnapshot\<close> of \<^verbatim>\<open>src/src/trace/trace_context.rs\<close> and \<open>Tracer\<close> of
  \<^verbatim>\<open>src/src/trace/tracer.rs\<close>.  The operations of a context run on the context and on the stack
  it shares with its spans.  The weak pointer to the tracer is the argument \<open>tracer\<close>: \<open>Some\<close> when
  it can be upgraded.
\<close>

section \<open>Data\<close>

record TracingContext =
  tc_trace_id :: string
  tc_trace_segment_id :: string
  tc_service :: string
  tc_service_instance :: string
  tc_next_span_id :: i32
  tc_primary_endpoint_name :: string
  tc_span_uid_generator :: usize

record ContextSnapshot =
  snap_trace_id :: string
  snap_trace_segment_id :: string
  snap_span_id :: i32
  snap_parent_endpoint :: string

record Tracer =
  service_name :: string
  instance_name :: string

section \<open>TracingContext\<close>

definition TracingContext_new :: "u128 \<Rightarrow> u128 \<Rightarrow> string \<Rightarrow> string \<Rightarrow> TracingContext" where
  "TracingContext_new uuid1 uuid2 srv inst =
     \<lparr>tc_trace_id = RandomGenerator_generate uuid1,
      tc_trace_segment_id = RandomGenerator_generate uuid2,
      tc_service = srv, tc_service_instance = inst, tc_next_span_id = 0,
      tc_primary_endpoint_name = [], tc_span_uid_generator = 0\<rparr>"

definition inc_next_span_id :: "build \<Rightarrow> TracingContext \<Rightarrow> (TracingContext, i32) outcome" where
  "inc_next_span_id cfg tc =
     (case add_i32 cfg (tc_next_span_id tc) 1 of
        Inl p \<Rightarrow> (tc, Inl p)
      | Inr n \<Rightarrow> (tc\<lparr>tc_next_span_id := n\<rparr>, Inr (tc_next_span_id tc)))"

text \<open>\<open>fetch_add\<close> on an atomic wraps around.\<close>

definition generate_span_uid :: "TracingContext \<Rightarrow> TracingContext \<times> SpanUid" where
  "generate_span_uid tc =
     (tc\<lparr>tc_span_uid_generator := tc_span_uid_generator tc + 1\<rparr>, tc_span_uid_generator tc)"

fun find_obj :: "FinalizeSpan list \<Rightarrow> SpanObject option" where
  "find_obj [] = None"
| "find_obj (f # fs) = (case fs_obj f of Some obj \<Rightarrow> Some obj | None \<Rightarrow> find_obj fs)"

definition last_span :: "SpanStack \<Rightarrow> SpanObject option" where
  "last_span st = find_obj (rev (finalized st))"

definition active_span :: "SpanStack \<Rightarrow> ActiveSpan option" where
  "active_span st = last_opt (active st)"

definition active_span_mut :: "(ActiveSpan \<Rightarrow> ActiveSpan) \<Rightarrow> SpanStack \<Rightarrow> SpanStack" where
  "active_span_mut f st =
     (case last_opt (active st) of
        None \<Rightarrow> st
      | Some a \<Rightarrow> st\<lparr>active := butlast (active st) @ [f a]\<rparr>)"

definition peek_active_span_id :: "SpanStack \<Rightarrow> i32 option" where
  "peek_active_span_id st = map_option as_span_id (active_span st)"

text \<open>\<open>peek_active_span_id().unwrap_or(-1)\<close>.\<close>

definition parent_or_root :: "SpanStack \<Rightarrow> i32" where
  "parent_or_root st = (case peek_active_span_id st of Some i \<Rightarrow> i | None \<Rightarrow> -1)"

definition push_active_span ::
  "SpanObject \<Rightarrow> TracingContext \<times> SpanStack \<Rightarrow> (TracingContext \<times> SpanStack) \<times> SpanUid" where
  "push_active_span obj cs =
     (case cs of (tc, st) \<Rightarrow>
        let (tc1, uid) = generate_span_uid tc;
            tc2 = tc1\<lparr>tc_primary_endpoint_name := operation_name obj\<rparr>
        in ((tc2, st\<lparr>active := active st @ [ActiveSpan_new uid (span_id obj)]\<rparr>), uid))"

text \<open>Number the span, build its object, push it: the common tail of the three constructors.\<close>

definition create_span ::
  "build \<Rightarrow> SystemTime \<Rightarrow> i32 \<Rightarrow> string \<Rightarrow> string \<Rightarrow> SpanType \<Rightarrow> SpanLayer \<Rightarrow>
   TracingContext \<times> SpanStack \<Rightarrow> (TracingContext \<times> SpanStack, Span) outcome" where
  "create_span cfg now parent opname remote_peer stype layer cs =
     (case cs of (tc, st) \<Rightarrow>
        (case inc_next_span_id cfg tc of
           (tc', Inl p) \<Rightarrow> ((tc', st), Inl p)
         | (tc', Inr sid) \<Rightarrow>
             let obj = Span_new_obj cfg now sid parent opname remote_peer stype layer False;
                 (cs', uid) = push_active_span obj (tc', st)
             in (cs', Inr (Span_new uid obj))))"

definition create_entry_span ::
  "build \<Rightarrow> SystemTime \<Rightarrow> string \<Rightarrow> TracingContext \<times> SpanStack \<Rightarrow>
   (TracingContext \<times> SpanStack, Span) outcome" where
  "create_entry_span cfg now opname cs =
     create_span cfg now (parent_or_root (snd cs)) opname [] Entry Http cs"

definition propagation_ref :: "string \<Rightarrow> PropagationContext \<Rightarrow> SegmentReference" where
  "propagation_ref tid p =
     \<lparr>ref_type = CrossProcess, ref_trace_id = tid,
      parent_trace_segment_id = pc_parent_trace_segment_id p,
      ref_parent_span_id = pc_parent_span_id p,
      parent_service = pc_parent_service p,
      parent_service_instance = pc_parent_service_instance p,
      parent_endpoint = destination_endpoint p,
      network_address_used_at_peer = destination_address p\<rparr>"

definition create_entry_span_with_propagation ::
  "build \<Rightarrow> SystemTime \<Rightarrow> string \<Rightarrow> PropagationContext \<Rightarrow> TracingContext \<times> SpanStack \<Rightarrow>
   (TracingContext \<times> SpanStack, Span) outcome" where
  "create_entry_span_with_propagation cfg now opname prop cs =
     (case create_entry_span cfg now opname cs of
        (cs', Inl p) \<Rightarrow> (cs', Inl p)
      | ((tc, st), Inr sp) \<Rightarrow>
          let tc' = tc\<lparr>tc_trace_id := pc_parent_trace_id prop\<rparr>
          in (case span_object_mut
                     (\<lambda>obj. obj\<lparr>refs := refs obj @ [propagation_ref (tc_trace_id tc') prop]\<rparr>)
                     (sp_obj sp) of
                (ob, Inl p) \<Rightarrow> ((tc', st), Inl p)
              | (ob, Inr _) \<Rightarrow> ((tc', st), Inr (sp\<lparr>sp_obj := ob\<rparr>))))"

definition no_entry_panic :: panic where
  "no_entry_panic = Panic ''entry span must be existed.''"

definition create_common_span ::
  "build \<Rightarrow> SystemTime \<Rightarrow> string \<Rightarrow> string \<Rightarrow> SpanType \<Rightarrow> i32 \<Rightarrow> TracingContext \<times> SpanStack \<Rightarrow>
   (TracingContext \<times> SpanStack, Span) outcome" where
  "create_common_span cfg now opname remote_peer stype parent cs =
     (if tc_next_span_id (fst cs) = 0 then (cs, Inl no_entry_panic)
      else create_span cfg now parent opname remote_peer stype Unknown cs)"

definition create_exit_span ::
  "build \<Rightarrow> SystemTime \<Rightarrow> string \<Rightarrow> string \<Rightarrow> TracingContext \<times> SpanStack \<Rightarrow>
   (TracingContext \<times> SpanStack, Span) outcome" where
  "create_exit_span cfg now opname remote_peer cs =
     create_common_span cfg now opname remote_peer Exit (parent_or_root (snd cs)) cs"

definition create_local_span ::
  "build \<Rightarrow> SystemTime \<Rightarrow> string \<Rightarrow> TracingContext \<times> SpanStack \<Rightarrow>
   (TracingContext \<times> SpanStack, Span) outcome" where
  "create_local_span cfg now opname cs =
     create_common_span cfg now opname [] Local (parent_or_root (snd cs)) cs"

definition capture :: "TracingContext \<times> SpanStack \<Rightarrow> ContextSnapshot" where
  "capture cs =
     \<lparr>snap_trace_id = tc_trace_id (fst cs), snap_trace_segment_id = tc_trace_segment_id (fst cs),
      snap_span_id = parent_or_root (snd cs),
      snap_parent_endpoint = tc_primary_endpoint_name (fst cs)\<rparr>"

definition ContextSnapshot_is_from_current :: "ContextSnapshot \<Rightarrow> TracingContext \<Rightarrow> bool" where
  "ContextSnapshot_is_from_current snap tc \<longleftrightarrow>
     snap_trace_segment_id snap \<noteq> [] \<and> snap_trace_segment_id snap = tc_trace_segment_id tc"

definition ContextSnapshot_is_valid :: "ContextSnapshot \<Rightarrow> bool" where
  "ContextSnapshot_is_valid snap \<longleftrightarrow>
     snap_trace_segment_id snap \<noteq> [] \<and> -1 < sint (snap_span_id snap) \<and> snap_trace_id snap \<noteq> []"

definition upgrade_tracer :: "Tracer option \<Rightarrow> Tracer res" where
  "upgrade_tracer tracer =
     (case tracer of Some t \<Rightarrow> Inr t | None \<Rightarrow> Inl (Panic ''Tracer has dropped''))"

definition snapshot_ref :: "Tracer \<Rightarrow> ContextSnapshot \<Rightarrow> SegmentReference" where
  "snapshot_ref t snap =
     \<lparr>ref_type = CrossThread, ref_trace_id = snap_trace_id snap,
      parent_trace_segment_id = snap_trace_segment_id snap,
      ref_parent_span_id = snap_span_id snap,
      parent_service = service_name t, parent_service_instance = instance_name t,
      parent_endpoint = snap_parent_endpoint snap, network_address_used_at_peer = []\<rparr>"

definition continued ::
  "Tracer option \<Rightarrow> ContextSnapshot \<Rightarrow> TracingContext \<times> SpanStack \<Rightarrow>
   (TracingContext \<times> SpanStack, unit) outcome" where
  "continued tracer snap cs =
     (if ContextSnapshot_is_valid snap then
        let tc = (fst cs)\<lparr>tc_trace_id := snap_trace_id snap\<rparr>
        in (case upgrade_tracer tracer of
              Inl p \<Rightarrow> ((tc, snd cs), Inl p)
            | Inr t \<Rightarrow>
                ((tc, active_span_mut (\<lambda>a. a\<lparr>as_ref := Some (snapshot_ref t snap)\<rparr>) (snd cs)), Inr ()))
      else (cs, Inr ()))"

text \<open>The finalized spans are taken out before they are looked at.\<close>

definition unfinished_async_panic :: panic where
  "unfinished_async_panic = Panic ''Some async span haven't finished''"

definition convert_to_segment_object ::
  "TracingContext \<Rightarrow> SpanStack \<Rightarrow> (SpanStack, SegmentObject) outcome" where
  "convert_to_segment_object tc st =
     (st\<lparr>finalized := []\<rparr>,
      case those (map fs_obj (finalized st)) of
        None \<Rightarrow> Inl unfinished_async_panic
      | Some spans \<Rightarrow>
          Inr \<lparr>seg_trace_id = tc_trace_id tc, seg_trace_segment_id = tc_trace_segment_id tc,
               seg_spans = spans, seg_service = tc_service tc,
               seg_service_instance = tc_service_instance tc, is_size_limited = False\<rparr>)"

section \<open>Tracer\<close>

definition Tracer_new :: "string \<Rightarrow> string \<Rightarrow> Tracer" where
  "Tracer_new srv inst = \<lparr>service_name = srv, instance_name = inst\<rparr>"

definition create_trace_context :: "u128 \<Rightarrow> u128 \<Rightarrow> Tracer \<Rightarrow> TracingContext" where
  "create_trace_context uuid1 uuid2 t =
     TracingContext_new uuid1 uuid2 (service_name t) (instance_name t)"

definition finalize_context ::
  "'r report_fn \<Rightarrow> TracingContext \<Rightarrow> SpanStack \<times> 'r \<Rightarrow> (SpanStack \<times> 'r, unit) outcome" where
  "finalize_context report tc sr =
     (case convert_to_segment_object tc (fst sr) of
        (st', Inl p) \<Rightarrow> ((st', snd sr), Inl p)
      | (st', Inr seg) \<Rightarrow> (case report (Trace seg) (snd sr) of (r', x) \<Rightarrow> ((st', r'), x)))"

text \<open>\<open>Drop for TracingContext\<close>.\<close>

definition TracingContext_drop ::
  "'r report_fn \<Rightarrow> Tracer option \<Rightarrow> TracingContext \<Rightarrow> SpanStack \<times> 'r \<Rightarrow> (SpanStack \<times> 'r, unit) outcome" where
  "TracingContext_drop report tracer tc sr =
     (case upgrade_tracer tracer of
        Inl p \<Rightarrow> (sr, Inl p)
      | Inr t \<Rightarrow> finalize_context report tc sr)"

text \<open>The process-wide tracer: a cell that can be set once.\<close>

definition set_global_tracer :: "Tracer \<Rightarrow> Tracer option \<Rightarrow> (Tracer option, unit) outcome" where
  "set_global_tracer t cell =
     (case cell of
        None \<Rightarrow> (Some t, Inr ())
      | Some t0 \<Rightarrow> (cell, Inl (Panic ''global tracer has set'')))"

definition global_tracer :: "Tracer option \<Rightarrow> Tracer res" where
  "global_tracer cell =
     (case cell of Some t \<Rightarrow> Inr t | None \<Rightarrow> Inl (Panic ''global tracer haven't set''))"

definition global_create_trace_context :: "u128 \<Rightarrow> u128 \<Rightarrow> Tracer option \<Rightarrow> TracingContext res" where
  "global_create_trace_context uuid1 uuid2 cell =
     map_sum id (create_trace_context uuid1 uuid2) (global_tracer cell)"

section \<open>Lemmas\<close>

text \<open>A context that has created \<open>k\<close> spans: the next span id and the next uid are \<open>k\<close>.\<close>

definition ctx_at :: "nat \<Rightarrow> TracingContext \<Rightarrow> bool" where
  "ctx_at k tc \<longleftrightarrow> tc_next_span_id tc = of_nat k \<and> tc_span_uid_generator tc = of_nat k"

lemma ctx_at_new: "ctx_at 0 (TracingContext_new u1 u2 srv inst)"
  by (simp add: ctx_at_def TracingContext_new_def)

lemma parent_or_root_Nil [simp]: "active st = [] \<Longrightarrow> parent_or_root st = -1"
  by (simp add: parent_or_root_def peek_active_span_id_def active_span_def)

lemma parent_or_root_snoc [simp]: "active st = as @ [a] \<Longrightarrow> parent_or_root st = as_span_id a"
  by (simp add: parent_or_root_def peek_active_span_id_def active_span_def)

text \<open>The effect of creating the span number \<open>k\<close>, for as long as an \<open>i32\<close> can number it.\<close>

definition ctx_after :: "nat \<Rightarrow> string \<Rightarrow> TracingContext \<Rightarrow> TracingContext" where
  "ctx_after k opname tc =
     tc\<lparr>tc_next_span_id := of_nat (Suc k), tc_span_uid_generator := of_nat (Suc k),
        tc_primary_endpoint_name := opname\<rparr>"

definition stack_after :: "nat \<Rightarrow> SpanStack \<Rightarrow> SpanStack" where
  "stack_after k st = st\<lparr>active := active st @ [ActiveSpan_new (of_nat k) (of_nat k)]\<rparr>"

lemma create_span_at [ctx_simps]:
  assumes "ctx_at k tc" and "Suc k < 2 ^ 31"
  shows "create_span cfg now parent opname pr stype layer (tc, st) =
    ((ctx_after k opname tc, stack_after k st),
     Inr (Span_new (of_nat k) (Span_new_obj cfg now (of_nat k) parent opname pr stype layer False)))"
proof -
  have "add_i32 cfg (of_nat k) 1 = Inr (of_nat (Suc k))" using assms(2) by (rule add_i32_of_nat)
  then have "inc_next_span_id cfg tc = (tc\<lparr>tc_next_span_id := of_nat (Suc k)\<rparr>, Inr (of_nat k))"
    using assms(1) by (simp add: inc_next_span_id_def ctx_at_def)
  then show ?thesis
    using assms(1)
    by (simp add: create_span_def push_active_span_def generate_span_uid_def ctx_at_def
        ctx_after_def stack_after_def add.commute)
qed

lemma ctx_at_after [simp]: "ctx_at (Suc k) (ctx_after k opname tc)"
  by (simp add: ctx_at_def ctx_after_def)

lemma ctx_after_fields [simp]:
  "tc_trace_id (ctx_after k n tc) = tc_trace_id tc"
  "tc_trace_segment_id (ctx_after k n tc) = tc_trace_segment_id tc"
  "tc_service (ctx_after k n tc) = tc_service tc"
  "tc_service_instance (ctx_after k n tc) = tc_service_instance tc"
  "tc_primary_endpoint_name (ctx_after k n tc) = n"
  by (simp_all add: ctx_after_def)

lemma stack_after_fields [simp]:
  "active (stack_after k st) = active st @ [ActiveSpan_new (of_nat k) (of_nat k)]"
  "finalized (stack_after k st) = finalized st"
  by (simp_all add: stack_after_def)

lemma create_entry_span_at [ctx_simps]:
  assumes "ctx_at k tc" and "Suc k < 2 ^ 31"
  shows "create_entry_span cfg now opname (tc, st) =
    ((ctx_after k opname tc, stack_after k st),
     Inr (Span_new (of_nat k)
       (Span_new_obj cfg now (of_nat k) (parent_or_root st) opname [] Entry Http False)))"
  using create_span_at [OF assms] by (simp add: create_entry_span_def)

lemma create_entry_span_with_propagation_at [ctx_simps]:
  assumes "ctx_at k tc" and "Suc k < 2 ^ 31"
  shows "create_entry_span_with_propagation cfg now opname prop (tc, st) =
    (((ctx_after k opname tc)\<lparr>tc_trace_id := pc_parent_trace_id prop\<rparr>, stack_after k st),
     Inr (Span_new (of_nat k)
       ((Span_new_obj cfg now (of_nat k) (parent_or_root st) opname [] Entry Http False)
          \<lparr>refs := [propagation_ref (pc_parent_trace_id prop) prop]\<rparr>)))"
  using create_entry_span_at [OF assms]
  by (simp add: create_entry_span_with_propagation_def span_object_mut_def Span_new_def Let_def)

text \<open>An exit or local span needs an earlier span; after \<open>2 ^ 32\<close> increments of a wrapping
  counter the test would be fooled, within the numbered range it is exact.\<close>

lemma of_nat_i32_eq_0: "k < 2 ^ 31 \<Longrightarrow> (of_nat k :: i32) = 0 \<longleftrightarrow> k = 0"
  using sint_of_nat_i32 [of k] by fastforce

lemma create_common_span_at [ctx_simps]:
  assumes "ctx_at k tc" and "Suc k < 2 ^ 31"
  shows "create_common_span cfg now opname pr stype parent (tc, st) =
    (if k = 0 then ((tc, st), Inl no_entry_panic)
     else ((ctx_after k opname tc, stack_after k st),
       Inr (Span_new (of_nat k) (Span_new_obj cfg now (of_nat k) parent opname pr stype Unknown False))))"
  using assms create_span_at [OF assms] of_nat_i32_eq_0 [of k]
  by (simp add: create_common_span_def ctx_at_def)

lemma continued_stack:
  "snd (fst (continued tracer snap (tc, st))) = st \<or>
   (\<exists>as a r. active st = as @ [a] \<and>
      snd (fst (continued tracer snap (tc, st))) = st\<lparr>active := as @ [a\<lparr>as_ref := Some r\<rparr>]\<rparr>)"
  by (cases "active st" rule: rev_cases)
    (auto simp: continued_def active_span_mut_def upgrade_tracer_def Let_def split: option.splits)

lemma continued_ctx_at: "ctx_at k tc \<Longrightarrow> ctx_at k (fst (fst (continued tracer snap (tc, st))))"
  by (simp add: continued_def Let_def ctx_at_def split: sum.splits)

lemma those_map_None: "those (map f xs) = None \<longleftrightarrow> (\<exists>x\<in>set xs. f x = None)"
  by (induction xs) (auto split: option.splits)

lemma those_map_Some: "those (map f xs) = Some ys \<longleftrightarrow> map f xs = map Some ys"
  by (induction xs arbitrary: ys) (auto split: option.splits simp: Cons_eq_map_conv)

end
