(* ===== verification/Trace_Machine.thy ===== *)
theory Trace_Machine
  imports Tracing_Context
begin

text \<open>
  One tracing context with everything that can act on it: the tracer handles, the context, the
  span and async-span guards the application holds, the reporter.  \<open>trace_exec\<close> runs one call of
  the public API (or one destructor), with the locks of the stack free; any sequence of them, from
  any threads, is a run (\<open>Trace_Locks\<close> refines the call to one with locks).  The
  invariant of the runs is what the correctness of the reported segment rests on.
\<close>

section \<open>The machine\<close>

text \<open>\<open>Waiting\<close>: the context has been moved into \<open>TracingContext::wait\<close>.\<close>

datatype ctx_slot = Live TracingContext | Waiting TracingContext | Gone

record 'r TraceWorld =
  w_tracer :: Tracer
  w_tracer_strong :: nat
  w_ctx :: ctx_slot
  w_shared :: Shared
  w_spans :: "Span list"
  w_asyncs :: "AsyncSpan list"
  w_reporter :: 'r

datatype trace_op =
    OpEntry string
  | OpEntryProp string PropagationContext
  | OpExit string string
  | OpLocal string
  | OpContinued ContextSnapshot
  | OpSpanTag nat string string
  | OpSpanLog nat "(string \<times> string) list"
  | OpSpanDrop nat
  | OpPrepare nat
  | OpAsyncTag nat string string
  | OpAsyncLog nat "(string \<times> string) list"
  | OpAsyncDrop nat
  | OpWait
  | OpWaitDone
  | OpCtxDrop
  | OpTracerClone
  | OpTracerDrop

text \<open>\<open>Weak::upgrade\<close> succeeds while a strong pointer is left: for the tracer a \<open>Tracer\<close> handle,
  for the stack the context or a \<open>Span\<close>.\<close>

definition weak_tracer :: "'r TraceWorld \<Rightarrow> Tracer option" where
  "weak_tracer w = (if 0 < w_tracer_strong w then Some (w_tracer w) else None)"

definition stack_alive :: "'r TraceWorld \<Rightarrow> bool" where
  "stack_alive w \<longleftrightarrow> w_ctx w \<noteq> Gone \<or> w_spans w \<noteq> []"

definition exec_create ::
  "(TracingContext \<times> SpanStack \<Rightarrow> (TracingContext \<times> SpanStack, Span) outcome) \<Rightarrow>
   'r TraceWorld \<Rightarrow> ('r TraceWorld, unit) outcome option" where
  "exec_create f w =
     (case w_ctx w of
        Live tc \<Rightarrow>
          (case f (tc, sh_stack (w_shared w)) of
             ((tc', st'), r) \<Rightarrow>
               let w' = w\<lparr>w_ctx := Live tc', w_shared := (w_shared w)\<lparr>sh_stack := st'\<rparr>\<rparr>
               in Some (case r of
                    Inl p \<Rightarrow> (w', Inl p)
                  | Inr sp \<Rightarrow> (w'\<lparr>w_spans := w_spans w @ [sp]\<rparr>, Inr ())))
      | _ \<Rightarrow> None)"

definition exec_on_span ::
  "nat \<Rightarrow> (SpanObject option \<Rightarrow> (SpanObject option, unit) outcome) \<Rightarrow>
   'r TraceWorld \<Rightarrow> ('r TraceWorld, unit) outcome option" where
  "exec_on_span i f w =
     (if i < length (w_spans w) then
        (case f (sp_obj (w_spans w ! i)) of
           (ob, r) \<Rightarrow> Some (w\<lparr>w_spans := (w_spans w)[i := (w_spans w ! i)\<lparr>sp_obj := ob\<rparr>]\<rparr>, r))
      else None)"

definition exec_on_async ::
  "nat \<Rightarrow> (SpanObject option \<Rightarrow> (SpanObject option, unit) outcome) \<Rightarrow>
   'r TraceWorld \<Rightarrow> ('r TraceWorld, unit) outcome option" where
  "exec_on_async i f w =
     (if i < length (w_asyncs w) then
        (case f (asy_obj (w_asyncs w ! i)) of
           (ob, r) \<Rightarrow> Some (w\<lparr>w_asyncs := (w_asyncs w)[i := (w_asyncs w ! i)\<lparr>asy_obj := ob\<rparr>]\<rparr>, r))
      else None)"

definition exec_span_drop ::
  "build \<Rightarrow> SystemTime \<Rightarrow> nat \<Rightarrow> 'r TraceWorld \<Rightarrow> ('r TraceWorld, unit) outcome option" where
  "exec_span_drop cfg now i w =
     (if i < length (w_spans w) then
        (case Span_drop cfg now (w_spans w ! i) (w_shared w) of
           (sh', r) \<Rightarrow> Some (w\<lparr>w_shared := sh', w_spans := remove_nth i (w_spans w)\<rparr>, r))
      else None)"

definition exec_prepare ::
  "build \<Rightarrow> SystemTime \<Rightarrow> nat \<Rightarrow> 'r TraceWorld \<Rightarrow> ('r TraceWorld, unit) outcome option" where
  "exec_prepare cfg now i w =
     (if i < length (w_spans w) then
        (case prepare_for_async cfg now (w_spans w ! i) (w_shared w) of
           (sh', r) \<Rightarrow>
             let w' = w\<lparr>w_shared := sh', w_spans := remove_nth i (w_spans w)\<rparr>
             in Some (case r of
                  Inl p \<Rightarrow> (w', Inl p)
                | Inr asy \<Rightarrow> (w'\<lparr>w_asyncs := w_asyncs w @ [asy]\<rparr>, Inr ())))
      else None)"

definition exec_async_drop ::
  "build \<Rightarrow> SystemTime \<Rightarrow> nat \<Rightarrow> 'r TraceWorld \<Rightarrow> ('r TraceWorld, unit) outcome option" where
  "exec_async_drop cfg now i w =
     (if i < length (w_asyncs w) then
        (case AsyncSpan_drop cfg now (stack_alive w) (w_asyncs w ! i) (w_shared w) of
           (sh', r) \<Rightarrow> Some (w\<lparr>w_shared := sh', w_asyncs := remove_nth i (w_asyncs w)\<rparr>, r))
      else None)"

definition exec_ctx_drop ::
  "'r report_fn \<Rightarrow> TracingContext \<Rightarrow> 'r TraceWorld \<Rightarrow> ('r TraceWorld, unit) outcome" where
  "exec_ctx_drop report tc w =
     (case TracingContext_drop report (weak_tracer w) tc (sh_stack (w_shared w), w_reporter w) of
        ((st', r'), x) \<Rightarrow>
          (w\<lparr>w_ctx := Gone, w_shared := (w_shared w)\<lparr>sh_stack := st'\<rparr>, w_reporter := r'\<rparr>, x))"

text \<open>\<open>None\<close>: the call cannot be made (no such guard, the context was moved) or blocks.\<close>

fun trace_exec ::
  "'r report_fn \<Rightarrow> build \<Rightarrow> SystemTime \<Rightarrow> trace_op \<Rightarrow> 'r TraceWorld \<Rightarrow> ('r TraceWorld, unit) outcome option" where
  "trace_exec report cfg now (OpEntry n) w = exec_create (create_entry_span cfg now n) w"
| "trace_exec report cfg now (OpEntryProp n p) w =
     exec_create (create_entry_span_with_propagation cfg now n p) w"
| "trace_exec report cfg now (OpExit n r) w = exec_create (create_exit_span cfg now n r) w"
| "trace_exec report cfg now (OpLocal n) w = exec_create (create_local_span cfg now n) w"
| "trace_exec report cfg now (OpContinued snap) w =
     (case w_ctx w of
        Live tc \<Rightarrow>
          (case continued (weak_tracer w) snap (tc, sh_stack (w_shared w)) of
             ((tc', st'), r) \<Rightarrow>
               Some (w\<lparr>w_ctx := Live tc', w_shared := (w_shared w)\<lparr>sh_stack := st'\<rparr>\<rparr>, r))
      | _ \<Rightarrow> None)"
| "trace_exec report cfg now (OpSpanTag i k v) w = exec_on_span i (handle_add_tag k v) w"
| "trace_exec report cfg now (OpSpanLog i m) w = exec_on_span i (handle_add_log cfg now m) w"
| "trace_exec report cfg now (OpSpanDrop i) w = exec_span_drop cfg now i w"
| "trace_exec report cfg now (OpPrepare i) w = exec_prepare cfg now i w"
| "trace_exec report cfg now (OpAsyncTag i k v) w = exec_on_async i (handle_add_tag k v) w"
| "trace_exec report cfg now (OpAsyncLog i m) w = exec_on_async i (handle_add_log cfg now m) w"
| "trace_exec report cfg now (OpAsyncDrop i) w = exec_async_drop cfg now i w"
| "trace_exec report cfg now OpWait w =
     (case w_ctx w of Live tc \<Rightarrow> Some (w\<lparr>w_ctx := Waiting tc\<rparr>, Inr ()) | _ \<Rightarrow> None)"
| "trace_exec report cfg now OpWaitDone w =
     (case w_ctx w of
        Waiting tc \<Rightarrow>
          (case WaitGroup_wait_check (sh_wg (w_shared w)) of
             Inl p \<Rightarrow> Some (unwind p (exec_ctx_drop report tc w))
           | Inr leave \<Rightarrow> if leave then Some (exec_ctx_drop report tc w) else None)
      | _ \<Rightarrow> None)"
| "trace_exec report cfg now OpCtxDrop w =
     (case w_ctx w of Live tc \<Rightarrow> Some (exec_ctx_drop report tc w) | _ \<Rightarrow> None)"
| "trace_exec report cfg now OpTracerClone w =
     (if 0 < w_tracer_strong w then Some (w\<lparr>w_tracer_strong := Suc (w_tracer_strong w)\<rparr>, Inr ()) else None)"
| "trace_exec report cfg now OpTracerDrop w =
     (if 0 < w_tracer_strong w then Some (w\<lparr>w_tracer_strong := w_tracer_strong w - 1\<rparr>, Inr ()) else None)"

text \<open>A fresh context of a tracer with one handle.\<close>

definition trace_init :: "Tracer \<Rightarrow> u128 \<Rightarrow> u128 \<Rightarrow> 'r \<Rightarrow> 'r TraceWorld" where
  "trace_init t u1 u2 r =
     \<lparr>w_tracer = t, w_tracer_strong = 1, w_ctx = Live (create_trace_context u1 u2 t),
      w_shared = \<lparr>sh_stack = SpanStack_default, sh_wg = WaitGroup_default\<rparr>,
      w_spans = [], w_asyncs = [], w_reporter = r\<rparr>"

fun creates :: "trace_op \<Rightarrow> nat" where
  "creates (OpEntry n) = 1"
| "creates (OpEntryProp n p) = 1"
| "creates (OpExit n r) = 1"
| "creates (OpLocal n) = 1"
| "creates _ = 0"

text \<open>The states a panic-free run can reach, with the number of spans it created.\<close>

inductive trace_reach :: "'r report_fn \<Rightarrow> build \<Rightarrow> nat \<Rightarrow> 'r TraceWorld \<Rightarrow> bool"
  for report cfg where
  trace_reach_init: "trace_reach report cfg 0 (trace_init t u1 u2 r)"
| trace_reach_step: "trace_reach report cfg k w \<Longrightarrow>
     trace_exec report cfg now oper w = Some (w', Inr ()) \<Longrightarrow>
     trace_reach report cfg (k + creates oper) w'"

section \<open>The invariant\<close>

text \<open>The span numbered \<open>i\<close> has uid \<open>i\<close> and span id \<open>i\<close>; its parent is none or an earlier span.\<close>

definition obj_ok :: "SpanUid \<Rightarrow> SpanObject \<Rightarrow> bool" where
  "obj_ok u ob \<longleftrightarrow> span_id ob = of_nat (unat u) \<and>
     (parent_span_id ob = -1 \<or> (\<exists>j < unat u. parent_span_id ob = of_nat j))"

definition act_ok :: "nat \<Rightarrow> ActiveSpan \<Rightarrow> bool" where
  "act_ok k a \<longleftrightarrow> unat (as_uid a) < k \<and> as_span_id a = of_nat (unat (as_uid a))"

definition fin_ok :: "nat \<Rightarrow> FinalizeSpan \<Rightarrow> bool" where
  "fin_ok k f \<longleftrightarrow> unat (fs_uid f) < k \<and> (case fs_obj f of Some ob \<Rightarrow> obj_ok (fs_uid f) ob | None \<Rightarrow> True)"

definition guard_ok :: "SpanUid \<Rightarrow> SpanObject option \<Rightarrow> bool" where
  "guard_ok u o' \<longleftrightarrow> (case o' of Some ob \<Rightarrow> obj_ok u ob | None \<Rightarrow> False)"

definition unfinished :: "SpanStack \<Rightarrow> FinalizeSpan list" where
  "unfinished st = filter (\<lambda>f. fs_obj f = None) (finalized st)"

text \<open>The span guards are exactly the active entries, the async guards exactly the unfinished
  finalized entries, and no uid occurs twice.\<close>

definition stack_inv :: "nat \<Rightarrow> SpanStack \<Rightarrow> Span list \<Rightarrow> AsyncSpan list \<Rightarrow> bool" where
  "stack_inv k st sps asys \<longleftrightarrow>
     distinct (map as_uid (active st) @ map fs_uid (finalized st)) \<and>
     list_all (act_ok k) (active st) \<and> list_all (fin_ok k) (finalized st) \<and>
     list_all (\<lambda>s. guard_ok (sp_uid s) (sp_obj s)) sps \<and>
     list_all (\<lambda>s. guard_ok (asy_uid s) (asy_obj s)) asys \<and>
     mset (map sp_uid sps) = mset (map as_uid (active st)) \<and>
     mset (map asy_uid asys) = mset (map fs_uid (unfinished st))"

definition uids_of :: "SpanStack \<Rightarrow> SpanUid set" where
  "uids_of st = set (map as_uid (active st)) \<union> set (map fs_uid (finalized st))"

definition ctx_inv :: "nat \<Rightarrow> SpanStack \<Rightarrow> ctx_slot \<Rightarrow> bool" where
  "ctx_inv k st slot \<longleftrightarrow>
     (case slot of Gone \<Rightarrow> True
      | Live tc \<Rightarrow> ctx_at k tc \<and> unat ` uids_of st = {0..<k}
      | Waiting tc \<Rightarrow> ctx_at k tc \<and> unat ` uids_of st = {0..<k})"

definition trace_inv :: "nat \<Rightarrow> 'r TraceWorld \<Rightarrow> bool" where
  "trace_inv k w \<longleftrightarrow>
     stack_inv k (sh_stack (w_shared w)) (w_spans w) (w_asyncs w) \<and>
     wg_at (length (w_asyncs w)) (sh_wg (w_shared w)) \<and>
     ctx_inv k (sh_stack (w_shared w)) (w_ctx w)"

end
