(* ===== verification/Trace_Invariant.thy ===== *)
theory Trace_Invariant
  imports Trace_Machine
begin

text \<open>
  Every operation of the machine keeps the invariant: first the effect of each kind of step on
  \<open>stack_inv\<close>, then one lemma per operation, then all reachable states.
\<close>

section \<open>Steps of the stack\<close>

lemma unat_uid: "k < 2 ^ 31 \<Longrightarrow> unat (of_nat k :: usize) = k"
  by (rule unat_of_nat_usize) simp

lemma act_ok_mono: "act_ok k a \<Longrightarrow> k \<le> l \<Longrightarrow> act_ok l a"
  by (simp add: act_ok_def)

lemma fin_ok_mono: "fin_ok k f \<Longrightarrow> k \<le> l \<Longrightarrow> fin_ok l f"
  by (simp add: fin_ok_def)

lemma stack_inv_uid_less: "stack_inv k st sps asys \<Longrightarrow> u \<in> uids_of st \<Longrightarrow> unat u < k"
  by (auto simp: stack_inv_def uids_of_def list_all_iff act_ok_def fin_ok_def)

lemma stack_inv_empty: "stack_inv 0 SpanStack_default [] []"
  by (simp add: stack_inv_def SpanStack_default_def unfinished_def)

lemma new_obj_ok:
  assumes "stack_inv k st sps asys" and "k < 2 ^ 31"
  shows "obj_ok (of_nat k) (Span_new_obj cfg now (of_nat k) (parent_or_root st) n r t l b)"
proof (cases "active st" rule: rev_cases)
  case Nil
  then show ?thesis using assms(2) by (simp add: obj_ok_def unat_uid)
next
  case (snoc as a)
  with assms(1) have "act_ok k a" by (simp add: stack_inv_def)
  with snoc assms(2) show ?thesis by (auto simp: obj_ok_def act_ok_def unat_uid)
qed

lemma obj_ok_refs [simp]: "obj_ok u (ob\<lparr>refs := rs\<rparr>) = obj_ok u ob"
  by (simp add: obj_ok_def)

lemma obj_ok_close [simp]: "obj_ok u (close_obj e r ob) = obj_ok u ob"
  by (simp add: obj_ok_def)

lemma obj_ok_handles [simp]:
  "obj_ok u (SpanObject_add_tag k v ob) = obj_ok u ob"
  "obj_ok u (SpanObject_add_log t m ob) = obj_ok u ob"
  by (simp_all add: obj_ok_def SpanObject_add_tag_def SpanObject_add_log_def)

lemma stack_inv_push:
  assumes inv: "stack_inv k st sps asys" and k: "k < 2 ^ 31" and ob: "obj_ok (of_nat k) ob"
  shows "stack_inv (Suc k) (stack_after k st) (sps @ [Span_new (of_nat k) ob]) asys"
proof -
  have "of_nat k \<notin> uids_of st"
    using stack_inv_uid_less [OF inv, of "of_nat k"] k by (auto simp: unat_uid)
  moreover have "act_ok (Suc k) (ActiveSpan_new (of_nat k) (of_nat k))"
    using k by (simp add: act_ok_def ActiveSpan_new_def unat_uid)
  moreover have "list_all (act_ok (Suc k)) (active st)" "list_all (fin_ok (Suc k)) (finalized st)"
    using inv by (auto simp: stack_inv_def list_all_iff intro: act_ok_mono fin_ok_mono)
  ultimately show ?thesis
    using inv ob
    by (auto simp: stack_inv_def uids_of_def guard_ok_def Span_new_def ActiveSpan_new_def
        unfinished_def)
qed

lemma uids_of_push:
  assumes "k < 2 ^ 31" and "unat ` uids_of st = {0..<k}"
  shows "unat ` uids_of (stack_after k st) = {0..<Suc k}"
proof -
  have "uids_of (stack_after k st) = insert (of_nat k) (uids_of st)"
    by (auto simp: uids_of_def ActiveSpan_new_def)
  with assms show ?thesis by (auto simp: unat_uid)
qed

text \<open>The innermost span is the one a guard names when the machine does not panic.\<close>

lemma guard_on_top:
  assumes "stack_inv k st sps asys" and "i < length sps" and "is_active_span st (sps ! i)"
  obtains as a ob where "active st = as @ [a]" and "as_uid a = sp_uid (sps ! i)"
    and "sp_obj (sps ! i) = Some ob" and "obj_ok (sp_uid (sps ! i)) ob"
proof -
  have "guard_ok (sp_uid (sps ! i)) (sp_obj (sps ! i))"
    using assms(1,2) by (simp add: stack_inv_def list_all_length)
  then obtain ob where "sp_obj (sps ! i) = Some ob" "obj_ok (sp_uid (sps ! i)) ob"
    by (auto simp: guard_ok_def split: option.splits)
  moreover obtain as a where "active st = as @ [a]" "as_uid a = sp_uid (sps ! i)"
    using assms(3) by (auto simp: is_active_span_iff last_opt_eq_Some)
  ultimately show ?thesis using that by blast
qed

lemma mset_map_remove_nth:
  "i < length xs \<Longrightarrow> mset (map f xs) = add_mset (f (xs ! i)) (mset (map f (remove_nth i xs)))"
  using mset_remove_nth [of i "map f xs"] by (simp add: map_remove_nth)

lemma list_all_remove_nth: "list_all P xs \<Longrightarrow> list_all P (remove_nth i xs)"
  using set_remove_nth_subset [of i xs] by (auto simp: list_all_iff)

text \<open>Closing the innermost span: with its object (drop) or without (prepare for async).\<close>

lemma stack_inv_pop:
  assumes inv: "stack_inv k st sps asys" and i: "i < length sps"
    and top: "active st = as @ [a]" "as_uid a = sp_uid (sps ! i)"
    and f: "fs_uid f = as_uid a" "fin_ok k f"
    and asys': "list_all (\<lambda>s. guard_ok (asy_uid s) (asy_obj s)) asys'"
      "mset (map asy_uid asys') = mset (map asy_uid asys) + (if fs_obj f = None then {#as_uid a#} else {#})"
  shows "stack_inv k (st\<lparr>active := as, finalized := finalized st @ [f]\<rparr>) (remove_nth i sps) asys'"
proof -
  have "mset (map sp_uid (remove_nth i sps)) = mset (map as_uid as)"
    using inv top mset_map_remove_nth [OF i, of sp_uid] by (simp add: stack_inv_def)
  then show ?thesis
    using inv top f asys'
    by (auto simp: stack_inv_def unfinished_def list_all_remove_nth)
qed

lemma uids_of_pop:
  assumes "active st = as @ [a]" and "fs_uid f = as_uid a"
  shows "uids_of (st\<lparr>active := as, finalized := finalized st @ [f]\<rparr>) = uids_of st"
  using assms by (auto simp: uids_of_def)

lemma fin_ok_close:
  assumes "stack_inv k st sps asys" and "active st = as @ [a]" and "obj_ok (as_uid a) ob"
  shows "fin_ok k (FinalizeSpan_new (as_uid a) (Some (close_obj e r ob)) x)"
    and "fin_ok k (FinalizeSpan_new (as_uid a) None x)"
  using assms by (auto simp: stack_inv_def fin_ok_def act_ok_def FinalizeSpan_new_def)

text \<open>Finishing an async span fills the entry that waits for it, and no other.\<close>

lemma fill_async_inv:
  assumes inv: "stack_inv k st sps asys" and i: "i < length asys"
    and ob: "asy_obj (asys ! i) = Some ob"
  obtains fin where "fill_async e (asy_uid (asys ! i)) ob (finalized st) = Some fin"
    and "stack_inv k (st\<lparr>finalized := fin\<rparr>) sps (remove_nth i asys)"
    and "map fs_uid fin = map fs_uid (finalized st)"
proof -
  let ?u = "asy_uid (asys ! i)"
  have "?u \<in># mset (map fs_uid (unfinished st))"
    using inv i by (metis (no_types, lifting) length_map nth_map nth_mem_mset stack_inv_def)
  then have hit: "?u \<in> fs_uid ` set (unfinished st)" by auto
  then have "fill_async e ?u ob (finalized st) \<noteq> None"
    by (auto simp: fill_async_None unfinished_def)
  then obtain fin where fin: "fill_async e ?u ob (finalized st) = Some fin" by auto
  then obtain pre f post where s: "finalized st = pre @ f # post" "fs_uid f = ?u"
      "?u \<notin> fs_uid ` set pre"
      "fin = pre @ f\<lparr>fs_obj := Some (close_obj e (fs_ref f) ob), fs_ref := None\<rparr> # post"
    using fill_async_split by metis
  have uids: "map fs_uid fin = map fs_uid (finalized st)" using s by simp
  have "?u \<notin> fs_uid ` set post" using inv s by (auto simp: stack_inv_def)
  then have fNone: "fs_obj f = None" using hit s by (auto simp: unfinished_def)
  have "obj_ok ?u ob" using inv i ob by (auto simp: stack_inv_def list_all_length guard_ok_def)
  then have "list_all (fin_ok k) fin" using inv s by (auto simp: stack_inv_def fin_ok_def)
  moreover have "mset (map asy_uid (remove_nth i asys)) =
      mset (map fs_uid (filter (\<lambda>f. fs_obj f = None) fin))"
    using inv s fNone mset_map_remove_nth [OF i, of asy_uid] by (simp add: stack_inv_def unfinished_def)
  ultimately have "stack_inv k (st\<lparr>finalized := fin\<rparr>) sps (remove_nth i asys)"
    using inv uids by (simp add: stack_inv_def unfinished_def list_all_remove_nth)
  with fin uids that show ?thesis by blast
qed

text \<open>There are at most \<open>k\<close> unfinished async spans.\<close>

lemma asyncs_le:
  assumes "stack_inv k st sps asys"
  shows "length asys \<le> k"
proof -
  have "length asys = length (unfinished st)"
    using assms by (metis length_map size_mset stack_inv_def)
  also have "\<dots> \<le> length (map fs_uid (finalized st))"
    unfolding unfinished_def length_map by (rule length_filter_le)
  also have "\<dots> = card (unat ` set (map fs_uid (finalized st)))"
  proof -
    have "inj_on unat (set (map fs_uid (finalized st)))"
      by (rule inj_onI) (simp add: word_unat_eq_iff)
    moreover have "distinct (map fs_uid (finalized st))" using assms by (simp add: stack_inv_def)
    ultimately show ?thesis using distinct_card card_image by metis
  qed
  also have "\<dots> \<le> card {0..<k}"
    using stack_inv_uid_less [OF assms] by (intro card_mono) (auto simp: uids_of_def)
  finally show ?thesis by simp
qed

text \<open>Writing a reference into the innermost entry changes nothing the invariant sees.\<close>

lemma stack_inv_ref:
  assumes "stack_inv k st sps asys" and "active st = as @ [a]"
  shows "stack_inv k (st\<lparr>active := as @ [a\<lparr>as_ref := r\<rparr>]\<rparr>) sps asys"
    and "uids_of (st\<lparr>active := as @ [a\<lparr>as_ref := r\<rparr>]\<rparr>) = uids_of st"
  using assms by (auto simp: stack_inv_def act_ok_def unfinished_def uids_of_def)

section \<open>Operations of the machine\<close>

text \<open>The four constructors push one well-formed guard; nothing else changes but the context.\<close>

definition span_ctor ::
  "nat \<Rightarrow> (TracingContext \<times> SpanStack \<Rightarrow> (TracingContext \<times> SpanStack, Span) outcome) \<Rightarrow> bool" where
  "span_ctor k f \<longleftrightarrow> (\<forall>tc st sps asys. ctx_at k tc \<longrightarrow> stack_inv k st sps asys \<longrightarrow>
     (\<exists>p. f (tc, st) = ((tc, st), Inl p)) \<or>
     (\<exists>tc' ob. f (tc, st) = ((tc', stack_after k st), Inr (Span_new (of_nat k) ob)) \<and>
        ctx_at (Suc k) tc' \<and> obj_ok (of_nat k) ob))"

lemma ctx_at_trace_id [simp]: "ctx_at k (tc\<lparr>tc_trace_id := x\<rparr>) = ctx_at k tc"
  by (simp add: ctx_at_def)

lemma Span_new_inject [simp]: "Span_new u a = Span_new v b \<longleftrightarrow> u = v \<and> a = b"
  by (simp add: Span_new_def)

lemma span_ctors:
  assumes "Suc k < 2 ^ 31"
  shows "span_ctor k (create_entry_span cfg now n)"
    and "span_ctor k (create_entry_span_with_propagation cfg now n prop)"
    and "span_ctor k (create_exit_span cfg now n pr)"
    and "span_ctor k (create_local_span cfg now n)"
  using assms
  by (auto simp: span_ctor_def create_entry_span_at create_entry_span_with_propagation_at
      create_exit_span_def create_local_span_def create_common_span_at intro!: new_obj_ok)

lemma exec_create_inv:
  assumes inv: "trace_inv k w" and k: "Suc k < 2 ^ 31" and f: "span_ctor k f"
    and ex: "exec_create f w = Some (w', Inr ())"
  shows "trace_inv (Suc k) w'"
proof -
  let ?st = "sh_stack (w_shared w)"
  obtain tc where tc: "w_ctx w = Live tc" using ex by (auto simp: exec_create_def split: ctx_slot.splits)
  have st: "stack_inv k ?st (w_spans w) (w_asyncs w)" and at: "ctx_at k tc"
    and uids: "unat ` uids_of ?st = {0..<k}" and wg: "wg_at (length (w_asyncs w)) (sh_wg (w_shared w))"
    using inv tc by (auto simp: trace_inv_def ctx_inv_def)
  have "\<not> (\<exists>p. f (tc, ?st) = ((tc, ?st), Inl p))" using ex tc by (auto simp: exec_create_def)
  with f at st obtain tc' ob where
    r: "f (tc, ?st) = ((tc', stack_after k ?st), Inr (Span_new (of_nat k) ob))"
      "ctx_at (Suc k) tc'" "obj_ok (of_nat k) ob" unfolding span_ctor_def by meson
  then have w': "w' = w\<lparr>w_ctx := Live tc', w_shared := (w_shared w)\<lparr>sh_stack := stack_after k ?st\<rparr>,
      w_spans := w_spans w @ [Span_new (of_nat k) ob]\<rparr>"
    using ex tc by (simp add: exec_create_def Let_def)
  show ?thesis
    using stack_inv_push [OF st _ r(3)] uids_of_push [OF _ uids] r(2) wg k
    by (simp add: trace_inv_def ctx_inv_def w')
qed

text \<open>Dropping a guard without a panic.\<close>

lemma exec_span_drop_inv:
  assumes inv: "trace_inv k w" and ex: "exec_span_drop cfg now i w = Some (w', Inr ())"
  shows "trace_inv k w'"
proof -
  let ?st = "sh_stack (w_shared w)"
  have i: "i < length (w_spans w)" using ex by (auto simp: exec_span_drop_def split: if_splits)
  have st: "stack_inv k ?st (w_spans w) (w_asyncs w)" using inv by (simp add: trace_inv_def)
  have "is_ok (snd (Span_drop cfg now (w_spans w ! i) (w_shared w)))"
    using ex i by (auto simp: exec_span_drop_def split: prod.splits)
  then have "is_active_span ?st (w_spans w ! i)" by (simp add: Span_drop_ok_iff)
  from guard_on_top [OF st i this] obtain as a ob where
    t: "active ?st = as @ [a]" "as_uid a = sp_uid (w_spans w ! i)"
      "sp_obj (w_spans w ! i) = Some ob" "obj_ok (as_uid a) ob" by metis
  let ?f = "FinalizeSpan_new (as_uid a) (Some (close_obj (fetch_time cfg now End) (as_ref a) ob)) None"
  let ?st' = "?st\<lparr>active := as, finalized := finalized ?st @ [?f]\<rparr>"
  have w': "w' = w\<lparr>w_shared := (w_shared w)\<lparr>sh_stack := ?st'\<rparr>, w_spans := remove_nth i (w_spans w)\<rparr>"
    using ex i t by (simp add: exec_span_drop_def Span_drop_top)
  have "stack_inv k ?st' (remove_nth i (w_spans w)) (w_asyncs w)"
    using st i t fin_ok_close [OF st t(1) t(4)]
    by (intro stack_inv_pop [OF st i t(1,2)]) (auto simp: FinalizeSpan_new_def stack_inv_def)
  then show ?thesis
    using inv uids_of_pop [OF t(1), of ?f]
    by (simp add: trace_inv_def ctx_inv_def w' FinalizeSpan_new_def split: ctx_slot.splits)
qed

lemma exec_prepare_inv:
  assumes inv: "trace_inv k w" and k: "k < 2 ^ 31"
    and ex: "exec_prepare cfg now i w = Some (w', Inr ())"
  shows "trace_inv k w'"
proof -
  let ?st = "sh_stack (w_shared w)"
  have i: "i < length (w_spans w)" using ex by (auto simp: exec_prepare_def split: if_splits)
  have st: "stack_inv k ?st (w_spans w) (w_asyncs w)"
    and wg: "wg_at (length (w_asyncs w)) (sh_wg (w_shared w))" using inv by (simp_all add: trace_inv_def)
  obtain wg' where wg': "WaitGroup_add cfg 1 (sh_wg (w_shared w)) = (wg', Inr ())"
      "wg_at (Suc (length (w_asyncs w))) wg'"
    using WaitGroup_add_at [OF wg, of cfg] asyncs_le [OF st] k by auto
  have "is_active_span ?st (w_spans w ! i)"
    using ex i by (auto simp: exec_prepare_def prepare_for_async_def unwind_def split: if_splits sum.splits)
  from guard_on_top [OF st i this] obtain as a ob where
    t: "active ?st = as @ [a]" "as_uid a = sp_uid (w_spans w ! i)"
      "sp_obj (w_spans w ! i) = Some ob" "obj_ok (as_uid a) ob" by metis
  let ?f = "FinalizeSpan_new (as_uid a) None (as_ref a)"
  let ?st' = "?st\<lparr>active := as, finalized := finalized ?st @ [?f]\<rparr>"
  let ?asy = "\<lparr>asy_uid = as_uid a, asy_obj = Some ob\<rparr>"
  have w': "w' = w\<lparr>w_shared := \<lparr>sh_stack = ?st', sh_wg = wg'\<rparr>,
      w_spans := remove_nth i (w_spans w), w_asyncs := w_asyncs w @ [?asy]\<rparr>"
    using ex i t wg' by (simp add: exec_prepare_def prepare_for_async_top Let_def)
  have "stack_inv k ?st' (remove_nth i (w_spans w)) (w_asyncs w @ [?asy])"
    using st i t fin_ok_close [OF st t(1) t(4)]
    by (intro stack_inv_pop [OF st i t(1,2)]) (auto simp: FinalizeSpan_new_def stack_inv_def guard_ok_def)
  then show ?thesis
    using inv wg' uids_of_pop [OF t(1), of ?f]
    by (simp add: trace_inv_def ctx_inv_def w' FinalizeSpan_new_def split: ctx_slot.splits)
qed

text \<open>Dropping an async guard while the stack lives never panics.\<close>

lemma exec_async_drop_inv:
  assumes inv: "trace_inv k w" and i: "i < length (w_asyncs w)" and alive: "stack_alive w"
  shows "\<exists>w'. exec_async_drop cfg now i w = Some (w', Inr ()) \<and> trace_inv k w'"
proof -
  let ?st = "sh_stack (w_shared w)"
  have st: "stack_inv k ?st (w_spans w) (w_asyncs w)" using inv by (simp add: trace_inv_def)
  obtain n where n: "length (w_asyncs w) = Suc n" using i by (cases "length (w_asyncs w)") auto
  obtain ob where ob: "asy_obj (w_asyncs w ! i) = Some ob"
    using st i by (fastforce simp: stack_inv_def list_all_length guard_ok_def split: option.splits)
  obtain fin where fin: "fill_async (fetch_time cfg now End) (asy_uid (w_asyncs w ! i)) ob (finalized ?st) = Some fin"
      "stack_inv k (?st\<lparr>finalized := fin\<rparr>) (w_spans w) (remove_nth i (w_asyncs w))"
      "map fs_uid fin = map fs_uid (finalized ?st)"
    using fill_async_inv [OF st i ob] by metis
  obtain wg' where wg': "WaitGroup_done cfg (sh_wg (w_shared w)) = (wg', Inr (n = 0))" "wg_at n wg'"
    using WaitGroup_done_at [of n "sh_wg (w_shared w)" cfg] inv n by (auto simp: trace_inv_def)
  have "uids_of (?st\<lparr>finalized := fin\<rparr>) = uids_of ?st"
    unfolding uids_of_def using fin(3) by simp
  then show ?thesis
    using inv i alive ob fin wg' n
    by (simp add: exec_async_drop_def AsyncSpan_drop_def finalize_async_span_def trace_inv_def
        ctx_inv_def split: ctx_slot.splits)
qed

lemma exec_async_drop_alive:
  assumes "exec_async_drop cfg now i w = Some (w', Inr ())"
  shows "i < length (w_asyncs w)" and "stack_alive w"
  using assms by (auto simp: exec_async_drop_def AsyncSpan_drop_def split: if_splits)

text \<open>Tags and logs.\<close>

lemma list_all_update: "list_all P xs \<Longrightarrow> P y \<Longrightarrow> list_all P (xs[i := y])"
  using set_update_subset_insert [of xs i y] by (auto simp: list_all_iff)

lemma handles_guard:
  assumes "guard_ok u ob"
  shows "snd (handle_add_tag key v ob) = Inr ()" and "guard_ok u (fst (handle_add_tag key v ob))"
    and "snd (handle_add_log cfg now m ob) = Inr ()" and "guard_ok u (fst (handle_add_log cfg now m ob))"
  using assms
  by (auto simp: guard_ok_def handle_add_tag_def handle_add_log_def span_object_mut_def split: option.splits)

lemma exec_on_span_inv:
  assumes inv: "trace_inv k w" and ex: "exec_on_span i f w = Some (w', r)"
    and f: "\<And>u ob. guard_ok u ob \<Longrightarrow> guard_ok u (fst (f ob))"
  shows "trace_inv k w'"
proof -
  have i: "i < length (w_spans w)" using ex by (auto simp: exec_on_span_def split: if_splits)
  let ?sp = "(w_spans w ! i)\<lparr>sp_obj := fst (f (sp_obj (w_spans w ! i)))\<rparr>"
  have w': "w' = w\<lparr>w_spans := (w_spans w)[i := ?sp]\<rparr>"
    using ex i by (auto simp: exec_on_span_def split: prod.splits)
  have "guard_ok (sp_uid (w_spans w ! i)) (sp_obj (w_spans w ! i))"
    using inv i by (simp add: trace_inv_def stack_inv_def list_all_length)
  then have "guard_ok (sp_uid ?sp) (sp_obj ?sp)" using f by simp
  moreover have "map sp_uid ((w_spans w)[i := ?sp]) = map sp_uid (w_spans w)"
    using i by (simp add: map_update list_update_same_conv)
  ultimately show ?thesis
    using inv by (simp add: trace_inv_def stack_inv_def w' list_all_update)
qed

lemma exec_on_async_inv:
  assumes inv: "trace_inv k w" and ex: "exec_on_async i f w = Some (w', r)"
    and f: "\<And>u ob. guard_ok u ob \<Longrightarrow> guard_ok u (fst (f ob))"
  shows "trace_inv k w'"
proof -
  have i: "i < length (w_asyncs w)" using ex by (auto simp: exec_on_async_def split: if_splits)
  let ?sp = "(w_asyncs w ! i)\<lparr>asy_obj := fst (f (asy_obj (w_asyncs w ! i)))\<rparr>"
  have w': "w' = w\<lparr>w_asyncs := (w_asyncs w)[i := ?sp]\<rparr>"
    using ex i by (auto simp: exec_on_async_def split: prod.splits)
  have "guard_ok (asy_uid (w_asyncs w ! i)) (asy_obj (w_asyncs w ! i))"
    using inv i by (simp add: trace_inv_def stack_inv_def list_all_length)
  then have "guard_ok (asy_uid ?sp) (asy_obj ?sp)" using f by simp
  moreover have "map asy_uid ((w_asyncs w)[i := ?sp]) = map asy_uid (w_asyncs w)"
    using i by (simp add: map_update list_update_same_conv)
  ultimately show ?thesis
    using inv by (simp add: trace_inv_def stack_inv_def w' list_all_update)
qed

text \<open>\<open>continued\<close>: the trace id and at most one reference change.\<close>

lemma exec_continued_inv:
  assumes inv: "trace_inv k w" and tc: "w_ctx w = Live tc"
    and c: "continued tracer snap (tc, sh_stack (w_shared w)) = ((tc', st'), r)"
  shows "trace_inv k (w\<lparr>w_ctx := Live tc', w_shared := (w_shared w)\<lparr>sh_stack := st'\<rparr>\<rparr>)"
proof -
  let ?st = "sh_stack (w_shared w)"
  have st: "stack_inv k ?st (w_spans w) (w_asyncs w)" using inv by (simp add: trace_inv_def)
  have "ctx_at k tc'"
    using continued_ctx_at [of k tc tracer snap ?st] inv tc c by (simp add: trace_inv_def ctx_inv_def)
  moreover have "stack_inv k st' (w_spans w) (w_asyncs w) \<and> uids_of st' = uids_of ?st"
    using continued_stack [of tracer snap tc ?st] c st stack_inv_ref [OF st] by auto
  ultimately show ?thesis using inv tc by (simp add: trace_inv_def ctx_inv_def)
qed

text \<open>Dropping the context: no panic means that no async span is outstanding.\<close>

lemma unfinished_Nil_iff:
  assumes "stack_inv k st sps asys"
  shows "asys = [] \<longleftrightarrow> (\<forall>f \<in> set (finalized st). fs_obj f \<noteq> None)"
proof -
  have "asys = [] \<longleftrightarrow> unfinished st = []"
    using assms by (metis length_0_conv length_map size_mset stack_inv_def)
  then show ?thesis by (auto simp: unfinished_def filter_empty_conv)
qed

lemma convert_ok_iff:
  assumes "stack_inv k st sps asys"
  shows "is_ok (snd (convert_to_segment_object tc st)) \<longleftrightarrow> asys = []"
  using unfinished_Nil_iff [OF assms] those_map_None [of fs_obj "finalized st"]
  by (auto simp: convert_to_segment_object_def split: option.splits)

lemma stack_inv_taken:
  "stack_inv k st sps [] \<Longrightarrow> stack_inv k (st\<lparr>finalized := []\<rparr>) sps []"
  by (auto simp: stack_inv_def unfinished_def)

lemma exec_ctx_drop_inv:
  assumes inv: "trace_inv k w" and ex: "exec_ctx_drop report tc w = (w', Inr ())"
  shows "trace_inv k w'"
proof -
  let ?st = "sh_stack (w_shared w)"
  have st: "stack_inv k ?st (w_spans w) (w_asyncs w)" using inv by (simp add: trace_inv_def)
  obtain seg where seg: "convert_to_segment_object tc ?st = (?st\<lparr>finalized := []\<rparr>, Inr seg)"
    using ex by (cases "snd (convert_to_segment_object tc ?st)")
      (auto simp: exec_ctx_drop_def TracingContext_drop_def finalize_context_def
        convert_to_segment_object_def split: sum.splits prod.splits option.splits)
  then have asy: "w_asyncs w = []" using convert_ok_iff [OF st, of tc] by simp
  have "\<exists>r'. w' = w\<lparr>w_ctx := Gone, w_shared := (w_shared w)\<lparr>sh_stack := ?st\<lparr>finalized := []\<rparr>\<rparr>, w_reporter := r'\<rparr>"
    using ex seg by (auto simp: exec_ctx_drop_def TracingContext_drop_def finalize_context_def
        split: sum.splits prod.splits)
  then show ?thesis
    using inv stack_inv_taken st asy by (auto simp: trace_inv_def ctx_inv_def)
qed

section \<open>All reachable states\<close>

lemma trace_inv_init: "trace_inv 0 (trace_init t u1 u2 r)"
  using stack_inv_empty
  by (simp add: trace_inv_def trace_init_def wg_at_default ctx_inv_def
      create_trace_context_def ctx_at_new uids_of_def SpanStack_default_def)

lemma trace_exec_inv:
  assumes inv: "trace_inv k w" and ex: "trace_exec report cfg now oper w = Some (w', Inr ())"
    and k: "k + creates oper < 2 ^ 31"
  shows "trace_inv (k + creates oper) w'"
proof (cases oper)
  case (OpEntry n)
  then show ?thesis using ex k exec_create_inv [OF inv _ span_ctors(1)] by auto
next
  case (OpEntryProp n p)
  then show ?thesis using ex k exec_create_inv [OF inv _ span_ctors(2)] by auto
next
  case (OpExit n r)
  then show ?thesis using ex k exec_create_inv [OF inv _ span_ctors(3)] by auto
next
  case (OpLocal n)
  then show ?thesis using ex k exec_create_inv [OF inv _ span_ctors(4)] by auto
next
  case (OpContinued snap)
  with ex show ?thesis
    using inv by (auto split: ctx_slot.splits prod.splits intro: exec_continued_inv)
next
  case (OpSpanTag i key v)
  then show ?thesis using ex exec_on_span_inv [OF inv _ handles_guard(2)] by auto
next
  case (OpSpanLog i m)
  then show ?thesis using ex exec_on_span_inv [OF inv _ handles_guard(4)] by auto
next
  case (OpSpanDrop i)
  then show ?thesis using ex exec_span_drop_inv [OF inv] by auto
next
  case (OpPrepare i)
  then show ?thesis using ex k exec_prepare_inv [OF inv] by auto
next
  case (OpAsyncTag i key v)
  then show ?thesis using ex exec_on_async_inv [OF inv _ handles_guard(2)] by auto
next
  case (OpAsyncLog i m)
  then show ?thesis using ex exec_on_async_inv [OF inv _ handles_guard(4)] by auto
next
  case (OpAsyncDrop i)
  with ex exec_async_drop_alive [of cfg now i w w'] exec_async_drop_inv [OF inv, of i cfg now]
  show ?thesis by auto
next
  case OpWait
  with ex inv show ?thesis by (auto simp: trace_inv_def ctx_inv_def split: ctx_slot.splits)
next
  case OpWaitDone
  with ex inv show ?thesis
    by (auto simp: unwind_def split: ctx_slot.splits sum.splits if_splits intro: exec_ctx_drop_inv)
next
  case OpCtxDrop
  with ex inv show ?thesis by (auto split: ctx_slot.splits intro: exec_ctx_drop_inv)
next
  case OpTracerClone
  with ex inv show ?thesis by (auto simp: trace_inv_def split: if_splits)
next
  case OpTracerDrop
  with ex inv show ?thesis by (auto simp: trace_inv_def split: if_splits)
qed

lemma trace_reach_inv: "trace_reach report cfg k w \<Longrightarrow> k < 2 ^ 31 \<Longrightarrow> trace_inv k w"
proof (induction rule: trace_reach.induct)
  case (trace_reach_init t u1 u2 r)
  show ?case by (rule trace_inv_init)
next
  case (trace_reach_step k w now oper w')
  then show ?case by (intro trace_exec_inv) auto
qed

end
