(* ===== verification/Print_Reporter.thy ===== *)
theory Print_Reporter
  imports Reporter
begin

text \<open>
  \<^verbatim>\<open>src/src/reporter/print.rs\<close>: the reporter that prints.  A printed line is its fixed prefix and
  the item; the text that the derived \<open>Debug\<close> gives for the item is not modelled.
\<close>

record PrintReporter =
  use_stderr :: bool

record console =
  stdout_lines :: "(string \<times> CollectItem) list"
  stderr_lines :: "(string \<times> CollectItem) list"

definition PrintReporter_new :: PrintReporter where
  "PrintReporter_new = \<lparr>use_stderr = False\<rparr>"

definition PrintReporter_use_stderr :: "bool \<Rightarrow> PrintReporter \<Rightarrow> PrintReporter" where
  "PrintReporter_use_stderr b p = p\<lparr>use_stderr := b\<rparr>"

fun print_prefix :: "CollectItem \<Rightarrow> string" where
  "print_prefix (Trace data) = ''trace segment=''"
| "print_prefix (Log data) = ''log data=''"
| "print_prefix (Meter data) = ''meter data=''"
| "print_prefix (Instance data) = ''instance properties data=''"
| "print_prefix (Ping data) = ''ping data=''"

definition PrintReporter_report :: "(PrintReporter \<times> console) report_fn" where
  "PrintReporter_report item pc =
     (case pc of (p, c) \<Rightarrow>
        ((p, if use_stderr p
             then c\<lparr>stderr_lines := stderr_lines c @ [(print_prefix item, item)]\<rparr>
             else c\<lparr>stdout_lines := stdout_lines c @ [(print_prefix item, item)]\<rparr>),
         Inr ()))"

text \<open>The items on the stream the reporter prints to.\<close>

definition printed :: "PrintReporter \<times> console \<Rightarrow> CollectItem list" where
  "printed pc = (case pc of (p, c) \<Rightarrow> map snd (if use_stderr p then stderr_lines c else stdout_lines c))"

interpretation print: gated_reporter PrintReporter_report printed "\<lambda>_. True"
  by unfold_locales (auto simp: PrintReporter_report_def printed_def)

end
