(* ===== verification/Trace_Safety.thy ===== *)
theory Trace_Safety
  imports Trace_Invariant Print_Reporter
begin

text \<open>
  What the invariant of \<open>Trace_Invariant\<close> gives the user of the tracing API: the segment that is
  reported, the calls that can panic, \<open>wait\<close>, and what happens after the context is gone.
\<close>

section \<open>Running a list of calls\<close>

fun trace_run ::
  "'r report_fn \<Rightarrow> build \<Rightarrow> (SystemTime \<times> trace_op) list \<Rightarrow> 'r TraceWorld \<Rightarrow> 'r TraceWorld option" where
  "trace_run report cfg [] w = Some w"
| "trace_run report cfg ((now, oper) # ops) w =
     (case trace_exec report cfg now oper w of
        Some (w', Inr _) \<Rightarrow> trace_run report cfg ops w'
      | _ \<Rightarrow> None)"

lemma trace_run_reach:
  assumes "trace_reach report cfg k w" and "trace_run report cfg ops w = Some w'"
  shows "trace_reach report cfg (k + sum_list (map (creates \<circ> snd) ops)) w'"
  using assms
proof (induction ops arbitrary: k w)
  case Nil
  then show ?case by simp
next
  case (Cons t ops)
  obtain now oper where t: "t = (now, oper)" by fastforce
  with Cons.prems obtain w1 where w1: "trace_exec report cfg now oper w = Some (w1, Inr ())"
      "trace_run report cfg ops w1 = Some w'"
    by (auto split: option.splits sum.splits)
  then have "trace_reach report cfg (k + creates oper) w1"
    using Cons.prems(1) trace_reach.trace_reach_step by metis
  from Cons.IH [OF this w1(2)] show ?case by (simp add: t add.assoc)
qed

lemma trace_run_append:
  "trace_run report cfg (xs @ ys) w = Option.bind (trace_run report cfg xs w) (trace_run report cfg ys)"
  by (induction xs arbitrary: w) (auto split: option.splits sum.splits)

lemma trace_run_init_reach:
  "trace_run report cfg ops (trace_init t u1 u2 r) = Some w \<Longrightarrow>
   trace_reach report cfg (sum_list (map (creates \<circ> snd) ops)) w"
  using trace_run_reach [OF trace_reach.trace_reach_init] by fastforce

section \<open>The segment\<close>

text \<open>With every span guard gone, the finalized list numbers its spans \<open>0\<close> to \<open>k - 1\<close> and every
  parent is in it.\<close>

lemma obj_ok_sint: "obj_ok u ob \<Longrightarrow> unat u < 2 ^ 31 \<Longrightarrow> sint (span_id ob) = int (unat u)"
  using sint_of_nat_i32 [of "unat u"] by (simp add: obj_ok_def)

text \<open>The number of a span that a guard or the finalized list still stands for.\<close>

definition guard_id :: "Span \<Rightarrow> int" where
  "guard_id sp = (case sp_obj sp of Some ob \<Rightarrow> sint (span_id ob) | None \<Rightarrow> -1)"

lemma guard_id_uid: "guard_ok (sp_uid sp) (sp_obj sp) \<Longrightarrow> unat (sp_uid sp) < 2 ^ 31 \<Longrightarrow> guard_id sp = int (unat (sp_uid sp))"
  by (auto simp: guard_ok_def guard_id_def obj_ok_sint simp del: of_nat_unat split: option.splits)

lemma finalized_uids:
  assumes inv: "stack_inv k st sps asys" and k: "k < 2 ^ 31" and objs: "map fs_obj (finalized st) = map Some spans"
  shows "map (\<lambda>s. sint (span_id s)) spans = map (\<lambda>f. int (unat (fs_uid f))) (finalized st)"
proof (rule nth_equalityI)
  show len: "length (map (\<lambda>s. sint (span_id s)) spans) = length (map (\<lambda>f. int (unat (fs_uid f))) (finalized st))"
    using objs by (metis length_map)
  fix i assume i: "i < length (map (\<lambda>s. sint (span_id s)) spans)"
  then have "fs_obj (finalized st ! i) = Some (spans ! i)"
    using objs len by (metis length_map nth_map)
  moreover have "fin_ok k (finalized st ! i)"
    using inv i len by (simp add: stack_inv_def list_all_length)
  ultimately show "map (\<lambda>s. sint (span_id s)) spans ! i = map (\<lambda>f. int (unat (fs_uid f))) (finalized st) ! i"
    using i len k obj_ok_sint [of "fs_uid (finalized st ! i)" "spans ! i"]
    by (auto simp: fin_ok_def)
qed

lemma open_uids:
  assumes inv: "stack_inv k st sps asys" and k: "k < 2 ^ 31"
  shows "mset (map guard_id sps) = mset (map (\<lambda>a. int (unat (as_uid a))) (active st))"
proof -
  have uids: "mset (map sp_uid sps) = mset (map as_uid (active st))"
    and ok: "list_all (\<lambda>s. guard_ok (sp_uid s) (sp_obj s)) sps" and act: "list_all (act_ok k) (active st)"
    using inv by (simp_all add: stack_inv_def)
  have "map guard_id sps = map (\<lambda>u. int (unat u)) (map sp_uid sps)"
  proof (simp del: of_nat_unat, intro ballI)
    fix s assume s: "s \<in> set sps"
    then have "sp_uid s \<in> set (map as_uid (active st))" using mset_eq_setD [OF uids] by auto
    then have "unat (sp_uid s) < k" using act by (auto simp: list_all_iff act_ok_def)
    then show "guard_id s = int (unat (sp_uid s))" using ok s k by (intro guard_id_uid) (auto simp: list_all_iff)
  qed
  also have "mset \<dots> = mset (map (\<lambda>u. int (unat u)) (map as_uid (active st)))"
    using uids by (metis mset_map)
  finally show ?thesis by (simp add: comp_def)
qed

text \<open>Every span that was created is in the finalized list or still has its guard.\<close>

lemma finalized_and_open_ids:
  assumes inv: "stack_inv k st sps asys" and k: "k < 2 ^ 31" and uids: "unat ` uids_of st = {0..<k}"
    and objs: "map fs_obj (finalized st) = map Some spans"
  shows "mset (map (\<lambda>s. sint (span_id s)) spans) + mset (map guard_id sps) = mset (map int [0..<k])"
proof -
  let ?us = "map as_uid (active st) @ map fs_uid (finalized st)"
  have "mset (map (\<lambda>u. int (unat u)) ?us) = mset (map int [0..<k])"
  proof (rule iffD1 [OF set_eq_iff_mset_eq_distinct])
    have d: "distinct ?us" using inv by (simp add: stack_inv_def)
    show "distinct (map (\<lambda>u. int (unat u)) ?us)"
      unfolding distinct_map by (rule conjI [OF d]) (simp add: inj_on_def word_unat_eq_iff del: of_nat_unat)
    have "set ?us = uids_of st" by (simp add: uids_of_def)
    then have "unat ` set ?us = {0..<k}" using uids by simp
    then show "set (map (\<lambda>u. int (unat u)) ?us) = set (map int [0..<k])" by (metis image_image set_map set_upt)
  qed (simp add: distinct_map)
  then have "mset (map (\<lambda>a. int (unat (as_uid a))) (active st)) + mset (map (\<lambda>f. int (unat (fs_uid f))) (finalized st)) =
      mset (map int [0..<k])" by (simp add: comp_def)
  then show ?thesis unfolding finalized_uids [OF inv k objs] open_uids [OF inv k] by (simp only: add.commute)
qed

lemma finalized_ids:
  assumes "stack_inv k st [] asys" and "k < 2 ^ 31" and "unat ` uids_of st = {0..<k}"
    and "map fs_obj (finalized st) = map Some spans"
  shows "mset (map (\<lambda>s. sint (span_id s)) spans) = mset (map int [0..<k])"
  using finalized_and_open_ids [OF assms] by simp

lemma finalized_parents:
  assumes inv: "stack_inv k st [] asys" and k: "k < 2 ^ 31" and uids: "unat ` uids_of st = {0..<k}"
    and objs: "map fs_obj (finalized st) = map Some spans" and s: "s \<in> set spans"
  shows "parent_span_id s = -1 \<or>
    (\<exists>p \<in> set spans. span_id p = parent_span_id s \<and> sint (span_id p) < sint (span_id s))"
proof -
  have "Some s \<in> fs_obj ` set (finalized st)" using objs s by (metis image_eqI set_map)
  then obtain f where f: "f \<in> set (finalized st)" "fs_obj f = Some s" by auto
  then have ok: "obj_ok (fs_uid f) s" and fk: "unat (fs_uid f) < k"
    using inv by (auto simp: stack_inv_def list_all_iff fin_ok_def split: option.splits)
  show ?thesis
  proof (cases "parent_span_id s = -1")
    case False
    with ok obtain j where j: "j < unat (fs_uid f)" "parent_span_id s = of_nat j"
      by (auto simp: obj_ok_def)
    have "int j \<in># mset (map (\<lambda>s. sint (span_id s)) spans)"
      using finalized_ids [OF inv k uids objs] j fk by simp
    then obtain p where p: "p \<in> set spans" "sint (span_id p) = int j" by auto
    then have "sint (span_id p) = sint (of_nat j :: i32)"
      using sint_of_nat_i32 [of j] j fk k by simp
    then have "span_id p = of_nat j" by (rule signed_word_eqI)
    moreover have "sint (span_id s) = int (unat (fs_uid f))"
      using ok fk k by (intro obj_ok_sint) auto
    ultimately show ?thesis using p j by (auto simp del: of_nat_unat)
  qed simp
qed

text \<open>What dropping the context, directly or at the end of \<open>wait\<close>, does in a good state.\<close>

definition segment_of :: "TracingContext \<Rightarrow> SpanObject list \<Rightarrow> SegmentObject" where
  "segment_of tc spans =
     \<lparr>seg_trace_id = tc_trace_id tc, seg_trace_segment_id = tc_trace_segment_id tc,
      seg_spans = spans, seg_service = tc_service tc,
      seg_service_instance = tc_service_instance tc, is_size_limited = False\<rparr>"

lemma convert_segment_of:
  "convert_to_segment_object tc st = (st', Inr seg) \<longleftrightarrow>
   st' = st\<lparr>finalized := []\<rparr> \<and>
   (\<exists>spans. map fs_obj (finalized st) = map Some spans \<and> seg = segment_of tc spans)"
  by (auto simp: convert_to_segment_object_def segment_of_def those_map_Some [symmetric]
      split: option.splits)

context reporter
begin

lemma exec_ctx_drop_delivers:
  assumes "accepting (w_reporter w)" and "0 < w_tracer_strong w"
    and "map fs_obj (finalized (sh_stack (w_shared w))) = map Some spans"
  shows "\<exists>w'. exec_ctx_drop report tc w = (w', Inr ()) \<and>
    delivered (w_reporter w') = delivered (w_reporter w) @ [Trace (segment_of tc spans)]"
proof -
  let ?st = "sh_stack (w_shared w)"
  have "convert_to_segment_object tc ?st = (?st\<lparr>finalized := []\<rparr>, Inr (segment_of tc spans))"
    using assms(3) by (simp add: convert_segment_of)
  with report_accepting [OF assms(1), of "Trace (segment_of tc spans)"] assms(2) show ?thesis
    by (auto simp: exec_ctx_drop_def TracingContext_drop_def finalize_context_def
        upgrade_tracer_def weak_tracer_def)
qed

lemma exec_ctx_drop_ok:
  assumes "accepting (w_reporter w)" and "exec_ctx_drop report tc w = (w', Inr ())"
  shows "\<exists>spans. map fs_obj (finalized (sh_stack (w_shared w))) = map Some spans \<and>
    0 < w_tracer_strong w \<and>
    delivered (w_reporter w') = delivered (w_reporter w) @ [Trace (segment_of tc spans)]"
proof -
  let ?st = "sh_stack (w_shared w)"
  have t: "0 < w_tracer_strong w"
    using assms(2) by (auto simp: exec_ctx_drop_def TracingContext_drop_def upgrade_tracer_def
        weak_tracer_def split: if_splits)
  obtain seg where "convert_to_segment_object tc ?st = (?st\<lparr>finalized := []\<rparr>, Inr seg)"
    using assms(2) by (cases "snd (convert_to_segment_object tc ?st)")
      (auto simp: exec_ctx_drop_def TracingContext_drop_def finalize_context_def
        convert_to_segment_object_def split: sum.splits prod.splits option.splits)
  then obtain spans where s: "map fs_obj (finalized ?st) = map Some spans"
    by (auto simp: convert_segment_of)
  from exec_ctx_drop_delivers [OF assms(1) t s, of tc] assms(2) t s show ?thesis by auto
qed

end

section \<open>Sample runs\<close>

text \<open>A dev build, a context of the printing reporter, and runs of it for the witnesses.\<close>

definition dev_build :: build where
  "dev_build = \<lparr>overflow_checks = True, mock = True\<rparr>"

definition sample_init :: "(PrintReporter \<times> console) TraceWorld" where
  "sample_init = trace_init (Tracer_new ''service'' ''instance'') 1 2
     (PrintReporter_new, \<lparr>stdout_lines = [], stderr_lines = []\<rparr>)"

definition sample_run :: "trace_op list \<Rightarrow> (PrintReporter \<times> console) TraceWorld option" where
  "sample_run ops = trace_run PrintReporter_report dev_build (map (\<lambda>op. (0, op)) ops) sample_init"

abbreviation sample_exec ::
  "trace_op \<Rightarrow> (PrintReporter \<times> console) TraceWorld \<Rightarrow> ((PrintReporter \<times> console) TraceWorld, unit) outcome option" where
  "sample_exec \<equiv> trace_exec PrintReporter_report dev_build 0"

lemma sample_run_reach:
  assumes "sample_run ops = Some w"
  shows "trace_reach PrintReporter_report dev_build (sum_list (map creates ops)) w"
  using trace_run_init_reach [OF assms [unfolded sample_run_def sample_init_def]]
  by (simp add: comp_def)

text \<open>Four spans, one of them finished asynchronously; the guards are all gone at the end.\<close>

definition sample_ops :: "trace_op list" where
  "sample_ops = [OpEntry ''op1'', OpLocal ''op2'', OpExit ''op3'' ''peer'', OpSpanDrop 2,
     OpLocal ''op4'', OpPrepare 2, OpSpanDrop 1, OpAsyncTag 0 ''k'' ''v'', OpAsyncDrop 0, OpSpanDrop 0]"

lemma sample_ops_run:
  "case sample_run sample_ops of
     Some w \<Rightarrow> w_spans w = [] \<and> w_asyncs w = [] \<and> 0 < w_tracer_strong w \<and>
       (case sample_exec OpCtxDrop w of Some (w', r) \<Rightarrow> r = Inr () | _ \<Rightarrow> False) \<and>
       (case w_ctx w of Live tc \<Rightarrow> True | _ \<Rightarrow> False)
   | None \<Rightarrow> False"
  by code_simp

lemma sample_ops_final:
  obtains w w' tc where "sample_run sample_ops = Some w" and "w_spans w = []" and "w_asyncs w = []"
    and "0 < w_tracer_strong w" and "sample_exec OpCtxDrop w = Some (w', Inr ())"
    and "w_ctx w = Live tc"
    and "trace_reach PrintReporter_report dev_build 4 w"
proof -
  have k: "sum_list (map creates sample_ops) = 4" by code_simp
  show ?thesis
    using sample_ops_run sample_run_reach [of sample_ops] k that
    by (auto split: option.splits ctx_slot.splits)
qed

section \<open>Properties\<close>

text \<open>
  C2. When the context is dropped, directly or at the end of \<open>wait\<close>, after every span guard is
  gone, exactly one trace item is reported and its spans form a forest: the \<open>k\<close> spans that were
  created carry the ids \<open>0\<close> to \<open>k - 1\<close>, each once, and every parent id is \<open>-1\<close> or the smaller id
  of a span of the same segment.  This holds for every sequence of API calls from any threads
  that did not panic, as long as fewer than \<open>2 ^ 31\<close> spans were created.
\<close>

theorem reported_segment_is_a_forest:
  assumes rep: "reporter report delivered accepting" and acc: "accepting (w_reporter w)"
    and reach: "trace_reach report cfg k w" and k: "k < 2 ^ 31" and closed: "w_spans w = []"
    and oper: "oper = OpCtxDrop \<or> oper = OpWaitDone"
    and ex: "trace_exec report cfg now oper w = Some (w', Inr ())"
  shows "\<exists>seg. delivered (w_reporter w') = delivered (w_reporter w) @ [Trace seg] \<and>
    mset (map (\<lambda>s. sint (span_id s)) (seg_spans seg)) = mset (map int [0..<k]) \<and>
    (\<forall>s \<in> set (seg_spans seg). parent_span_id s = -1 \<or>
       (\<exists>p \<in> set (seg_spans seg). span_id p = parent_span_id s \<and> sint (span_id p) < sint (span_id s)))"
proof -
  let ?st = "sh_stack (w_shared w)"
  have inv: "trace_inv k w" using reach k by (rule trace_reach_inv)
  obtain tc where tc: "exec_ctx_drop report tc w = (w', Inr ())" "w_ctx w = Live tc \<or> w_ctx w = Waiting tc"
    using oper ex by (auto simp: unwind_def split: ctx_slot.splits sum.splits if_splits)
  have st: "stack_inv k ?st [] (w_asyncs w)" and uids: "unat ` uids_of ?st = {0..<k}"
    using inv closed tc(2) by (elim disjE; simp add: trace_inv_def ctx_inv_def)+
  obtain spans where "map fs_obj (finalized ?st) = map Some spans"
      "delivered (w_reporter w') = delivered (w_reporter w) @ [Trace (segment_of tc spans)]"
    using reporter.exec_ctx_drop_ok [OF rep acc tc(1)] by auto
  with finalized_ids [OF st k uids, of spans] finalized_parents [OF st k uids, of spans] show ?thesis
    by (auto simp: segment_of_def)
qed

theorem reported_segment_is_a_forest_witness:
  "\<exists>w w' seg. sample_run sample_ops = Some w \<and> sample_exec OpCtxDrop w = Some (w', Inr ()) \<and>
    printed (w_reporter w') = printed (w_reporter w) @ [Trace seg] \<and>
    mset (map (\<lambda>s. sint (span_id s)) (seg_spans seg)) = {#0, 1, 2, 3#}"
proof -
  obtain w w' where w: "sample_run sample_ops = Some w" "w_spans w = []"
      "sample_exec OpCtxDrop w = Some (w', Inr ())" "trace_reach PrintReporter_report dev_build 4 w"
    using sample_ops_final by metis
  have "[0..<4] = [0, 1, 2, 3]" by (simp add: upt_rec)
  with reported_segment_is_a_forest [OF print.reporter_axioms _ w(4) _ w(2) _ w(3)] w show ?thesis
    by (auto simp: add_mset_commute)
qed

text \<open>
  C4. \<open>TracingContext::wait\<close> is safe and exact: in every reachable state it stays blocked while an
  async span is outstanding, and once the last one is dropped it reports the segment without a
  panic (in particular never with \<open>Some async span haven't finished\<close>).
\<close>

theorem wait_reports_when_async_spans_are_done:
  assumes rep: "reporter report delivered accepting" and acc: "accepting (w_reporter w)"
    and reach: "trace_reach report cfg k w" and k: "k < 2 ^ 31"
    and tc: "w_ctx w = Waiting tc" and tr: "0 < w_tracer_strong w"
  shows "if w_asyncs w = []
    then \<exists>w' seg. trace_exec report cfg now OpWaitDone w = Some (w', Inr ()) \<and>
      delivered (w_reporter w') = delivered (w_reporter w) @ [Trace seg]
    else trace_exec report cfg now OpWaitDone w = None"
proof -
  let ?st = "sh_stack (w_shared w)"
  have inv: "trace_inv k w" using reach k by (rule trace_reach_inv)
  then have st: "stack_inv k ?st (w_spans w) (w_asyncs w)" by (simp add: trace_inv_def)
  have chk: "WaitGroup_wait_check (sh_wg (w_shared w)) = Inr (w_asyncs w = [])"
    using inv WaitGroup_wait_check_at by (fastforce simp: trace_inv_def)
  show ?thesis
  proof (cases "w_asyncs w = []")
    case True
    then have "those (map fs_obj (finalized ?st)) \<noteq> None"
      using unfinished_Nil_iff [OF st] by (simp add: those_map_None)
    then obtain spans where "map fs_obj (finalized ?st) = map Some spans"
      by (auto simp: those_map_Some)
    from reporter.exec_ctx_drop_delivers [OF rep acc tr this, of tc] True tc chk show ?thesis by auto
  qed (use tc chk in simp)
qed

definition sample_wait_ops :: "trace_op list" where
  "sample_wait_ops = [OpEntry ''op1'', OpPrepare 0, OpWait]"

theorem wait_reports_when_async_spans_are_done_witness:
  "\<exists>w w1 w2 seg. sample_run sample_wait_ops = Some w \<and> sample_exec OpWaitDone w = None \<and>
     sample_exec (OpAsyncDrop 0) w = Some (w1, Inr ()) \<and>
     sample_exec OpWaitDone w1 = Some (w2, Inr ()) \<and> printed (w_reporter w2) = [Trace seg]"
proof -
  have ev: "case sample_run sample_wait_ops of
      Some w \<Rightarrow> w_asyncs w \<noteq> [] \<and> 0 < w_tracer_strong w \<and>
        (case w_ctx w of Waiting tc \<Rightarrow> True | _ \<Rightarrow> False)
    | None \<Rightarrow> False"
    by code_simp
  have ev1: "case sample_run (sample_wait_ops @ [OpAsyncDrop 0]) of
      Some w \<Rightarrow> w_asyncs w = [] \<and> 0 < w_tracer_strong w \<and> printed (w_reporter w) = [] \<and>
        (case w_ctx w of Waiting tc \<Rightarrow> True | _ \<Rightarrow> False)
    | None \<Rightarrow> False"
    by code_simp
  have k: "sum_list (map creates sample_wait_ops) = 1" by code_simp
  obtain w tc where w: "sample_run sample_wait_ops = Some w" "w_asyncs w \<noteq> []" "0 < w_tracer_strong w"
      "w_ctx w = Waiting tc"
    using ev by (auto split: option.splits ctx_slot.splits)
  obtain w1 tc1 where w1: "sample_run (sample_wait_ops @ [OpAsyncDrop 0]) = Some w1" "w_asyncs w1 = []"
      "0 < w_tracer_strong w1" "printed (w_reporter w1) = []" "w_ctx w1 = Waiting tc1"
    using ev1 by (auto split: option.splits ctx_slot.splits)
  have r: "trace_reach PrintReporter_report dev_build 1 w"
    "trace_reach PrintReporter_report dev_build 1 w1"
    using sample_run_reach [OF w(1)] sample_run_reach [OF w1(1)] k by simp_all
  have step: "sample_exec (OpAsyncDrop 0) w = Some (w1, Inr ())"
    using w(1) w1(1) trace_run_append [of PrintReporter_report dev_build]
    by (auto simp: sample_run_def split: option.splits sum.splits)
  show ?thesis
    using wait_reports_when_async_spans_are_done [OF print.reporter_axioms _ r(1) _ w(4,3), of 0]
      wait_reports_when_async_spans_are_done [OF print.reporter_axioms _ r(2) _ w1(5,3), of 0]
      w w1 step by auto
qed

end
