(* ===== verification/Trace_Panics.thy ===== *)
theory Trace_Panics
  imports Trace_Safety
begin

text \<open>
  The calls of the tracing API that can panic when every call finds the locks of the stack free
  (\<open>Trace_Locks\<close> adds the locks), and what happens once the context is gone.
\<close>

section \<open>Panics of the single operations\<close>

lemma exec_create_panic:
  assumes "exec_create f w = Some (w', Inl p)"
  obtains tc where "w_ctx w = Live tc" and "snd (f (tc, sh_stack (w_shared w))) = Inl p"
  using assms by (auto simp: exec_create_def Let_def split: ctx_slot.splits prod.splits sum.splits)

lemma ctor_panic:
  assumes "ctx_at k tc" and "Suc k < 2 ^ 31"
  shows "snd (create_entry_span cfg now n (tc, st)) \<noteq> Inl p"
    and "snd (create_entry_span_with_propagation cfg now n prop (tc, st)) \<noteq> Inl p"
    and "snd (create_exit_span cfg now n pr (tc, st)) = Inl p \<Longrightarrow> k = 0 \<and> p = no_entry_panic"
    and "snd (create_local_span cfg now n (tc, st)) = Inl p \<Longrightarrow> k = 0 \<and> p = no_entry_panic"
  using assms
  by (auto simp: create_entry_span_at create_entry_span_with_propagation_at create_exit_span_def
      create_local_span_def create_common_span_at split: if_splits)

lemma prepare_panic:
  assumes inv: "trace_inv k w" and k: "k < 2 ^ 31"
    and ex: "exec_prepare cfg now i w = Some (w', Inl p)"
  shows "i < length (w_spans w) \<and> \<not> is_active_span (sh_stack (w_shared w)) (w_spans w ! i) \<and> p = Abort"
proof -
  let ?st = "sh_stack (w_shared w)"
  have i: "i < length (w_spans w)" using ex by (auto simp: exec_prepare_def split: if_splits)
  have st: "stack_inv k ?st (w_spans w) (w_asyncs w)"
    and wg: "wg_at (length (w_asyncs w)) (sh_wg (w_shared w))" using inv by (simp_all add: trace_inv_def)
  show ?thesis
  proof (cases "is_active_span ?st (w_spans w ! i)")
    case True
    obtain wg' where "WaitGroup_add cfg 1 (sh_wg (w_shared w)) = (wg', Inr ())"
      using WaitGroup_add_at [OF wg, of cfg] asyncs_le [OF st] k by auto
    moreover from True obtain as a where "active ?st = as @ [a]" "as_uid a = sp_uid (w_spans w ! i)"
      by (auto simp: is_active_span_iff last_opt_eq_Some)
    ultimately show ?thesis
      using ex i by (simp add: exec_prepare_def prepare_for_async_top Let_def)
  next
    case False
    with ex i show ?thesis
      by (simp add: exec_prepare_def prepare_for_async_def unwind_def Span_drop_not_top Let_def)
  qed
qed

lemma handle_panic:
  assumes "trace_inv k w"
  shows "exec_on_span i (handle_add_tag key v) w \<noteq> Some (w', Inl p)"
    and "exec_on_span i (handle_add_log cfg now m) w \<noteq> Some (w', Inl p)"
    and "exec_on_async i (handle_add_tag key v) w \<noteq> Some (w', Inl p)"
    and "exec_on_async i (handle_add_log cfg now m) w \<noteq> Some (w', Inl p)"
proof -
  have g: "i < length (w_spans w) \<Longrightarrow> guard_ok (sp_uid (w_spans w ! i)) (sp_obj (w_spans w ! i))"
    and h: "i < length (w_asyncs w) \<Longrightarrow> guard_ok (asy_uid (w_asyncs w ! i)) (asy_obj (w_asyncs w ! i))"
    using assms by (auto simp: trace_inv_def stack_inv_def list_all_length)
  show "exec_on_span i (handle_add_tag key v) w \<noteq> Some (w', Inl p)"
    "exec_on_span i (handle_add_log cfg now m) w \<noteq> Some (w', Inl p)"
    using handles_guard [OF g] by (auto simp: exec_on_span_def split: prod.splits) (metis snd_conv sum.simps(4))+
  show "exec_on_async i (handle_add_tag key v) w \<noteq> Some (w', Inl p)"
    "exec_on_async i (handle_add_log cfg now m) w \<noteq> Some (w', Inl p)"
    using handles_guard [OF h] by (auto simp: exec_on_async_def split: prod.splits) (metis snd_conv sum.simps(4))+
qed

lemma ctx_drop_panic:
  assumes rep: "reporter report delivered accepting" and acc: "accepting (w_reporter w)"
    and inv: "trace_inv k w" and ex: "exec_ctx_drop report tc w = (w', Inl p)"
  shows "(w_tracer_strong w = 0 \<and> p = Panic ''Tracer has dropped'') \<or>
    (w_asyncs w \<noteq> [] \<and> p = unfinished_async_panic)"
proof (cases "w_tracer_strong w = 0")
  case True
  with ex show ?thesis
    by (simp add: exec_ctx_drop_def TracingContext_drop_def upgrade_tracer_def weak_tracer_def)
next
  case False
  let ?st = "sh_stack (w_shared w)"
  have st: "stack_inv k ?st (w_spans w) (w_asyncs w)" using inv by (simp add: trace_inv_def)
  show ?thesis
  proof (cases "those (map fs_obj (finalized ?st))")
    case None
    then have "w_asyncs w \<noteq> []" using unfinished_Nil_iff [OF st] by (auto simp: those_map_None)
    moreover have "p = unfinished_async_panic"
      using ex False None by (simp add: exec_ctx_drop_def TracingContext_drop_def upgrade_tracer_def
          weak_tracer_def finalize_context_def convert_to_segment_object_def)
    ultimately show ?thesis by simp
  next
    case (Some spans)
    then have "map fs_obj (finalized ?st) = map Some spans" by (simp add: those_map_Some)
    from reporter.exec_ctx_drop_delivers [OF rep acc _ this, of tc] ex False show ?thesis by auto
  qed
qed

lemma span_drop_panic:
  assumes "exec_span_drop cfg now i w = Some (w', Inl p)"
  shows "i < length (w_spans w) \<and> p = not_active_panic \<and> \<not> is_active_span (sh_stack (w_shared w)) (w_spans w ! i)"
  using assms Span_drop_ok_iff [of cfg now "w_spans w ! i" "w_shared w"]
  by (auto simp: exec_span_drop_def Span_drop_not_top split: if_splits prod.splits)

lemma async_drop_panic:
  assumes "trace_inv k w" and ex: "exec_async_drop cfg now i w = Some (w', Inl p)"
  shows "p = Panic ''TracingContext has dropped'' \<and> w_ctx w = Gone \<and> w_spans w = []"
proof (cases "stack_alive w")
  case True
  then show ?thesis using exec_async_drop_inv [OF assms(1), of i cfg now] ex
    by (auto simp: exec_async_drop_def split: if_splits)
next
  case False
  with ex show ?thesis
    by (auto simp: exec_async_drop_def AsyncSpan_drop_def stack_alive_def split: if_splits)
qed

text \<open>A \<open>wait\<close> that returns drops a context without unfinished async spans.\<close>

lemma wait_done_panic:
  assumes "reporter report delivered accepting" and "accepting (w_reporter w)" and inv: "trace_inv k w"
    and ex: "trace_exec report cfg now OpWaitDone w = Some (w', Inl p)"
  shows "w_tracer_strong w = 0 \<and> p = Panic ''Tracer has dropped''"
proof -
  obtain tc where tc: "w_ctx w = Waiting tc" using ex by (auto split: ctx_slot.splits)
  have "WaitGroup_wait_check (sh_wg (w_shared w)) = Inr (w_asyncs w = [])"
    using inv WaitGroup_wait_check_at by (fastforce simp: trace_inv_def)
  with ex tc ctx_drop_panic [OF assms(1-3), of tc] show ?thesis by (auto split: if_splits)
qed

section \<open>All panics of atomic calls\<close>

text \<open>The panics of calls that find the locks of the stack free.\<close>

lemma atomic_panics:
  assumes rep: "reporter report delivered accepting" and acc: "accepting (w_reporter w)"
    and reach: "trace_reach report cfg k w" and k: "Suc k < 2 ^ 31"
    and ex: "trace_exec report cfg now oper w = Some (w', Inl p)"
  shows "(k = 0 \<and> p = no_entry_panic \<and> (\<exists>n r. oper = OpExit n r \<or> oper = OpLocal n)) \<or>
    (\<exists>i. oper = OpSpanDrop i \<and> i < length (w_spans w) \<and> p = not_active_panic \<and>
       \<not> is_active_span (sh_stack (w_shared w)) (w_spans w ! i)) \<or>
    (\<exists>i. oper = OpPrepare i \<and> i < length (w_spans w) \<and> p = Abort \<and>
       \<not> is_active_span (sh_stack (w_shared w)) (w_spans w ! i)) \<or>
    (w_tracer_strong w = 0 \<and> p = Panic ''Tracer has dropped'' \<and>
       (oper = OpCtxDrop \<or> oper = OpWaitDone \<or> (\<exists>snap. oper = OpContinued snap))) \<or>
    (oper = OpCtxDrop \<and> w_asyncs w \<noteq> [] \<and> p = unfinished_async_panic) \<or>
    (\<exists>i. oper = OpAsyncDrop i \<and> p = Panic ''TracingContext has dropped'' \<and>
       w_ctx w = Gone \<and> w_spans w = [])"
proof -
  have inv: "trace_inv k w" using reach k by (intro trace_reach_inv) auto
  have at: "w_ctx w = Live tc \<Longrightarrow> ctx_at k tc" for tc
    using inv by (simp add: trace_inv_def ctx_inv_def)
  show ?thesis
  proof (cases oper)
    case (OpExit n r)
    with ex show ?thesis using ctor_panic(3) [OF at k] by (auto elim!: exec_create_panic)
  next
    case (OpLocal n)
    with ex show ?thesis using ctor_panic(4) [OF at k] by (auto elim!: exec_create_panic)
  next
    case (OpEntry n)
    with ex show ?thesis using ctor_panic(1) [OF at k] by (auto elim!: exec_create_panic)
  next
    case (OpEntryProp n pc)
    with ex show ?thesis using ctor_panic(2) [OF at k] by (auto elim!: exec_create_panic)
  next
    case (OpContinued snap)
    with ex show ?thesis
      by (auto simp: continued_def upgrade_tracer_def weak_tracer_def Let_def split: ctx_slot.splits if_splits)
  next
    case (OpSpanDrop i)
    with ex show ?thesis using span_drop_panic [of cfg now i w w' p] by auto
  next
    case (OpPrepare i)
    with ex k show ?thesis using prepare_panic [OF inv, of cfg now i] by auto
  next
    case (OpAsyncDrop i)
    with ex show ?thesis using async_drop_panic [OF inv] by auto
  next
    case OpWaitDone
    with ex show ?thesis using wait_done_panic [OF rep acc inv] by blast
  next
    case OpCtxDrop
    then obtain tc where "exec_ctx_drop report tc w = (w', Inl p)" using ex by (auto split: ctx_slot.splits)
    with ctx_drop_panic [OF rep acc inv] OpCtxDrop show ?thesis by auto
  qed (use ex handle_panic [OF inv] in \<open>auto split: ctx_slot.splits if_splits\<close>)
qed

section \<open>After the context is gone\<close>

lemma trace_exec_gone:
  assumes "w_ctx w = Gone" and "trace_exec report cfg now oper w = Some (w', r)"
  shows "w_ctx w' = Gone \<and> w_reporter w' = w_reporter w"
  using assms
  by (cases oper)
    (auto simp: exec_create_def exec_on_span_def exec_on_async_def exec_span_drop_def
      exec_prepare_def exec_async_drop_def Let_def split: if_splits prod.splits sum.splits)

lemma nothing_is_reported_after_the_context:
  assumes "w_ctx w = Gone" and "trace_run report cfg ops w = Some w'"
  shows "w_ctx w' = Gone \<and> w_reporter w' = w_reporter w"
  using assms
proof (induction ops arbitrary: w)
  case (Cons t ops)
  obtain now oper where t: "t = (now, oper)" by fastforce
  with Cons.prems obtain w1 where w1: "trace_exec report cfg now oper w = Some (w1, Inr ())"
      "trace_run report cfg ops w1 = Some w'"
    by (auto split: option.splits sum.splits)
  with trace_exec_gone [OF Cons.prems(1) w1(1)] Cons.IH [of w1] show ?case by auto
qed simp

section \<open>Property\<close>

text \<open>
  C5. Spans that are open when their context goes are lost, and no others.  When the context is
  dropped without a panic, directly or at the end of \<open>wait\<close>, with whatever span guards still alive,
  one segment is reported; the \<open>k\<close> spans that were created are, each once, those of the segment and
  those whose guards are still alive; and whatever is done with these guards afterwards, nothing more
  reaches the reporter, so that the open spans are in no segment at all.
\<close>

theorem spans_open_at_the_drop_are_lost:
  assumes rep: "reporter report delivered accepting" and acc: "accepting (w_reporter w)"
    and reach: "trace_reach report cfg k w" and k: "k < 2 ^ 31"
    and oper: "oper = OpCtxDrop \<or> oper = OpWaitDone"
    and ex: "trace_exec report cfg now oper w = Some (w', Inr ())"
    and later: "trace_run report cfg ops w' = Some w''"
  shows "\<exists>seg. delivered (w_reporter w'') = delivered (w_reporter w) @ [Trace seg] \<and>
    mset (map (\<lambda>s. sint (span_id s)) (seg_spans seg)) + mset (map guard_id (w_spans w)) = mset (map int [0..<k])"
proof -
  let ?st = "sh_stack (w_shared w)"
  have inv: "trace_inv k w" using reach k by (rule trace_reach_inv)
  obtain tc where tc: "exec_ctx_drop report tc w = (w', Inr ())" "w_ctx w = Live tc \<or> w_ctx w = Waiting tc"
    using oper ex by (auto simp: unwind_def split: ctx_slot.splits sum.splits if_splits)
  have st: "stack_inv k ?st (w_spans w) (w_asyncs w)" and uids: "unat ` uids_of ?st = {0..<k}"
    using inv tc(2) by (elim disjE; simp add: trace_inv_def ctx_inv_def)+
  obtain spans where spans: "map fs_obj (finalized ?st) = map Some spans"
      "delivered (w_reporter w') = delivered (w_reporter w) @ [Trace (segment_of tc spans)]"
    using reporter.exec_ctx_drop_ok [OF rep acc tc(1)] by auto
  have "w_ctx w' = Gone" using tc(1) by (auto simp: exec_ctx_drop_def split: prod.splits)
  from nothing_is_reported_after_the_context [OF this later] spans finalized_and_open_ids [OF st k uids, of spans]
  show ?thesis by (auto simp: segment_of_def)
qed

text \<open>Of three spans the innermost is closed before the drop; the guards of the other two are dropped
  afterwards.\<close>

theorem spans_open_at_the_drop_are_lost_witness:
  "\<exists>w w' w'' seg. sample_run [OpEntry ''a'', OpLocal ''b'', OpLocal ''c'', OpSpanDrop 2] = Some w \<and>
     sample_exec OpCtxDrop w = Some (w', Inr ()) \<and>
     trace_run PrintReporter_report dev_build [(0, OpSpanDrop 1), (0, OpSpanDrop 0)] w' = Some w'' \<and>
     printed (w_reporter w'') = [Trace seg] \<and>
     mset (map (\<lambda>s. sint (span_id s)) (seg_spans seg)) + {#0, 1#} = {#0, 1, 2#}"
proof -
  let ?ops = "[OpEntry ''a'', OpLocal ''b'', OpLocal ''c'', OpSpanDrop 2]"
  let ?later = "[(0, OpSpanDrop 1), (0, OpSpanDrop 0)]"
  have "case sample_run ?ops of None \<Rightarrow> False
    | Some w \<Rightarrow> map guard_id (w_spans w) = [0, 1] \<and> printed (w_reporter w) = [] \<and>
        (case sample_exec OpCtxDrop w of
           Some (w', r) \<Rightarrow> r = Inr () \<and> trace_run PrintReporter_report dev_build ?later w' \<noteq> None | None \<Rightarrow> False)"
    by code_simp
  then obtain w w' w'' where w: "sample_run ?ops = Some w" "map guard_id (w_spans w) = [0, 1]"
      "printed (w_reporter w) = []" "sample_exec OpCtxDrop w = Some (w', Inr ())"
      "trace_run PrintReporter_report dev_build ?later w' = Some w''"
    by (auto split: option.splits)
  have "trace_reach PrintReporter_report dev_build 3 w" using sample_run_reach [OF w(1)] by (simp add: eval_nat_numeral)
  from spans_open_at_the_drop_are_lost [OF print.reporter_axioms TrueI this _ _ w(4,5)] w(2,3) obtain seg where
    "printed (w_reporter w'') = [Trace seg]"
    "mset (map (\<lambda>s. sint (span_id s)) (seg_spans seg)) + mset [0, 1] = mset (map int [0..<3])" by auto
  moreover have "[0..<3] = [0, 1, 2]" by (simp add: upt_rec)
  ultimately show ?thesis using w(1,4,5) by (auto simp: add_mset_commute)
qed

end
