(* ===== verification/Base64.thy ===== *)
theory Base64
  imports Rust_Std
begin

text \<open>
  The header codec goes through the \<open>base64\<close> crate's \<open>BASE64_STANDARD\<close> engine, which is not part of
  the repository.  The locale states what the crate documents of it and what the codec needs; the
  engine is a parameter of the codec.  An executable rendering of RFC 4648, section 4 (the
  alphabet, the canonical padding and the rejection of stray trailing bits that \<open>STANDARD\<close> asks for)
  is an instance, and runs the witnesses.
\<close>

section \<open>The interface\<close>

record base64_engine =
  b64_encode :: "bytes \<Rightarrow> string"
  b64_decode :: "string \<Rightarrow> bytes option"

locale base64 =
  fixes engine :: base64_engine
  assumes decode_encode: "b64_decode engine (b64_encode engine bs) = Some bs"
    and encode_no_dash: "CHR ''-'' \<notin> set (b64_encode engine bs)"

section \<open>RFC 4648\<close>

definition b64_char :: "nat \<Rightarrow> char" where
  "b64_char n =
     (if n < 26 then char_of (65 + n) else if n < 52 then char_of (71 + n)
      else if n < 62 then char_of (n - 4) else if n = 62 then CHR ''+'' else CHR ''/'')"

definition b64_val :: "char \<Rightarrow> nat option" where
  "b64_val c =
     (let k = of_char c in
      if 65 \<le> k \<and> k \<le> 90 then Some (k - 65) else if 97 \<le> k \<and> k \<le> 122 then Some (k - 71)
      else if 48 \<le> k \<and> k \<le> 57 then Some (k + 4) else if k = 43 then Some 62
      else if k = 47 then Some 63 else None)"

fun rfc4648_encode :: "bytes \<Rightarrow> string" where
  "rfc4648_encode [] = []"
| "rfc4648_encode [x] =
     (let a = of_char x in [b64_char (a div 4), b64_char (a mod 4 * 16), CHR ''='', CHR ''=''])"
| "rfc4648_encode [x, y] =
     (let a = of_char x; b = of_char y in
      [b64_char (a div 4), b64_char (a mod 4 * 16 + b div 16), b64_char (b mod 16 * 4), CHR ''=''])"
| "rfc4648_encode (x # y # z # r) =
     (let a = of_char x; b = of_char y; c = of_char z in
      [b64_char (a div 4), b64_char (a mod 4 * 16 + b div 16), b64_char (b mod 16 * 4 + c div 64),
       b64_char (c mod 64)] @ rfc4648_encode r)"

text \<open>One quantum of four symbols; a padded one must be the last and carry no stray bits.\<close>

definition b64_one :: "char \<Rightarrow> char \<Rightarrow> bytes option" where
  "b64_one p q =
     (case (b64_val p, b64_val q) of
        (Some i, Some j) \<Rightarrow> if j mod 16 = 0 then Some [char_of (i * 4 + j div 16)] else None
      | _ \<Rightarrow> None)"

definition b64_two :: "char \<Rightarrow> char \<Rightarrow> char \<Rightarrow> bytes option" where
  "b64_two p q s =
     (case (b64_val p, b64_val q, b64_val s) of
        (Some i, Some j, Some k) \<Rightarrow>
          if k mod 4 = 0 then Some [char_of (i * 4 + j div 16), char_of (j mod 16 * 16 + k div 4)]
          else None
      | _ \<Rightarrow> None)"

definition b64_three :: "char \<Rightarrow> char \<Rightarrow> char \<Rightarrow> char \<Rightarrow> bytes option" where
  "b64_three p q s t =
     (case (b64_val p, b64_val q, b64_val s, b64_val t) of
        (Some i, Some j, Some k, Some l) \<Rightarrow>
          Some [char_of (i * 4 + j div 16), char_of (j mod 16 * 16 + k div 4),
                char_of (k mod 4 * 64 + l)]
      | _ \<Rightarrow> None)"

fun rfc4648_decode :: "string \<Rightarrow> bytes option" where
  "rfc4648_decode [] = Some []"
| "rfc4648_decode (p # q # s # t # r) =
     (if t = CHR ''='' then
        if r \<noteq> [] then None else if s = CHR ''='' then b64_one p q else b64_two p q s
      else
        (case (b64_three p q s t, rfc4648_decode r) of
           (Some bs, Some bs') \<Rightarrow> Some (bs @ bs') | _ \<Rightarrow> None))"
| "rfc4648_decode _ = None"

lemma b64_val_char:
  assumes "n < 64"
  shows "b64_val (b64_char n) = Some n"
  using assms by (auto simp: b64_val_def b64_char_def of_char_of Let_def)

lemma b64_char_not_special:
  assumes "n < 64"
  shows "b64_char n \<noteq> CHR ''=''" and "b64_char n \<noteq> CHR ''-''"
  using b64_val_char [OF assms] by (auto simp: b64_val_def)

lemma of_char_lt_256: "of_char c < (256 :: nat)"
  using of_char_mod_256 [of c, where 'a = nat] by (metis mod_less_divisor zero_less_numeral)

lemma char_of_eq: "n = of_char c \<Longrightarrow> char_of (n :: nat) = c"
  by simp

lemma b64_sextets:
  fixes a b c :: nat
  assumes "a < 256" and "b < 256" and "c < 256"
  shows "a div 4 < 64" "a mod 4 * 16 + b div 16 < 64" "b mod 16 * 4 + c div 64 < 64"
    "a mod 4 * 16 < 64" "b mod 16 * 4 < 64" "c mod 64 < 64"
  using assms by linarith+

lemma b64_octets:
  fixes a b c :: nat
  assumes "b < 256" and "c < 256"
  shows "a div 4 * 4 + (a mod 4 * 16 + b div 16) div 16 = a"
    and "(a mod 4 * 16 + b div 16) mod 16 * 16 + (b mod 16 * 4 + c div 64) div 4 = b"
    and "(b mod 16 * 4 + c div 64) mod 4 * 64 + c mod 64 = c"
proof -
  have lt: "b div 16 < 16" "c div 64 < 4" using assms by linarith+
  show "a div 4 * 4 + (a mod 4 * 16 + b div 16) div 16 = a"
    by (simp only: pack_div_mod [OF lt(1)] div_mult_mod_eq)
  show "(a mod 4 * 16 + b div 16) mod 16 * 16 + (b mod 16 * 4 + c div 64) div 4 = b"
    by (simp only: pack_div_mod [OF lt(1)] pack_div_mod [OF lt(2)] div_mult_mod_eq)
  show "(b mod 16 * 4 + c div 64) mod 4 * 64 + c mod 64 = c"
    by (simp only: pack_div_mod [OF lt(2)] div_mult_mod_eq)
qed

lemma rfc4648_roundtrip: "rfc4648_decode (rfc4648_encode bs) = Some bs"
proof (induction bs rule: rfc4648_encode.induct)
  case 1
  show ?case by simp
next
  case (2 x)
  note lt = b64_sextets [OF of_char_lt_256 [of x] of_char_lt_256 [of x] of_char_lt_256 [of x]]
  have "a div 4 * 4 + a mod 4 * 16 div 16 = (a :: nat)" for a by presburger
  with lt show ?case
    by (simp add: Let_def b64_one_def b64_val_char)
next
  case (3 x y)
  note lt = b64_sextets [OF of_char_lt_256 [of x] of_char_lt_256 [of y] of_char_lt_256 [of y]]
  have eqs: "of_char x div 4 * 4 + (of_char x mod 4 * 16 + of_char y div 16) div 16 = (of_char x :: nat)"
    "(of_char x mod 4 * 16 + of_char y div 16) mod 16 * 16 + of_char y mod 16 * 4 div 4 = (of_char y :: nat)"
    using b64_octets(1) [of "of_char y" 0 "of_char x"] b64_octets(2) [of "of_char y" 0 "of_char x"]
      of_char_lt_256 [of y] by (simp_all only: zero_less_numeral div_0 add_0_right simp_thms)
  have "b64_two (b64_char (of_char x div 4)) (b64_char (of_char x mod 4 * 16 + of_char y div 16))
      (b64_char (of_char y mod 16 * 4)) = Some [x, y]"
    unfolding b64_two_def b64_val_char [OF lt(1)] b64_val_char [OF lt(2)] b64_val_char [OF lt(5)]
      prod.case option.case eqs by simp
  with lt show ?case
    by (simp add: Let_def b64_char_not_special)
next
  case (4 x y z r)
  note lt = b64_sextets [OF of_char_lt_256 [of x] of_char_lt_256 [of y] of_char_lt_256 [of z]]
  note eqs = b64_octets [OF of_char_lt_256 [of y] of_char_lt_256 [of z]]
  have "b64_three (b64_char (of_char x div 4)) (b64_char (of_char x mod 4 * 16 + of_char y div 16))
      (b64_char (of_char y mod 16 * 4 + of_char z div 64)) (b64_char (of_char z mod 64)) = Some [x, y, z]"
    unfolding b64_three_def b64_val_char [OF lt(1)] b64_val_char [OF lt(2)] b64_val_char [OF lt(3)]
      b64_val_char [OF lt(6)] prod.case option.case eqs by simp
  with 4 lt show ?case
    by (simp add: Let_def b64_char_not_special)
qed

lemma rfc4648_no_dash: "CHR ''-'' \<notin> set (rfc4648_encode bs)"
proof (induction bs rule: rfc4648_encode.induct)
  case (2 x)
  note lt = b64_sextets [OF of_char_lt_256 [of x] of_char_lt_256 [of x] of_char_lt_256 [of x]]
  from lt [THEN b64_char_not_special(2)] show ?case by (auto simp: Let_def)
next
  case (3 x y)
  note lt = b64_sextets [OF of_char_lt_256 [of x] of_char_lt_256 [of y] of_char_lt_256 [of y]]
  from lt [THEN b64_char_not_special(2)] show ?case by (auto simp: Let_def)
next
  case (4 x y z r)
  note lt = b64_sextets [OF of_char_lt_256 [of x] of_char_lt_256 [of y] of_char_lt_256 [of z]]
  from lt [THEN b64_char_not_special(2)] 4 show ?case by (auto simp: Let_def)
qed simp

definition rfc4648 :: base64_engine where
  "rfc4648 = \<lparr>b64_encode = rfc4648_encode, b64_decode = rfc4648_decode\<rparr>"

interpretation rfc4648: base64 rfc4648
  by unfold_locales (simp_all add: rfc4648_def rfc4648_roundtrip rfc4648_no_dash)

end
