(* ===== verification/Errors.thy ===== *)
theory Errors
  imports Rust_Std
begin

text \<open>
  \<^verbatim>\<open>src/src/error/mod.rs\<close> and the error type of \<^verbatim>\<open>src/src/reporter/kafka.rs\<close>.  Errors of other
  crates (\<open>tonic\<close>, \<open>tokio\<close>, \<open>rdkafka\<close>, a boxed error of a user) enter as the text their \<open>Display\<close>
  prints, which is all the crate does with them.
\<close>

definition LOCK_MSG :: string where
  "LOCK_MSG = ''should not cross threads/coroutines (locked)''"

datatype KafkaError = RdKafka string | TopicNotFound string

fun KafkaError_display :: "KafkaError \<Rightarrow> string" where
  "KafkaError_display (RdKafka e) = e"
| "KafkaError_display (TopicNotFound topic) = ''topic not found: '' @ topic"

datatype Error =
    DecodePropagation string
  | ReporterShutdown string
  | TonicTransport string
  | TonicStatus string
  | TokioJoin string
  | KafkaReporter KafkaError
  | Other string

fun Error_display :: "Error \<Rightarrow> string" where
  "Error_display (DecodePropagation m) = ''decode propagation failed: '' @ m"
| "Error_display (ReporterShutdown m) = ''reporter shutdown failed: '' @ m"
| "Error_display (TonicTransport e) = ''tonic transport failed: '' @ e"
| "Error_display (TonicStatus e) = ''tonic status: '' @ e"
| "Error_display (TokioJoin e) = ''tokio join failed: '' @ e"
| "Error_display (KafkaReporter e) = ''kafka reporter failed: '' @ KafkaError_display e"
| "Error_display (Other e) = e"

text \<open>\<open>crate::Result\<close>, and the \<open>?\<close> operator on it.\<close>

type_synonym 'a sw_result = "Error + 'a"

definition and_then :: "'e + 'a \<Rightarrow> ('a \<Rightarrow> 'e + 'b) \<Rightarrow> 'e + 'b" where
  "and_then r f = (case r of Inl e \<Rightarrow> Inl e | Inr x \<Rightarrow> f x)"

lemma and_then_simps [simp]:
  "and_then (Inl e) f = Inl e"
  "and_then (Inr x) f = f x"
  by (simp_all add: and_then_def)

lemma and_then_eq_Inr:
  "and_then r f = Inr y \<longleftrightarrow> (\<exists>x. r = Inr x \<and> f x = Inr y)"
  by (cases r) auto

end
