(* ===== verification/Propagation.thy ===== *)
theory Propagation
  imports Base64 Errors Tracing_Context
begin

text \<open>
  \<^verbatim>\<open>src/src/trace/propagation/encoder.rs\<close> and \<^verbatim>\<open>decoder.rs\<close>: the \<open>sw8\<close> header, and what the two ways
  of continuing a trace (a request that carries the header, a snapshot handed to another thread)
  make of the context that receives them.
\<close>

section \<open>The encoder\<close>

definition encode_propagation ::
  "base64_engine \<Rightarrow> TracingContext \<times> SpanStack \<Rightarrow> string \<Rightarrow> string \<Rightarrow> string" where
  "encode_propagation engine cs endpoint address =
     (case cs of (tc, st) \<Rightarrow>
        ''1-'' @ b64_encode engine (tc_trace_id tc) @ ''-'' @
        b64_encode engine (tc_trace_segment_id tc) @ ''-'' @
        i32_to_string (case peek_active_span_id st of Some i \<Rightarrow> i | None \<Rightarrow> 0) @ ''-'' @
        b64_encode engine (tc_service tc) @ ''-'' @
        b64_encode engine (tc_service_instance tc) @ ''-'' @
        b64_encode engine endpoint @ ''-'' @
        b64_encode engine address)"

section \<open>The decoder\<close>

definition try_parse_sample_status :: "string \<Rightarrow> bool sw_result" where
  "try_parse_sample_status status =
     (if status = ''0'' then Inr False
      else if status = ''1'' then Inr True
      else Inl (DecodePropagation ''failed to parse sample status.''))"

definition try_parse_parent_span_id :: "string \<Rightarrow> i32 sw_result" where
  "try_parse_parent_span_id i =
     (case parse_i32 i of
        Some result \<Rightarrow> Inr result
      | None \<Rightarrow> Inl (DecodePropagation ''failed to parse span id from parent.''))"

definition b64_encoded_into_string :: "base64_engine \<Rightarrow> string \<Rightarrow> string sw_result" where
  "b64_encoded_into_string engine enc =
     (case b64_decode engine enc of
        Some result \<Rightarrow>
          (case from_utf8 result of
             Some decoded_str \<Rightarrow> Inr decoded_str
           | None \<Rightarrow> Inl (DecodePropagation ''failed to decode value.''))
      | None \<Rightarrow> Inl (DecodePropagation ''failed to decode value.''))"

definition decode_propagation :: "base64_engine \<Rightarrow> string \<Rightarrow> PropagationContext sw_result" where
  "decode_propagation engine header_value =
     (let pieces = str_split (CHR ''-'') header_value in
      if length pieces \<noteq> 8 then
        Inl (DecodePropagation ''failed to parse propagation context: it must have 8 properties.'')
      else
        and_then (try_parse_sample_status (pieces ! 0)) (\<lambda>sample.
        and_then (b64_encoded_into_string engine (pieces ! 1)) (\<lambda>tid.
        and_then (b64_encoded_into_string engine (pieces ! 2)) (\<lambda>seg.
        and_then (try_parse_parent_span_id (pieces ! 3)) (\<lambda>sid.
        and_then (b64_encoded_into_string engine (pieces ! 4)) (\<lambda>srv.
        and_then (b64_encoded_into_string engine (pieces ! 5)) (\<lambda>inst.
        and_then (b64_encoded_into_string engine (pieces ! 6)) (\<lambda>endpoint.
        and_then (b64_encoded_into_string engine (pieces ! 7)) (\<lambda>address.
          Inr (PropagationContext_new sample tid seg sid srv inst endpoint address))))))))))"

section \<open>Lemmas\<close>

text \<open>The strings of a context are Rust strings.\<close>

definition ctx_utf8 :: "TracingContext \<Rightarrow> bool" where
  "ctx_utf8 tc \<longleftrightarrow> utf8_valid (tc_trace_id tc) \<and> utf8_valid (tc_trace_segment_id tc) \<and>
     utf8_valid (tc_service tc) \<and> utf8_valid (tc_service_instance tc)"

definition header_span_id :: "SpanStack \<Rightarrow> i32" where
  "header_span_id st = (case peek_active_span_id st of Some i \<Rightarrow> i | None \<Rightarrow> 0)"

context base64
begin

lemma b64_string_roundtrip:
  "utf8_valid s \<Longrightarrow> b64_encoded_into_string engine (b64_encode engine s) = Inr s"
  by (simp add: b64_encoded_into_string_def decode_encode from_utf8_def)

lemma split_header:
  assumes "0 \<le> sint (header_span_id st)"
  shows "str_split (CHR ''-'') (encode_propagation engine (tc, st) endpoint address) =
    [''1'', b64_encode engine (tc_trace_id tc), b64_encode engine (tc_trace_segment_id tc),
     i32_to_string (header_span_id st), b64_encode engine (tc_service tc),
     b64_encode engine (tc_service_instance tc), b64_encode engine endpoint,
     b64_encode engine address]"
  using encode_no_dash i32_to_string_no_minus [OF assms]
  by (simp add: encode_propagation_def header_span_id_def [symmetric] str_split_piece)

lemma decode_encoded_header:
  assumes "ctx_utf8 tc" and "utf8_valid endpoint" and "utf8_valid address"
    and "0 \<le> sint (header_span_id st)"
  shows "decode_propagation engine (encode_propagation engine (tc, st) endpoint address) =
    Inr (PropagationContext_new True (tc_trace_id tc) (tc_trace_segment_id tc) (header_span_id st)
           (tc_service tc) (tc_service_instance tc) endpoint address)"
  using assms
  by (simp add: decode_propagation_def split_header try_parse_sample_status_def
      try_parse_parent_span_id_def parse_i32_to_string b64_string_roundtrip ctx_utf8_def Let_def)

lemma count_dashes_encode [simp]: "count_list (b64_encode engine s) (CHR ''-'') = 0"
  using encode_no_dash by (simp add: count_list_0_iff)

lemma negative_header_dashes:
  assumes "sint (header_span_id st) < 0"
  shows "count_list (encode_propagation engine (tc, st) endpoint address) (CHR ''-'') = 8"
proof -
  have "count_list (i32_to_string (header_span_id st)) (CHR ''-'') = 1"
    using assms show_nat_no_sign(1)
    by (simp add: i32_to_string_def show_int_def count_list_0_iff)
  then show ?thesis
    by (simp add: encode_propagation_def header_span_id_def [symmetric])
qed

end

lemma decode_wrong_count:
  assumes "count_list h (CHR ''-'') \<noteq> 7"
  shows "decode_propagation engine h =
    Inl (DecodePropagation ''failed to parse propagation context: it must have 8 properties.'')"
  using assms by (simp add: decode_propagation_def length_str_split Let_def)

lemma b64_string_valid: "b64_encoded_into_string engine s = Inr t \<Longrightarrow> utf8_valid t"
  by (auto simp: b64_encoded_into_string_def from_utf8_def split: option.splits if_splits)

lemma b64_string_error:
  "b64_encoded_into_string engine s = Inl e \<Longrightarrow> e = DecodePropagation ''failed to decode value.''"
  by (auto simp: b64_encoded_into_string_def split: option.splits)

text \<open>Exactly the pieces that are base64 of well-formed UTF-8 are accepted.\<close>

lemma b64_string_iff:
  "b64_encoded_into_string engine x = Inr t \<longleftrightarrow> b64_decode engine x = Some t \<and> utf8_valid t"
  by (auto simp: b64_encoded_into_string_def from_utf8_def split: option.splits)

section \<open>Properties\<close>

text \<open>C21. The \<open>sw8\<close> header round trip: for every engine that satisfies the base64 contract, what
  \<open>encode_propagation\<close> writes for a context whose active span has a non-negative number,
  \<open>decode_propagation\<close> reads back as exactly that context's trace id, segment id, active span id
  (0 when there is none), service, instance, endpoint and address, with sampling on.\<close>

theorem sw8_header_roundtrip:
  assumes "base64 engine" and "ctx_utf8 tc" and "utf8_valid endpoint" and "utf8_valid address"
    and "0 \<le> sint (header_span_id st)"
  shows "decode_propagation engine (encode_propagation engine (tc, st) endpoint address) =
    Inr (PropagationContext_new True (tc_trace_id tc) (tc_trace_segment_id tc) (header_span_id st)
           (tc_service tc) (tc_service_instance tc) endpoint address)"
  using assms(1) [THEN base64.decode_encoded_header] assms(2-) by blast

definition header_ctx :: TracingContext where
  "header_ctx = (TracingContext_new 1 5 ''mesh'' ''instance'')\<lparr>tc_next_span_id := 4\<rparr>"

definition header_stack :: "i32 \<Rightarrow> SpanStack" where
  "header_stack i = \<lparr>finalized = [], active = [ActiveSpan_new 3 i]\<rparr>"

lemma header_ctx_utf8: "ctx_utf8 header_ctx"
  by code_simp

theorem sw8_header_roundtrip_witness:
  "encode_propagation rfc4648 (header_ctx, header_stack 3) ''/api/v1/health'' ''example.com:8080'' =
     ''1-MQ==-NQ==-3-bWVzaA==-aW5zdGFuY2U=-L2FwaS92MS9oZWFsdGg=-ZXhhbXBsZS5jb206ODA4MA=='' \<and>
   decode_propagation rfc4648
     (encode_propagation rfc4648 (header_ctx, header_stack 3) ''/api/v1/health'' ''example.com:8080'') =
     Inr (PropagationContext_new True (tc_trace_id header_ctx) (tc_trace_segment_id header_ctx)
       (header_span_id (header_stack 3)) (tc_service header_ctx) (tc_service_instance header_ctx)
       ''/api/v1/health'' ''example.com:8080'')"
proof
  show "encode_propagation rfc4648 (header_ctx, header_stack 3) ''/api/v1/health'' ''example.com:8080'' =
     ''1-MQ==-NQ==-3-bWVzaA==-aW5zdGFuY2U=-L2FwaS92MS9oZWFsdGg=-ZXhhbXBsZS5jb206ODA4MA==''"
    by code_simp
  show "decode_propagation rfc4648
     (encode_propagation rfc4648 (header_ctx, header_stack 3) ''/api/v1/health'' ''example.com:8080'') =
     Inr (PropagationContext_new True (tc_trace_id header_ctx) (tc_trace_segment_id header_ctx)
       (header_span_id (header_stack 3)) (tc_service header_ctx) (tc_service_instance header_ctx)
       ''/api/v1/health'' ''example.com:8080'')"
    by (rule sw8_header_roundtrip [OF rfc4648.base64_axioms header_ctx_utf8]; code_simp)
qed


text \<open>C32. What the decoder accepts, exactly: a header is decoded to \<open>p\<close> if and only if it has eight
  dash-separated pieces, the first is the sampling flag, the fourth parses as the span id, and each of the
  other six is decoded by the base64 engine to bytes that are well-formed UTF-8 and are that string field
  of \<open>p\<close>; a header has the wrong number of pieces if and only if it is rejected with the message for that,
  and every other one that is not accepted is rejected with one of the three other messages of the
  source, without a panic.\<close>

theorem decode_propagation_accepts_exactly:
  "(decode_propagation engine h = Inr p \<longleftrightarrow>
      (\<exists>x1 x2 x3 x4 x5 x6 x7.
         str_split (CHR ''-'') h = [if do_sample p then ''1'' else ''0'', x1, x2, x3, x4, x5, x6, x7] \<and>
         b64_decode engine x1 = Some (pc_parent_trace_id p) \<and> utf8_valid (pc_parent_trace_id p) \<and>
         b64_decode engine x2 = Some (pc_parent_trace_segment_id p) \<and> utf8_valid (pc_parent_trace_segment_id p) \<and>
         parse_i32 x3 = Some (pc_parent_span_id p) \<and>
         b64_decode engine x4 = Some (pc_parent_service p) \<and> utf8_valid (pc_parent_service p) \<and>
         b64_decode engine x5 = Some (pc_parent_service_instance p) \<and> utf8_valid (pc_parent_service_instance p) \<and>
         b64_decode engine x6 = Some (destination_endpoint p) \<and> utf8_valid (destination_endpoint p) \<and>
         b64_decode engine x7 = Some (destination_address p) \<and> utf8_valid (destination_address p))) \<and>
   (length (str_split (CHR ''-'') h) \<noteq> 8 \<longleftrightarrow>
      decode_propagation engine h = Inl (DecodePropagation ''failed to parse propagation context: it must have 8 properties.'')) \<and>
   decode_propagation engine h \<in> range Inr \<union> Inl ` DecodePropagation `
      {''failed to parse propagation context: it must have 8 properties.'',
       ''failed to parse sample status.'', ''failed to decode value.'',
       ''failed to parse span id from parent.''}"
proof (cases "length (str_split (CHR ''-'') h) = 8")
  case False
  then have "decode_propagation engine h =
    Inl (DecodePropagation ''failed to parse propagation context: it must have 8 properties.'')"
    by (simp add: decode_propagation_def Let_def)
  with False show ?thesis by auto
next
  case True
  then obtain x0 x1 x2 x3 x4 x5 x6 x7 where
    sp: "str_split (CHR ''-'') h = [x0, x1, x2, x3, x4, x5, x6, x7]"
    by (auto simp: length_Suc_conv numeral_eq_Suc)
  have sample: "try_parse_sample_status x0 = Inr b \<longleftrightarrow> x0 = (if b then ''1'' else ''0'')" for b
    by (auto simp: try_parse_sample_status_def)
  have sid: "try_parse_parent_span_id x3 = Inr i \<longleftrightarrow> parse_i32 x3 = Some i" for i
    by (auto simp: try_parse_parent_span_id_def split: option.splits)
  have "decode_propagation engine h = Inr p \<longleftrightarrow>
      x0 = (if do_sample p then ''1'' else ''0'') \<and>
      b64_encoded_into_string engine x1 = Inr (pc_parent_trace_id p) \<and>
      b64_encoded_into_string engine x2 = Inr (pc_parent_trace_segment_id p) \<and>
      parse_i32 x3 = Some (pc_parent_span_id p) \<and>
      b64_encoded_into_string engine x4 = Inr (pc_parent_service p) \<and>
      b64_encoded_into_string engine x5 = Inr (pc_parent_service_instance p) \<and>
      b64_encoded_into_string engine x6 = Inr (destination_endpoint p) \<and>
      b64_encoded_into_string engine x7 = Inr (destination_address p)"
    by (cases p)
      (auto simp: decode_propagation_def sp and_then_eq_Inr sample sid PropagationContext_new_def Let_def)
  moreover have "decode_propagation engine h \<in> range Inr \<union> Inl ` DecodePropagation `
      {''failed to parse sample status.'', ''failed to decode value.'', ''failed to parse span id from parent.''}"
    by (auto simp: decode_propagation_def sp Let_def and_then_def try_parse_sample_status_def
        try_parse_parent_span_id_def dest: b64_string_error split: sum.splits option.splits if_splits)
  ultimately show ?thesis by (auto simp: sp b64_string_iff)
qed

text \<open>C40. A span id that wrapped below zero (a release build, after \<open>2 ^ 31\<close> spans of one context)
  puts a ninth piece into the header: the peer rejects it and the trace breaks there.\<close>

theorem negative_span_id_breaks_the_header:
  assumes "base64 engine" and "sint (header_span_id st) < 0"
  shows "decode_propagation engine (encode_propagation engine (tc, st) endpoint address) =
    Inl (DecodePropagation ''failed to parse propagation context: it must have 8 properties.'')"
  by (rule decode_wrong_count) (simp add: base64.negative_header_dashes [OF assms])

text \<open>The witness numbers a span in a release build whose counter has reached the last \<open>i32\<close>.\<close>

definition release_build :: build where
  "release_build = \<lparr>overflow_checks = False, mock = False\<rparr>"

definition wrapped_world :: "(TracingContext \<times> SpanStack, Span) outcome" where
  "wrapped_world =
     (let tc = (TracingContext_new 1 5 ''mesh'' ''instance'')\<lparr>tc_next_span_id := 2147483647\<rparr>;
          (cs, _) = create_entry_span release_build 0 ''a'' (tc, SpanStack_default)
      in create_entry_span release_build 0 ''b'' cs)"

lemma wrapped_world_ok: "is_ok (snd wrapped_world)"
  and wrapped_world_id: "header_span_id (snd (fst wrapped_world)) = 2147483648"
  by (simp_all add: wrapped_world_def create_entry_span_def create_span_def inc_next_span_id_def
      add_i32_def release_build_def TracingContext_new_def push_active_span_def generate_span_uid_def
      header_span_id_def peek_active_span_id_def active_span_def ActiveSpan_new_def Span_new_obj_def
      SpanStack_default_def last_opt_def Let_def)

theorem negative_span_id_breaks_the_header_witness:
  "is_ok (snd wrapped_world) \<and>
   decode_propagation rfc4648 (encode_propagation rfc4648
       (fst (fst wrapped_world), snd (fst wrapped_world)) ''/e'' ''host'') =
     Inl (DecodePropagation ''failed to parse propagation context: it must have 8 properties.'')"
proof
  show "is_ok (snd wrapped_world)" by (rule wrapped_world_ok)
  have "sint (header_span_id (snd (fst wrapped_world))) < 0" by (simp add: wrapped_world_id)
  then show "decode_propagation rfc4648 (encode_propagation rfc4648
       (fst (fst wrapped_world), snd (fst wrapped_world)) ''/e'' ''host'') =
     Inl (DecodePropagation ''failed to parse propagation context: it must have 8 properties.'')"
    by (rule negative_span_id_breaks_the_header [OF rfc4648.base64_axioms])
qed

text \<open>C22. A trace crosses processes: the header a caller writes while span \<open>a\<close> is active, decoded by
  the callee and given to \<open>create_entry_span_with_propagation\<close>, moves the callee's context into the
  caller's trace (its own segment id kept) and opens an entry span with exactly one reference, which
  names the caller's trace, segment, active span, service and instance and the endpoint and address
  of the call.\<close>

theorem trace_crosses_processes:
  assumes "base64 engine" and "ctx_utf8 tc1" and "utf8_valid endpoint" and "utf8_valid address"
    and "active st1 = as @ [a]" and "0 \<le> sint (as_span_id a)"
    and "ctx_at k tc2" and "Suc k < 2 ^ 31"
  shows "\<exists>p tc2' st2' sp ob.
    decode_propagation engine (encode_propagation engine (tc1, st1) endpoint address) = Inr p \<and>
    create_entry_span_with_propagation cfg now opname p (tc2, st2) = ((tc2', st2'), Inr sp) \<and>
    tc_trace_id tc2' = tc_trace_id tc1 \<and> tc_trace_segment_id tc2' = tc_trace_segment_id tc2 \<and>
    sp_obj sp = Some ob \<and> span_type ob = Entry \<and> peek_active_span_id st2' = Some (span_id ob) \<and>
    refs ob = [\<lparr>ref_type = CrossProcess, ref_trace_id = tc_trace_id tc1,
      parent_trace_segment_id = tc_trace_segment_id tc1, ref_parent_span_id = as_span_id a,
      parent_service = tc_service tc1, parent_service_instance = tc_service_instance tc1,
      parent_endpoint = endpoint, network_address_used_at_peer = address\<rparr>]"
proof -
  have id: "header_span_id st1 = as_span_id a"
    using assms(5) by (simp add: header_span_id_def peek_active_span_id_def active_span_def)
  show ?thesis
    using base64.decode_encoded_header [OF assms(1-4), of st1] assms(6)
      create_entry_span_with_propagation_at [OF assms(7,8)]
    by (simp add: id propagation_ref_def PropagationContext_new_def Span_new_def
        peek_active_span_id_def active_span_def ActiveSpan_new_def)
qed

theorem trace_crosses_processes_witness:
  "\<exists>p tc2' st2' sp ob.
    decode_propagation rfc4648 (encode_propagation rfc4648 (header_ctx, header_stack 3) ''/e'' ''h:1'') = Inr p \<and>
    create_entry_span_with_propagation release_build 0 ''op'' p
      (TracingContext_new 7 8 ''callee'' ''i2'', SpanStack_default) = ((tc2', st2'), Inr sp) \<and>
    tc_trace_id tc2' = tc_trace_id header_ctx \<and>
    tc_trace_segment_id tc2' = tc_trace_segment_id (TracingContext_new 7 8 ''callee'' ''i2'') \<and>
    sp_obj sp = Some ob \<and> span_type ob = Entry \<and> peek_active_span_id st2' = Some (span_id ob) \<and>
    refs ob = [\<lparr>ref_type = CrossProcess, ref_trace_id = tc_trace_id header_ctx,
      parent_trace_segment_id = tc_trace_segment_id header_ctx,
      ref_parent_span_id = as_span_id (ActiveSpan_new 3 3),
      parent_service = tc_service header_ctx,
      parent_service_instance = tc_service_instance header_ctx,
      parent_endpoint = ''/e'', network_address_used_at_peer = ''h:1''\<rparr>]"
proof (rule trace_crosses_processes [where as = "[]" and k = 0,
      OF rfc4648.base64_axioms header_ctx_utf8])
  show "utf8_valid ''/e''" "utf8_valid ''h:1''" by code_simp+
  show "active (header_stack 3) = [] @ [ActiveSpan_new 3 3]" by (simp add: header_stack_def)
  show "0 \<le> sint (as_span_id (ActiveSpan_new 3 3))" by code_simp
  show "ctx_at 0 (TracingContext_new 7 8 ''callee'' ''i2'')" by (rule ctx_at_new)
  show "Suc 0 < 2 ^ 31" by simp
qed


text \<open>C26. A trace crosses threads: a snapshot captured while span \<open>a1\<close> is active and continued in
  another context while its span \<open>a2\<close> is active moves that context into the captured trace, and the
  span that \<open>a2\<close> guards, when it is dropped, is finalized with its own references followed by one
  that names the captured trace, segment, span and primary endpoint and the tracer's service; the
  rest of the receiving stack is untouched.\<close>

theorem trace_crosses_threads:
  assumes "active st1 = as1 @ [a1]" and "0 \<le> sint (as_span_id a1)"
    and "tc_trace_id tc1 \<noteq> []" and "tc_trace_segment_id tc1 \<noteq> []"
    and "active st2 = as2 @ [a2]" and "sp_uid sp = as_uid a2" and "sp_obj sp = Some ob"
  shows "\<exists>tc2' st2'. continued (Some t) (capture (tc1, st1)) (tc2, st2) = ((tc2', st2'), Inr ()) \<and>
    tc2' = tc2\<lparr>tc_trace_id := tc_trace_id tc1\<rparr> \<and>
    Span_drop cfg now sp \<lparr>sh_stack = st2', sh_wg = wg\<rparr> =
      (\<lparr>sh_stack = st2\<lparr>active := as2, finalized := finalized st2 @
          [FinalizeSpan_new (sp_uid sp) (Some (ob\<lparr>end_time := fetch_time cfg now End,
             refs := refs ob @ [\<lparr>ref_type = CrossThread, ref_trace_id = tc_trace_id tc1,
               parent_trace_segment_id = tc_trace_segment_id tc1,
               ref_parent_span_id = as_span_id a1, parent_service = service_name t,
               parent_service_instance = instance_name t,
               parent_endpoint = tc_primary_endpoint_name tc1,
               network_address_used_at_peer = []\<rparr>]\<rparr>)) None]\<rparr>, sh_wg = wg\<rparr>, Inr ())"
proof -
  let ?snap = "capture (tc1, st1)"
  have valid: "ContextSnapshot_is_valid ?snap"
    using assms(1-4) by (simp add: ContextSnapshot_is_valid_def capture_def)
  let ?st = "st2\<lparr>active := as2 @ [a2\<lparr>as_ref := Some (snapshot_ref t ?snap)\<rparr>]\<rparr>"
  have "continued (Some t) ?snap (tc2, st2) = ((tc2\<lparr>tc_trace_id := tc_trace_id tc1\<rparr>, ?st), Inr ())"
    using valid assms(5)
    by (simp add: continued_def upgrade_tracer_def active_span_mut_def capture_def)
  moreover have "Span_drop cfg now sp \<lparr>sh_stack = ?st, sh_wg = wg\<rparr> =
      (\<lparr>sh_stack = ?st\<lparr>active := as2, finalized := finalized st2 @
          [FinalizeSpan_new (sp_uid sp) (Some (close_obj (fetch_time cfg now End)
             (Some (snapshot_ref t ?snap)) ob)) None]\<rparr>, sh_wg = wg\<rparr>, Inr ())"
    using assms(6,7)
    by (subst Span_drop_top [of _ as2 "a2\<lparr>as_ref := Some (snapshot_ref t ?snap)\<rparr>"]) simp_all
  ultimately show ?thesis
    using assms(1) by (simp add: close_obj_def snapshot_ref_def capture_def)
qed

theorem trace_crosses_threads_witness:
  "\<exists>tc2' st2'. continued (Some (Tracer_new ''mesh'' ''instance'')) (capture (header_ctx, header_stack 3))
       (TracingContext_new 7 8 ''mesh'' ''instance'', header_stack 0) = ((tc2', st2'), Inr ()) \<and>
    tc2' = (TracingContext_new 7 8 ''mesh'' ''instance'')\<lparr>tc_trace_id := tc_trace_id header_ctx\<rparr> \<and>
    Span_drop release_build 0 (Span_new 3 (Span_new_obj release_build 0 0 (-1) ''op'' [] Local Unknown False))
        \<lparr>sh_stack = st2', sh_wg = WaitGroup_default\<rparr> =
      (\<lparr>sh_stack = (header_stack 0)\<lparr>active := [], finalized := finalized (header_stack 0) @
          [FinalizeSpan_new (sp_uid (Span_new 3 (Span_new_obj release_build 0 0 (-1) ''op'' [] Local Unknown False)))
            (Some ((Span_new_obj release_build 0 0 (-1) ''op'' [] Local Unknown False)
             \<lparr>end_time := fetch_time release_build 0 End,
              refs := refs (Span_new_obj release_build 0 0 (-1) ''op'' [] Local Unknown False) @
               [\<lparr>ref_type = CrossThread, ref_trace_id = tc_trace_id header_ctx,
               parent_trace_segment_id = tc_trace_segment_id header_ctx,
               ref_parent_span_id = as_span_id (ActiveSpan_new 3 3),
               parent_service = service_name (Tracer_new ''mesh'' ''instance''),
               parent_service_instance = instance_name (Tracer_new ''mesh'' ''instance''),
               parent_endpoint = tc_primary_endpoint_name header_ctx,
               network_address_used_at_peer = []\<rparr>]\<rparr>)) None]\<rparr>, sh_wg = WaitGroup_default\<rparr>, Inr ())"
proof (rule trace_crosses_threads [where ?as1.0 = "[]" and ?a2.0 = "ActiveSpan_new 3 0"])
  show "active (header_stack 3) = [] @ [ActiveSpan_new 3 3]"
    "active (header_stack 0) = [] @ [ActiveSpan_new 3 0]" by (simp_all add: header_stack_def)
  show "0 \<le> sint (as_span_id (ActiveSpan_new 3 3))" by code_simp
  show "tc_trace_id header_ctx \<noteq> []" "tc_trace_segment_id header_ctx \<noteq> []" by code_simp+
qed (simp_all add: Span_new_def ActiveSpan_new_def)

text \<open>C39. A snapshot of a context with no active span is not valid, and continuing it changes
  nothing; continuing a valid one in a context with no active span changes the trace id but leaves
  no reference anywhere: the link to the parent is lost.\<close>

theorem continued_needs_active_spans:
  assumes "active st1 = []" and "active st2 = []" and "ContextSnapshot_is_valid snap"
  shows "continued tracer (capture (tc1, st1)) cs = (cs, Inr ()) \<and>
    continued (Some t) snap (tc2, st2) = ((tc2\<lparr>tc_trace_id := snap_trace_id snap\<rparr>, st2), Inr ())"
  using assms
  by (simp add: continued_def ContextSnapshot_is_valid_def capture_def upgrade_tracer_def
      active_span_mut_def)

theorem continued_needs_active_spans_witness:
  "continued None (capture (header_ctx, SpanStack_default)) (header_ctx, header_stack 3) =
     ((header_ctx, header_stack 3), Inr ()) \<and>
   continued (Some (Tracer_new ''mesh'' ''instance'')) (capture (header_ctx, header_stack 3))
     (TracingContext_new 7 8 ''mesh'' ''instance'', SpanStack_default) =
     (((TracingContext_new 7 8 ''mesh'' ''instance'')
        \<lparr>tc_trace_id := snap_trace_id (capture (header_ctx, header_stack 3))\<rparr>, SpanStack_default), Inr ())"
proof (rule continued_needs_active_spans)
  show "active SpanStack_default = []" "active SpanStack_default = []" by code_simp+
  show "ContextSnapshot_is_valid (capture (header_ctx, header_stack 3))" by code_simp
qed

end
