(* ===== verification/Trace_Types.thy ===== *)
theory Trace_Types
  imports Trace_Panics Propagation
begin

text \<open>
  The strings of the tracing part are Rust strings: a \<open>string\<close> of the model is a list of bytes, one of
  the program is well-formed UTF-8.  The states of \<open>Trace_Machine\<close> are typed in this sense when all
  their strings are; every call keeps them typed, panics included, whatever bytes a header carried.
\<close>

section \<open>Typed values\<close>

definition str_typed :: "string \<Rightarrow> bool" where
  "str_typed s \<longleftrightarrow> utf8_valid s"

fun opt_typed :: "('a \<Rightarrow> bool) \<Rightarrow> 'a option \<Rightarrow> bool" where
  "opt_typed P None = True"
| "opt_typed P (Some x) = P x"

definition pair_typed :: "KeyStringValuePair \<Rightarrow> bool" where
  "pair_typed kv \<longleftrightarrow> str_typed (kv_key kv) \<and> str_typed (kv_value kv)"

definition ref_typed :: "SegmentReference \<Rightarrow> bool" where
  "ref_typed r \<longleftrightarrow> str_typed (ref_trace_id r) \<and> str_typed (parent_trace_segment_id r) \<and> str_typed (parent_service r) \<and>
     str_typed (parent_service_instance r) \<and> str_typed (parent_endpoint r) \<and> str_typed (network_address_used_at_peer r)"

definition span_typed :: "SpanObject \<Rightarrow> bool" where
  "span_typed ob \<longleftrightarrow> str_typed (operation_name ob) \<and> str_typed (peer ob) \<and> list_all ref_typed (refs ob) \<and>
     list_all pair_typed (tags ob) \<and> list_all (\<lambda>l. list_all pair_typed (log_data l)) (logs ob)"

definition segment_typed :: "SegmentObject \<Rightarrow> bool" where
  "segment_typed seg \<longleftrightarrow> str_typed (seg_trace_id seg) \<and> str_typed (seg_trace_segment_id seg) \<and> str_typed (seg_service seg) \<and>
     str_typed (seg_service_instance seg) \<and> list_all span_typed (seg_spans seg)"

fun item_typed :: "CollectItem \<Rightarrow> bool" where
  "item_typed (Trace seg) = segment_typed seg"
| "item_typed _ = True"

definition ctx_typed :: "TracingContext \<Rightarrow> bool" where
  "ctx_typed tc \<longleftrightarrow> str_typed (tc_trace_id tc) \<and> str_typed (tc_trace_segment_id tc) \<and> str_typed (tc_service tc) \<and>
     str_typed (tc_service_instance tc) \<and> str_typed (tc_primary_endpoint_name tc)"

definition stack_typed :: "SpanStack \<Rightarrow> bool" where
  "stack_typed st \<longleftrightarrow> list_all (\<lambda>a. opt_typed ref_typed (as_ref a)) (active st) \<and>
     list_all (\<lambda>f. opt_typed span_typed (fs_obj f) \<and> opt_typed ref_typed (fs_ref f)) (finalized st)"

definition tracer_typed :: "Tracer \<Rightarrow> bool" where
  "tracer_typed t \<longleftrightarrow> str_typed (service_name t) \<and> str_typed (instance_name t)"

fun slot_typed :: "ctx_slot \<Rightarrow> bool" where
  "slot_typed (Live tc) = ctx_typed tc"
| "slot_typed (Waiting tc) = ctx_typed tc"
| "slot_typed Gone = True"

definition world_typed :: "('r \<Rightarrow> CollectItem list) \<Rightarrow> 'r TraceWorld \<Rightarrow> bool" where
  "world_typed delivered w \<longleftrightarrow> tracer_typed (w_tracer w) \<and> slot_typed (w_ctx w) \<and> stack_typed (sh_stack (w_shared w)) \<and>
     list_all (\<lambda>s. opt_typed span_typed (sp_obj s)) (w_spans w) \<and>
     list_all (\<lambda>s. opt_typed span_typed (asy_obj s)) (w_asyncs w) \<and> list_all item_typed (delivered (w_reporter w))"

section \<open>Typed calls\<close>

definition snapshot_typed :: "ContextSnapshot \<Rightarrow> bool" where
  "snapshot_typed snap \<longleftrightarrow> str_typed (snap_trace_id snap) \<and> str_typed (snap_trace_segment_id snap) \<and>
     str_typed (snap_parent_endpoint snap)"

definition propagation_typed :: "PropagationContext \<Rightarrow> bool" where
  "propagation_typed p \<longleftrightarrow> str_typed (pc_parent_trace_id p) \<and> str_typed (pc_parent_trace_segment_id p) \<and>
     str_typed (pc_parent_service p) \<and> str_typed (pc_parent_service_instance p) \<and> str_typed (destination_endpoint p) \<and>
     str_typed (destination_address p)"

text \<open>The arguments of a call are strings of the program; a propagation context is one that decoding
  some header value gave.\<close>

fun call_typed :: "base64_engine \<Rightarrow> trace_op \<Rightarrow> bool" where
  "call_typed engine (OpEntry n) = str_typed n"
| "call_typed engine (OpEntryProp n p) = (str_typed n \<and> (\<exists>header. decode_propagation engine header = Inr p))"
| "call_typed engine (OpExit n r) = (str_typed n \<and> str_typed r)"
| "call_typed engine (OpLocal n) = str_typed n"
| "call_typed engine (OpContinued snap) = snapshot_typed snap"
| "call_typed engine (OpSpanTag i k v) = (str_typed k \<and> str_typed v)"
| "call_typed engine (OpSpanLog i m) = list_all (\<lambda>(k, v). str_typed k \<and> str_typed v) m"
| "call_typed engine (OpAsyncTag i k v) = (str_typed k \<and> str_typed v)"
| "call_typed engine (OpAsyncLog i m) = list_all (\<lambda>(k, v). str_typed k \<and> str_typed v) m"
| "call_typed engine _ = True"

text \<open>A run that goes on after a panic, as a process does that catches it.\<close>

fun trace_calls ::
  "'r report_fn \<Rightarrow> build \<Rightarrow> (SystemTime \<times> trace_op) list \<Rightarrow> 'r TraceWorld \<Rightarrow> 'r TraceWorld option" where
  "trace_calls report cfg [] w = Some w"
| "trace_calls report cfg ((now, oper) # ops) w =
     (case trace_exec report cfg now oper w of
        Some (w', _) \<Rightarrow> trace_calls report cfg ops w'
      | None \<Rightarrow> None)"

section \<open>Lemmas\<close>

lemma str_typed_Nil [simp]: "str_typed []"
  by (simp add: str_typed_def)

lemma decode_typed:
  assumes "decode_propagation engine header = Inr p"
  shows "propagation_typed p"
  using assms
  by (auto simp: decode_propagation_def and_then_def Let_def PropagationContext_new_def propagation_typed_def str_typed_def
      dest!: b64_string_valid split: if_splits sum.splits)

lemma capture_typed: "ctx_typed (fst cs) \<Longrightarrow> snapshot_typed (capture cs)"
  by (simp add: capture_def snapshot_typed_def ctx_typed_def)

lemma snapshot_ref_typed: "tracer_typed t \<Longrightarrow> snapshot_typed snap \<Longrightarrow> ref_typed (snapshot_ref t snap)"
  by (simp add: snapshot_ref_def ref_typed_def tracer_typed_def snapshot_typed_def)

lemma propagation_ref_typed: "str_typed tid \<Longrightarrow> propagation_typed p \<Longrightarrow> ref_typed (propagation_ref tid p)"
  by (simp add: propagation_ref_def ref_typed_def propagation_typed_def)

lemma span_typed_new: "str_typed n \<Longrightarrow> str_typed r \<Longrightarrow> span_typed (Span_new_obj cfg now i p n r t l s)"
  by (simp add: span_typed_def Span_new_obj_def)

lemma span_typed_close: "span_typed ob \<Longrightarrow> opt_typed ref_typed rf \<Longrightarrow> span_typed (close_obj e rf ob)"
  by (cases rf) (auto simp: span_typed_def)

lemma span_typed_tag: "span_typed ob \<Longrightarrow> str_typed k \<Longrightarrow> str_typed v \<Longrightarrow> span_typed (SpanObject_add_tag k v ob)"
  by (simp add: span_typed_def SpanObject_add_tag_def pair_typed_def)

lemma span_typed_log:
  "span_typed ob \<Longrightarrow> list_all (\<lambda>(k, v). str_typed k \<and> str_typed v) m \<Longrightarrow> span_typed (SpanObject_add_log now m ob)"
  by (auto simp: span_typed_def SpanObject_add_log_def pair_typed_def kv_pair_def list_all_iff)

lemma list_all_butlast: "list_all P xs \<Longrightarrow> list_all P (butlast xs)"
  by (auto simp: list_all_iff dest: in_set_butlastD)

lemma last_opt_typed: "list_all P xs \<Longrightarrow> last_opt xs = Some x \<Longrightarrow> P x"
  by (auto simp: last_opt_eq_Some)

lemma create_span_typed:
  assumes "create_span cfg now parent n r t l (tc, st) = ((tc', st'), res)"
    and "ctx_typed tc" and "stack_typed st" and "str_typed n" and "str_typed r"
  shows "ctx_typed tc' \<and> stack_typed st' \<and> (case res of Inr sp \<Rightarrow> opt_typed span_typed (sp_obj sp) | Inl _ \<Rightarrow> True)"
  using assms
  by (auto simp: create_span_def inc_next_span_id_def push_active_span_def generate_span_uid_def Let_def ctx_typed_def
      stack_typed_def ActiveSpan_new_def Span_new_def span_typed_new split: sum.splits prod.splits)

lemma create_entry_span_typed:
  assumes "create_entry_span cfg now n (tc, st) = ((tc', st'), res)"
    and "ctx_typed tc" and "stack_typed st" and "str_typed n"
  shows "ctx_typed tc' \<and> stack_typed st' \<and> (case res of Inr sp \<Rightarrow> opt_typed span_typed (sp_obj sp) | Inl _ \<Rightarrow> True)"
  by (rule create_span_typed [OF assms(1) [unfolded create_entry_span_def] assms(2-4) str_typed_Nil])

lemma create_common_span_typed:
  assumes "create_common_span cfg now n r t parent (tc, st) = ((tc', st'), res)"
    and "ctx_typed tc" and "stack_typed st" and "str_typed n" and "str_typed r"
  shows "ctx_typed tc' \<and> stack_typed st' \<and> (case res of Inr sp \<Rightarrow> opt_typed span_typed (sp_obj sp) | Inl _ \<Rightarrow> True)"
  using assms create_span_typed [OF _ assms(2-5)]
  by (auto simp: create_common_span_def split: if_splits sum.splits)

lemma create_propagation_typed:
  assumes "create_entry_span_with_propagation cfg now n p (tc, st) = ((tc', st'), res)"
    and "ctx_typed tc" and "stack_typed st" and "str_typed n" and "propagation_typed p"
  shows "ctx_typed tc' \<and> stack_typed st' \<and> (case res of Inr sp \<Rightarrow> opt_typed span_typed (sp_obj sp) | Inl _ \<Rightarrow> True)"
proof -
  obtain tc1 st1 res1 where c: "create_entry_span cfg now n (tc, st) = ((tc1, st1), res1)" by (metis prod.collapse)
  then have t: "ctx_typed tc1 \<and> stack_typed st1 \<and> (case res1 of Inr sp \<Rightarrow> opt_typed span_typed (sp_obj sp) | Inl _ \<Rightarrow> True)"
    using create_entry_span_typed assms(2-4) by blast
  have "str_typed (pc_parent_trace_id p)" using assms(5) by (simp add: propagation_typed_def)
  with assms(1) c t propagation_ref_typed [OF this assms(5)] show ?thesis
    by (auto simp: create_entry_span_with_propagation_def Let_def span_object_mut_def ctx_typed_def span_typed_def
        split: sum.splits option.splits)
qed

lemma continued_typed:
  assumes "continued tracer snap (tc, st) = ((tc', st'), res)" and "ctx_typed tc" and "stack_typed st"
    and "opt_typed tracer_typed tracer" and "snapshot_typed snap"
  shows "ctx_typed tc' \<and> stack_typed st'"
proof (cases "ContextSnapshot_is_valid snap")
  case True
  have upd: "stack_typed (active_span_mut (\<lambda>a. a\<lparr>as_ref := Some (snapshot_ref t snap)\<rparr>) st)" if "tracer_typed t" for t
    using assms(3) snapshot_ref_typed [OF that assms(5)] list_all_butlast [of _ "active st"]
    by (auto simp: active_span_mut_def stack_typed_def split: option.splits)
  from True assms upd show ?thesis
    by (cases tracer) (auto simp: continued_def Let_def upgrade_tracer_def ctx_typed_def snapshot_typed_def)
qed (use assms in \<open>simp add: continued_def\<close>)

lemma finalize_span_typed:
  assumes "finalize_span cfg now uid ob st = (st', res)" and "stack_typed st" and "opt_typed span_typed ob"
  shows "stack_typed st'"
proof (cases "pop_active uid st")
  case (Pair st1 a)
  have st1: "stack_typed st1" "\<And>x. a = Some x \<Longrightarrow> opt_typed ref_typed (as_ref x)"
    using Pair assms(2) list_all_butlast [of _ "active st"] last_opt_typed [of _ "active st"]
    by (auto simp: pop_active_def stack_typed_def split: if_splits)
  show ?thesis
  proof (cases a)
    case (Some x)
    then show ?thesis using assms(1,3) Pair st1 span_typed_close
      by (cases ob) (auto simp: finalize_span_def FinalizeSpan_new_def stack_typed_def)
  qed (use assms(1) Pair st1 in \<open>simp add: finalize_span_def\<close>)
qed

lemma fill_async_typed:
  "fill_async e uid ob fs = Some fs' \<Longrightarrow> span_typed ob \<Longrightarrow>
   list_all (\<lambda>f. opt_typed span_typed (fs_obj f) \<and> opt_typed ref_typed (fs_ref f)) fs \<Longrightarrow>
   list_all (\<lambda>f. opt_typed span_typed (fs_obj f) \<and> opt_typed ref_typed (fs_ref f)) fs'"
  by (induction fs arbitrary: fs') (auto simp: span_typed_close split: if_splits)

lemma Span_drop_typed:
  "Span_drop cfg now sp sh = (sh', res) \<Longrightarrow> stack_typed (sh_stack sh) \<Longrightarrow> opt_typed span_typed (sp_obj sp) \<Longrightarrow>
   stack_typed (sh_stack sh')"
  using finalize_span_typed by (auto simp: Span_drop_def split: prod.splits)

lemma prepare_typed:
  assumes "prepare_for_async cfg now sp sh = (sh', res)" and "stack_typed (sh_stack sh)" and "opt_typed span_typed (sp_obj sp)"
  shows "stack_typed (sh_stack sh') \<and> (case res of Inr asy \<Rightarrow> opt_typed span_typed (asy_obj asy) | Inl _ \<Rightarrow> True)"
proof -
  have d: "stack_typed (sh_stack (fst (Span_drop cfg now sp' sh1)))"
    if "opt_typed span_typed (sp_obj sp')" "sh_stack sh1 = sh_stack sh" for sp' sh1
    using Span_drop_typed [of cfg now sp' sh1] assms(2) that by (cases "Span_drop cfg now sp' sh1") simp
  show ?thesis
  proof (cases "is_active_span (sh_stack sh) sp")
    case False
    with assms(1,3) d [of sp sh] show ?thesis by (auto simp: prepare_for_async_def unwind_def split: sum.splits)
  next
    case True
    obtain wg r where wg: "WaitGroup_add cfg 1 (sh_wg sh) = (wg, r)" by fastforce
    show ?thesis
    proof (cases r)
      case (Inl p)
      with True wg assms(1,3) d [of sp "sh\<lparr>sh_wg := wg\<rparr>"] show ?thesis
        by (auto simp: prepare_for_async_def unwind_def split: sum.splits)
    next
      case (Inr u)
      with True wg assms(1,3) d [of "sp\<lparr>sp_obj := None\<rparr>" "sh\<lparr>sh_wg := wg\<rparr>"] show ?thesis
        by (cases "Span_drop cfg now (sp\<lparr>sp_obj := None\<rparr>) (sh\<lparr>sh_wg := wg\<rparr>)")
          (auto simp: prepare_for_async_def split: sum.splits)
    qed
  qed
qed

lemma AsyncSpan_drop_typed:
  assumes "AsyncSpan_drop cfg now alive sp sh = (sh', res)" and "stack_typed (sh_stack sh)" and "opt_typed span_typed (asy_obj sp)"
  shows "stack_typed (sh_stack sh')"
  using assms fill_async_typed
  by (fastforce simp: AsyncSpan_drop_def finalize_async_span_def stack_typed_def split: if_splits option.splits prod.splits sum.splits)

lemma convert_typed:
  assumes "convert_to_segment_object tc st = (st', Inr seg)" and "ctx_typed tc" and "stack_typed st"
  shows "segment_typed seg"
proof -
  obtain spans where s: "those (map fs_obj (finalized st)) = Some spans" and seg: "seg_spans seg = spans"
    "seg_trace_id seg = tc_trace_id tc" "seg_trace_segment_id seg = tc_trace_segment_id tc" "seg_service seg = tc_service tc"
    "seg_service_instance seg = tc_service_instance tc"
    using assms(1) by (auto simp: convert_to_segment_object_def split: option.splits)
  have "map fs_obj (finalized st) = map Some spans" using s by (simp add: those_map_Some)
  moreover have "\<forall>x \<in> set (map fs_obj (finalized st)). opt_typed span_typed x"
    using assms(3) by (auto simp: stack_typed_def list_all_iff)
  ultimately have "list_all span_typed spans" by (auto simp: list_all_iff)
  with seg assms(2) show ?thesis by (simp add: segment_typed_def ctx_typed_def)
qed

context gated_reporter
begin

lemma report_typed:
  assumes "item_typed x" and "list_all item_typed (delivered r)"
  shows "list_all item_typed (delivered (fst (report x r)))"
  using assms delivered_report [of r x] refuses [of r x] by (cases "accepting r") simp_all

lemma exec_ctx_drop_typed:
  assumes "world_typed delivered w" and "ctx_typed tc" and "exec_ctx_drop report tc w = (w', res)"
  shows "world_typed delivered w'"
proof (cases "weak_tracer w")
  case None
  with assms show ?thesis by (auto simp: exec_ctx_drop_def TracingContext_drop_def upgrade_tracer_def world_typed_def)
next
  case (Some t)
  obtain st1 r1 where c: "convert_to_segment_object tc (sh_stack (w_shared w)) = (st1, r1)" by fastforce
  then have st1: "stack_typed st1" using assms(1)
    by (auto simp: convert_to_segment_object_def world_typed_def stack_typed_def)
  show ?thesis
  proof (cases r1)
    case (Inl p)
    with Some c st1 assms show ?thesis
      by (auto simp: exec_ctx_drop_def TracingContext_drop_def upgrade_tracer_def finalize_context_def world_typed_def)
  next
    case (Inr seg)
    have "segment_typed seg" using convert_typed c Inr assms(1,2) by (auto simp: world_typed_def)
    then have "list_all item_typed (delivered (fst (report (Trace seg) (w_reporter w))))"
      using report_typed [of "Trace seg"] assms(1) by (simp add: world_typed_def)
    with Some c Inr st1 assms(1,3) show ?thesis
      by (auto simp: exec_ctx_drop_def TracingContext_drop_def upgrade_tracer_def finalize_context_def world_typed_def
          split: prod.splits)
  qed
qed

lemma exec_create_typed:
  assumes "exec_create f w = Some (w', res)" and "world_typed delivered w"
    and "\<And>tc st tc' st' r. f (tc, st) = ((tc', st'), r) \<Longrightarrow> ctx_typed tc \<Longrightarrow> stack_typed st \<Longrightarrow>
      ctx_typed tc' \<and> stack_typed st' \<and> (case r of Inr sp \<Rightarrow> opt_typed span_typed (sp_obj sp) | Inl _ \<Rightarrow> True)"
  shows "world_typed delivered w'"
proof -
  obtain tc where tc: "w_ctx w = Live tc" using assms(1) by (auto simp: exec_create_def split: ctx_slot.splits)
  obtain tc' st' r where f: "f (tc, sh_stack (w_shared w)) = ((tc', st'), r)" by (metis prod.collapse)
  have "ctx_typed tc' \<and> stack_typed st' \<and> (case r of Inr sp \<Rightarrow> opt_typed span_typed (sp_obj sp) | Inl _ \<Rightarrow> True)"
    using assms(3) [OF f] assms(2) tc by (simp add: world_typed_def)
  with assms(1,2) tc f show ?thesis
    by (auto simp: exec_create_def Let_def world_typed_def split: sum.splits)
qed

lemma exec_on_span_typed:
  assumes "exec_on_span i f w = Some (w', res)" and "world_typed delivered w"
    and "\<And>ob. opt_typed span_typed ob \<Longrightarrow> opt_typed span_typed (fst (f ob))"
  shows "world_typed delivered w'"
proof -
  have i: "i < length (w_spans w)" using assms(1) by (auto simp: exec_on_span_def split: if_splits)
  then have "opt_typed span_typed (fst (f (sp_obj (w_spans w ! i))))"
    using assms(2,3) by (simp add: world_typed_def list_all_length)
  with assms(1,2) i show ?thesis
    by (auto simp: exec_on_span_def world_typed_def list_all_iff split: prod.splits dest!: set_update_subset_insert [THEN subsetD])
qed

lemma exec_on_async_typed:
  assumes "exec_on_async i f w = Some (w', res)" and "world_typed delivered w"
    and "\<And>ob. opt_typed span_typed ob \<Longrightarrow> opt_typed span_typed (fst (f ob))"
  shows "world_typed delivered w'"
proof -
  have i: "i < length (w_asyncs w)" using assms(1) by (auto simp: exec_on_async_def split: if_splits)
  then have "opt_typed span_typed (fst (f (asy_obj (w_asyncs w ! i))))"
    using assms(2,3) by (simp add: world_typed_def list_all_length)
  with assms(1,2) i show ?thesis
    by (auto simp: exec_on_async_def world_typed_def list_all_iff split: prod.splits dest!: set_update_subset_insert [THEN subsetD])
qed

lemma handle_typed:
  "opt_typed span_typed ob \<Longrightarrow> str_typed k \<Longrightarrow> str_typed v \<Longrightarrow> opt_typed span_typed (fst (handle_add_tag k v ob))"
  "opt_typed span_typed ob \<Longrightarrow> list_all (\<lambda>(k, v). str_typed k \<and> str_typed v) m \<Longrightarrow> opt_typed span_typed (fst (handle_add_log cfg now m ob))"
  by (cases ob; simp add: handle_add_tag_def handle_add_log_def span_object_mut_def span_typed_tag span_typed_log)+

lemma guards_typed:
  assumes "world_typed delivered w"
  shows "i < length (w_spans w) \<Longrightarrow> opt_typed span_typed (sp_obj (w_spans w ! i))"
    and "i < length (w_asyncs w) \<Longrightarrow> opt_typed span_typed (asy_obj (w_asyncs w ! i))"
    and "list_all (\<lambda>s. opt_typed span_typed (sp_obj s)) (remove_nth i (w_spans w))"
    and "list_all (\<lambda>s. opt_typed span_typed (asy_obj s)) (remove_nth i (w_asyncs w))"
proof -
  have l: "list_all (\<lambda>s. opt_typed span_typed (sp_obj s)) (w_spans w)" "list_all (\<lambda>s. opt_typed span_typed (asy_obj s)) (w_asyncs w)"
    using assms by (simp_all add: world_typed_def)
  show "i < length (w_spans w) \<Longrightarrow> opt_typed span_typed (sp_obj (w_spans w ! i))"
    "i < length (w_asyncs w) \<Longrightarrow> opt_typed span_typed (asy_obj (w_asyncs w ! i))"
    using l by (simp_all add: list_all_length)
  show "list_all (\<lambda>s. opt_typed span_typed (sp_obj s)) (remove_nth i (w_spans w))"
    "list_all (\<lambda>s. opt_typed span_typed (asy_obj s)) (remove_nth i (w_asyncs w))"
    using l by (simp_all add: list_all_remove_nth)
qed

lemma exec_span_drop_typed:
  assumes "exec_span_drop cfg now i w = Some (w', res)" and "world_typed delivered w"
  shows "world_typed delivered w'"
proof -
  from assms(1) obtain sh' where s: "i < length (w_spans w)" "Span_drop cfg now (w_spans w ! i) (w_shared w) = (sh', res)"
    "w' = w\<lparr>w_shared := sh', w_spans := remove_nth i (w_spans w)\<rparr>"
    by (auto simp: exec_span_drop_def split: if_splits prod.splits)
  with Span_drop_typed [OF s(2)] guards_typed [OF assms(2)] assms(2) show ?thesis by (simp add: world_typed_def)
qed

lemma exec_async_drop_typed:
  assumes "exec_async_drop cfg now i w = Some (w', res)" and "world_typed delivered w"
  shows "world_typed delivered w'"
proof -
  from assms(1) obtain sh' where s: "i < length (w_asyncs w)"
    "AsyncSpan_drop cfg now (stack_alive w) (w_asyncs w ! i) (w_shared w) = (sh', res)"
    "w' = w\<lparr>w_shared := sh', w_asyncs := remove_nth i (w_asyncs w)\<rparr>"
    by (auto simp: exec_async_drop_def split: if_splits prod.splits)
  with AsyncSpan_drop_typed [OF s(2)] guards_typed [OF assms(2)] assms(2) show ?thesis by (simp add: world_typed_def)
qed

lemma exec_prepare_typed:
  assumes "exec_prepare cfg now i w = Some (w', res)" and "world_typed delivered w"
  shows "world_typed delivered w'"
proof -
  from assms(1) obtain sh' r where s: "i < length (w_spans w)" "prepare_for_async cfg now (w_spans w ! i) (w_shared w) = (sh', r)"
    "w' = (case r of Inl p \<Rightarrow> w\<lparr>w_shared := sh', w_spans := remove_nth i (w_spans w)\<rparr>
      | Inr asy \<Rightarrow> w\<lparr>w_shared := sh', w_spans := remove_nth i (w_spans w), w_asyncs := w_asyncs w @ [asy]\<rparr>)"
    by (auto simp: exec_prepare_def Let_def split: if_splits prod.splits sum.splits)
  with prepare_typed [OF s(2)] guards_typed [OF assms(2)] assms(2) show ?thesis
    by (auto simp: world_typed_def split: sum.splits)
qed

lemma trace_exec_typed:
  assumes "trace_exec report cfg now oper w = Some (w', res)" and "world_typed delivered w" and "call_typed engine oper"
  shows "world_typed delivered w'"
proof (cases oper)
  case (OpEntry n)
  with assms(1,3) have c: "exec_create (create_entry_span cfg now n) w = Some (w', res)" and n: "str_typed n" by simp_all
  show ?thesis by (rule exec_create_typed [OF c assms(2)]) (rule create_entry_span_typed [OF _ _ _ n])
next
  case (OpEntryProp n p)
  with assms(1,3) have c: "exec_create (create_entry_span_with_propagation cfg now n p) w = Some (w', res)"
    and n: "str_typed n" "propagation_typed p" using decode_typed by auto
  show ?thesis by (rule exec_create_typed [OF c assms(2)]) (rule create_propagation_typed [OF _ _ _ n])
next
  case (OpExit n r)
  with assms(1,3) have c: "exec_create (create_exit_span cfg now n r) w = Some (w', res)" and n: "str_typed n" "str_typed r" by simp_all
  show ?thesis by (rule exec_create_typed [OF c assms(2)])
      (rule create_common_span_typed [OF _ _ _ n], simp_all add: create_exit_span_def)
next
  case (OpLocal n)
  with assms(1,3) have c: "exec_create (create_local_span cfg now n) w = Some (w', res)" and n: "str_typed n" by simp_all
  show ?thesis by (rule exec_create_typed [OF c assms(2)])
      (rule create_common_span_typed [OF _ _ _ n str_typed_Nil], simp_all add: create_local_span_def)
next
  case (OpContinued snap)
  then obtain tc tc' st' where tc: "w_ctx w = Live tc" "continued (weak_tracer w) snap (tc, sh_stack (w_shared w)) = ((tc', st'), res)"
    "w' = w\<lparr>w_ctx := Live tc', w_shared := (w_shared w)\<lparr>sh_stack := st'\<rparr>\<rparr>"
    using assms(1) by (auto split: ctx_slot.splits prod.splits)
  have "opt_typed tracer_typed (weak_tracer w)" using assms(2) by (simp add: weak_tracer_def world_typed_def)
  with continued_typed [OF tc(2)] tc assms(2,3) OpContinued show ?thesis by (simp add: world_typed_def)
next
  case (OpSpanTag i k v)
  with assms show ?thesis by (auto intro!: exec_on_span_typed [OF _ assms(2)] handle_typed)
next
  case (OpSpanLog i m)
  with assms show ?thesis by (auto intro!: exec_on_span_typed [OF _ assms(2)] handle_typed)
next
  case (OpAsyncTag i k v)
  with assms show ?thesis by (auto intro!: exec_on_async_typed [OF _ assms(2)] handle_typed)
next
  case (OpAsyncLog i m)
  with assms show ?thesis by (auto intro!: exec_on_async_typed [OF _ assms(2)] handle_typed)
next
  case (OpSpanDrop i)
  with assms exec_span_drop_typed show ?thesis by simp
next
  case (OpPrepare i)
  with assms exec_prepare_typed show ?thesis by simp
next
  case (OpAsyncDrop i)
  with assms exec_async_drop_typed show ?thesis by simp
next
  case OpWaitDone
  then obtain tc where tc: "w_ctx w = Waiting tc" using assms(1) by (auto split: ctx_slot.splits)
  then have "ctx_typed tc" using assms(2) by (simp add: world_typed_def)
  moreover have "w' = fst (exec_ctx_drop report tc w)"
    using OpWaitDone assms(1) tc by (auto simp: unwind_def split: sum.splits if_splits)
  ultimately show ?thesis using exec_ctx_drop_typed [OF assms(2)] by (metis prod.collapse)
next
  case OpCtxDrop
  then obtain tc where tc: "w_ctx w = Live tc" "exec_ctx_drop report tc w = (w', res)"
    using assms(1) by (auto split: ctx_slot.splits)
  then show ?thesis using exec_ctx_drop_typed [OF assms(2) _ tc(2)] assms(2) by (simp add: world_typed_def)
qed (use assms in \<open>auto simp: world_typed_def split: ctx_slot.splits if_splits\<close>)

lemma trace_calls_typed:
  "trace_calls report cfg ops w = Some w' \<Longrightarrow> world_typed delivered w \<Longrightarrow> list_all (call_typed engine) (map snd ops) \<Longrightarrow>
   world_typed delivered w'"
proof (induction ops arbitrary: w)
  case (Cons x ops)
  obtain now oper where x: "x = (now, oper)" by fastforce
  with Cons.prems obtain w1 r where w1: "trace_exec report cfg now oper w = Some (w1, r)" "trace_calls report cfg ops w1 = Some w'"
    by (auto split: option.splits)
  have "world_typed delivered w1" using trace_exec_typed [OF w1(1) Cons.prems(2), of engine] Cons.prems(3) x by simp
  with Cons.IH [OF w1(2)] Cons.prems(3) show ?case by simp
qed simp

end

lemma trace_init_typed:
  "tracer_typed t \<Longrightarrow> list_all item_typed (delivered r) \<Longrightarrow> world_typed delivered (trace_init t u1 u2 r)"
  by (simp add: world_typed_def trace_init_def create_trace_context_def TracingContext_new_def ctx_typed_def tracer_typed_def
      stack_typed_def SpanStack_default_def) (simp add: str_typed_def)

section \<open>Property\<close>

text \<open>C6. The strings of what tracing reports are strings: for any sequence of calls on a context, from any
  threads, with panics that are caught on the way, on any reporter that takes items one by one, every
  string of every delivered segment (ids, names, peers, references, tags and logs) is well-formed
  UTF-8, provided the arguments of the calls are; of the propagation headers nothing is assumed,
  whatever bytes their Base64 parts stand for.\<close>

theorem reported_segments_are_typed:
  assumes "gated_reporter report delivered accepting"
    and "tracer_typed t" and "list_all item_typed (delivered r)" and "list_all (call_typed engine) (map snd ops)"
    and "trace_calls report cfg ops (trace_init t u1 u2 r) = Some w"
  shows "list_all item_typed (delivered (w_reporter w))"
  using gated_reporter.trace_calls_typed [OF assms(1,5) trace_init_typed [where delivered = delivered, OF assms(2,3)] assms(4)]
  by (simp add: world_typed_def)

text \<open>The witness: a call that panics, an entry span that continues the trace of a decoded header, a tag, and
  the end of the context.\<close>

definition typed_header :: PropagationContext where
  "typed_header = PropagationContext_new True ''1'' ''5'' 3 ''mesh'' ''instance'' ''/api/v1/health'' ''example.com:8080''"

definition typed_calls :: "(SystemTime \<times> trace_op) list" where
  "typed_calls = map (\<lambda>op. (0, op)) [OpExit ''x'' ''y'', OpEntryProp ''/pong'' typed_header, OpSpanTag 0 ''k'' ''v'',
     OpSpanDrop 0, OpCtxDrop]"

theorem reported_segments_are_typed_witness:
  "\<exists>w. trace_calls PrintReporter_report dev_build typed_calls sample_init = Some w \<and>
     length (printed (w_reporter w)) = 1 \<and> list_all item_typed (printed (w_reporter w))"
proof -
  have "case trace_calls PrintReporter_report dev_build typed_calls sample_init of None \<Rightarrow> False
    | Some w \<Rightarrow> length (printed (w_reporter w)) = 1" by code_simp
  then obtain w where w: "trace_calls PrintReporter_report dev_build typed_calls sample_init = Some w"
    "length (printed (w_reporter w)) = 1" by (auto split: option.splits)
  have t: "tracer_typed (Tracer_new ''service'' ''instance'')" by code_simp
  have r: "list_all item_typed (printed (PrintReporter_new, \<lparr>stdout_lines = [], stderr_lines = []\<rparr>))" by code_simp
  have "decode_propagation rfc4648
      ''1-MQ==-NQ==-3-bWVzaA==-aW5zdGFuY2U=-L2FwaS92MS9oZWFsdGg=-ZXhhbXBsZS5jb206ODA4MA=='' = Inr typed_header" by code_simp
  then have "\<exists>header. decode_propagation rfc4648 header = Inr typed_header" ..
  moreover have "str_typed ''x''" "str_typed ''y''" "str_typed ''/pong''" "str_typed ''k''" "str_typed ''v''" by code_simp+
  ultimately have c: "list_all (call_typed rfc4648) (map snd typed_calls)" by (simp add: typed_calls_def)
  from reported_segments_are_typed [OF print.gated_reporter_axioms t r c w(1) [unfolded sample_init_def]] w show ?thesis by blast
qed

end
