(* ===== verification/Trace_Tree.thy ===== *)
theory Trace_Tree
  imports Trace_Safety
begin

text \<open>
  What the tracing API is for: a program that opens a span, calls what it calls, and closes the
  span (the guard pattern of the README) reports its call tree.  \<open>run_call\<close> drives the model of
  the code along a call tree; \<open>spans_of_call\<close> is the specification, which numbers the calls in
  the order they start, lists them in the order they end, and never mentions a stack.
\<close>

section \<open>Call trees\<close>

datatype call_kind = KEntry | KExit string | KLocal

datatype call = Call call_kind string "call list"

fun calls_size :: "call \<Rightarrow> nat" where
  "calls_size (Call kd n cs) = Suc (sum_list (map calls_size cs))"

fun open_span ::
  "build \<Rightarrow> SystemTime \<Rightarrow> call_kind \<Rightarrow> string \<Rightarrow> TracingContext \<times> SpanStack \<Rightarrow>
   (TracingContext \<times> SpanStack, Span) outcome" where
  "open_span cfg now KEntry n cs = create_entry_span cfg now n cs"
| "open_span cfg now (KExit pr) n cs = create_exit_span cfg now n pr cs"
| "open_span cfg now KLocal n cs = create_local_span cfg now n cs"

text \<open>\<open>clk t\<close> is the time of the \<open>t\<close>-th event; opening and closing a span are events.\<close>

fun run_call ::
  "build \<Rightarrow> (nat \<Rightarrow> SystemTime) \<Rightarrow> call \<Rightarrow> TracingContext \<times> Shared \<times> nat \<Rightarrow>
   (TracingContext \<times> Shared \<times> nat, unit) outcome"
and run_calls ::
  "build \<Rightarrow> (nat \<Rightarrow> SystemTime) \<Rightarrow> call list \<Rightarrow> TracingContext \<times> Shared \<times> nat \<Rightarrow>
   (TracingContext \<times> Shared \<times> nat, unit) outcome" where
  "run_call cfg clk (Call kd n cs) (tc, sh, t) =
     (case open_span cfg (clk t) kd n (tc, sh_stack sh) of
        ((tc1, st1), Inl p) \<Rightarrow> ((tc1, sh\<lparr>sh_stack := st1\<rparr>, Suc t), Inl p)
      | ((tc1, st1), Inr sp) \<Rightarrow>
          (case run_calls cfg clk cs (tc1, sh\<lparr>sh_stack := st1\<rparr>, Suc t) of
             (s, Inl p) \<Rightarrow> (s, Inl p)
           | ((tc2, sh2, t2), Inr _) \<Rightarrow>
               (case Span_drop cfg (clk t2) sp sh2 of (sh3, r) \<Rightarrow> ((tc2, sh3, Suc t2), r))))"
| "run_calls cfg clk [] s = (s, Inr ())"
| "run_calls cfg clk (c # cs) s =
     (case run_call cfg clk c s of
        (s1, Inl p) \<Rightarrow> (s1, Inl p)
      | (s1, Inr _) \<Rightarrow> run_calls cfg clk cs s1)"

section \<open>The specification\<close>

fun kind_obj :: "build \<Rightarrow> SystemTime \<Rightarrow> i32 \<Rightarrow> i32 \<Rightarrow> call_kind \<Rightarrow> string \<Rightarrow> SpanObject" where
  "kind_obj cfg now sid parent KEntry n = Span_new_obj cfg now sid parent n [] Entry Http False"
| "kind_obj cfg now sid parent (KExit pr) n = Span_new_obj cfg now sid parent n pr Exit Unknown False"
| "kind_obj cfg now sid parent KLocal n = Span_new_obj cfg now sid parent n [] Local Unknown False"

text \<open>The calls below \<open>parent\<close>, the next free number being \<open>k\<close> and the next event \<open>t\<close>: the spans
  in the order they end, the next free number and the next event.\<close>

fun spans_of_call ::
  "build \<Rightarrow> (nat \<Rightarrow> SystemTime) \<Rightarrow> i32 \<Rightarrow> nat \<Rightarrow> nat \<Rightarrow> call \<Rightarrow> SpanObject list \<times> nat \<times> nat"
and spans_of_calls ::
  "build \<Rightarrow> (nat \<Rightarrow> SystemTime) \<Rightarrow> i32 \<Rightarrow> nat \<Rightarrow> nat \<Rightarrow> call list \<Rightarrow> SpanObject list \<times> nat \<times> nat" where
  "spans_of_call cfg clk parent k t (Call kd n cs) =
     (case spans_of_calls cfg clk (of_nat k) (Suc k) (Suc t) cs of
        (ss, k', t') \<Rightarrow>
          (ss @ [(kind_obj cfg (clk t) (of_nat k) parent kd n)\<lparr>end_time := fetch_time cfg (clk t') End\<rparr>],
           k', Suc t'))"
| "spans_of_calls cfg clk parent k t [] = ([], k, t)"
| "spans_of_calls cfg clk parent k t (c # cs) =
     (case spans_of_call cfg clk parent k t c of
        (ss, k', t') \<Rightarrow>
          (case spans_of_calls cfg clk parent k' t' cs of (ss', k'', t'') \<Rightarrow> (ss @ ss', k'', t'')))"

lemma spans_of_call_next:
  "fst (snd (spans_of_call cfg clk parent k t c)) = k + calls_size c"
  "fst (snd (spans_of_calls cfg clk parent k t cs)) = k + sum_list (map calls_size cs)"
  by (induction cfg clk parent k t c and cfg clk parent k t cs
      rule: spans_of_call_spans_of_calls.induct)
    (auto split: prod.splits)

section \<open>Refinement\<close>

text \<open>The finalized entries that closed spans leave.\<close>

definition closed :: "SpanObject list \<Rightarrow> FinalizeSpan list" where
  "closed ss = map (\<lambda>ob. FinalizeSpan_new (of_nat (nat (sint (span_id ob)))) (Some ob) None) ss"

lemma open_span_at:
  assumes "ctx_at k tc" and "Suc k < 2 ^ 31" and "0 < k \<or> kd = KEntry"
  shows "open_span cfg now kd n (tc, st) =
    ((ctx_after k n tc, stack_after k st),
     Inr (Span_new (of_nat k) (kind_obj cfg now (of_nat k) (parent_or_root st) kd n)))"
  using assms
  by (cases kd) (auto simp: create_entry_span_at create_exit_span_def create_local_span_def
      create_common_span_at)

lemma kind_obj_fields [simp]:
  "span_id (kind_obj cfg now sid parent kd n) = sid"
  "refs (kind_obj cfg now sid parent kd n) = []"
  by (cases kd; simp)+

lemma kind_obj_close:
  "close_obj e None (kind_obj cfg now sid parent kd n) = (kind_obj cfg now sid parent kd n)\<lparr>end_time := e\<rparr>"
  by (cases kd) (simp_all add: close_obj_def Span_new_obj_def)

lemma stack_after_popped:
  "(stack_after k st)\<lparr>active := active st, finalized := F\<rparr> = st\<lparr>finalized := F\<rparr>"
  by (simp add: stack_after_def)

text \<open>What a finished call, or a list of them, has done to the state.\<close>

definition ran ::
  "build \<Rightarrow> nat \<Rightarrow> SpanObject list \<times> nat \<times> nat \<Rightarrow> TracingContext \<times> Shared \<times> nat \<Rightarrow>
   (TracingContext \<times> Shared \<times> nat, unit) outcome \<Rightarrow> bool" where
  "ran cfg k spec s out \<longleftrightarrow>
     (case (spec, s, out) of ((ss, k', t'), (tc, sh, t), ((tc1, sh1, t1), r)) \<Rightarrow>
        r = Inr () \<and> t1 = t' \<and> ctx_at k' tc1 \<and>
        tc_trace_id tc1 = tc_trace_id tc \<and> tc_trace_segment_id tc1 = tc_trace_segment_id tc \<and>
        tc_service tc1 = tc_service tc \<and> tc_service_instance tc1 = tc_service_instance tc \<and>
        sh1 = sh\<lparr>sh_stack := (sh_stack sh)\<lparr>finalized := finalized (sh_stack sh) @ closed ss\<rparr>\<rparr>)"

lemma closed_append [simp]: "closed (xs @ ys) = closed xs @ closed ys"
  by (simp add: closed_def)

lemma closed_Nil [simp]: "closed [] = []"
  by (simp add: closed_def)

lemma run_call_Call:
  assumes at: "ctx_at k tc" and k: "Suc k < 2 ^ 31" and kd: "0 < k \<or> kd = KEntry"
    and IH: "ran cfg (Suc k) (spans_of_calls cfg clk (of_nat k) (Suc k) (Suc t) cs)
      (ctx_after k n tc, sh\<lparr>sh_stack := stack_after k (sh_stack sh)\<rparr>, Suc t)
      (run_calls cfg clk cs (ctx_after k n tc, sh\<lparr>sh_stack := stack_after k (sh_stack sh)\<rparr>, Suc t))"
  shows "ran cfg k (spans_of_call cfg clk (parent_or_root (sh_stack sh)) k t (Call kd n cs))
    (tc, sh, t) (run_call cfg clk (Call kd n cs) (tc, sh, t))"
proof -
  let ?st = "sh_stack sh"
  let ?sh1 = "sh\<lparr>sh_stack := stack_after k ?st\<rparr>"
  let ?ob = "kind_obj cfg (clk t) (of_nat k) (parent_or_root ?st) kd n"
  obtain ss k' t' where spec: "spans_of_calls cfg clk (of_nat k) (Suc k) (Suc t) cs = (ss, k', t')"
    by (metis prod.exhaust)
  obtain tc2 sh2 t2 r where run: "run_calls cfg clk cs (ctx_after k n tc, ?sh1, Suc t) = ((tc2, sh2, t2), r)"
    by (metis prod.exhaust)
  have r: "r = Inr ()" "t2 = t'" "ctx_at k' tc2" "tc_trace_id tc2 = tc_trace_id tc"
      "tc_trace_segment_id tc2 = tc_trace_segment_id tc" "tc_service tc2 = tc_service tc"
      "tc_service_instance tc2 = tc_service_instance tc"
    and sh2: "sh2 = ?sh1\<lparr>sh_stack := (stack_after k ?st)\<lparr>finalized := finalized ?st @ closed ss\<rparr>\<rparr>"
    using IH spec run by (simp_all add: ran_def)
  have "Span_drop cfg (clk t2) (Span_new (of_nat k) ?ob) sh2 =
      (sh\<lparr>sh_stack := ?st\<lparr>finalized := finalized ?st @ closed (ss @ [?ob\<lparr>end_time := fetch_time cfg (clk t2) End\<rparr>])\<rparr>\<rparr>, Inr ())"
  proof -
    have "active (sh_stack sh2) = active ?st @ [ActiveSpan_new (of_nat k) (of_nat k)]"
      by (simp add: sh2)
    from Span_drop_top [OF this, of "Span_new (of_nat k) ?ob" ?ob] show ?thesis
      using sint_of_nat_i32 [of k] k
      by (simp add: sh2 Span_new_def ActiveSpan_new_def closed_def kind_obj_close stack_after_popped)
  qed
  then show ?thesis
    using open_span_at [OF at k kd, of cfg "clk t" n ?st] run r spec
    by (simp add: ran_def)
qed

lemma run_calls_Cons:
  assumes IH1: "ran cfg k (ss, k1, t1) (tc, sh, t) (run_call cfg clk c (tc, sh, t))"
    and IH2: "\<And>tc1 sh1. ctx_at k1 tc1 \<Longrightarrow> parent_or_root (sh_stack sh1) = parent_or_root (sh_stack sh) \<Longrightarrow>
      ran cfg k1 (spans_of_calls cfg clk parent k1 t1 cs) (tc1, sh1, t1) (run_calls cfg clk cs (tc1, sh1, t1))"
    and spec: "spans_of_call cfg clk parent k t c = (ss, k1, t1)"
  shows "ran cfg k (spans_of_calls cfg clk parent k t (c # cs)) (tc, sh, t)
    (run_calls cfg clk (c # cs) (tc, sh, t))"
proof -
  obtain tc1 sh1 where run1: "run_call cfg clk c (tc, sh, t) = ((tc1, sh1, t1), Inr ())" "ctx_at k1 tc1"
    and sh1: "sh1 = sh\<lparr>sh_stack := (sh_stack sh)\<lparr>finalized := finalized (sh_stack sh) @ closed ss\<rparr>\<rparr>"
    and tc1: "tc_trace_id tc1 = tc_trace_id tc" "tc_trace_segment_id tc1 = tc_trace_segment_id tc"
      "tc_service tc1 = tc_service tc" "tc_service_instance tc1 = tc_service_instance tc"
    using IH1 by (auto simp: ran_def split: prod.splits)
  have "parent_or_root (sh_stack sh1) = parent_or_root (sh_stack sh)"
    by (simp add: sh1 parent_or_root_def peek_active_span_id_def active_span_def)
  from IH2 [OF run1(2) this] show ?thesis
    using run1 sh1 tc1 spec by (auto simp: ran_def split: prod.splits)
qed

lemma run_refines:
  "ctx_at k tc \<Longrightarrow> parent = parent_or_root (sh_stack sh) \<Longrightarrow> k + calls_size c < 2 ^ 31 \<Longrightarrow>
   0 < k \<or> (\<exists>n cs. c = Call KEntry n cs) \<Longrightarrow>
   ran cfg k (spans_of_call cfg clk parent k t c) (tc, sh, t) (run_call cfg clk c (tc, sh, t))"
  "ctx_at k tc \<Longrightarrow> parent = parent_or_root (sh_stack sh) \<Longrightarrow>
   k + sum_list (map calls_size cs) < 2 ^ 31 \<Longrightarrow> 0 < k \<Longrightarrow>
   ran cfg k (spans_of_calls cfg clk parent k t cs) (tc, sh, t) (run_calls cfg clk cs (tc, sh, t))"
proof (induction cfg clk parent k t c and cfg clk parent k t cs arbitrary: tc sh and tc sh
    rule: spans_of_call_spans_of_calls.induct)
  case (1 cfg clk parent k t kd n cs)
  let ?sh1 = "sh\<lparr>sh_stack := stack_after k (sh_stack sh)\<rparr>"
  have "ran cfg (Suc k) (spans_of_calls cfg clk (of_nat k) (Suc k) (Suc t) cs)
      (ctx_after k n tc, ?sh1, Suc t) (run_calls cfg clk cs (ctx_after k n tc, ?sh1, Suc t))"
    using "1.prems" by (intro "1.IH") (simp_all add: ActiveSpan_new_def)
  moreover have "Suc k < 2 ^ 31" "0 < k \<or> kd = KEntry" using "1.prems" by auto
  ultimately show ?case unfolding "1.prems"(2) using "1.prems"(1) by (intro run_call_Call)
next
  case (2 cfg clk parent k t)
  then show ?case by (simp add: ran_def)
next
  case (3 cfg clk parent k t c cs)
  obtain ss k1 t1 where spec: "spans_of_call cfg clk parent k t c = (ss, k1, t1)"
    by (metis prod.exhaust)
  have k1: "k1 = k + calls_size c" using spans_of_call_next(1) [of cfg clk parent k t c] spec by simp
  have "ran cfg k (ss, k1, t1) (tc, sh, t) (run_call cfg clk c (tc, sh, t))"
    using "3.IH"(1) [of tc sh] "3.prems" spec by simp
  then show ?case
  proof (rule run_calls_Cons [OF _ _ spec])
    fix tc1 and sh1 :: Shared
    assume "ctx_at k1 tc1" and "parent_or_root (sh_stack sh1) = parent_or_root (sh_stack sh)"
    then show "ran cfg k1 (spans_of_calls cfg clk parent k1 t1 cs) (tc1, sh1, t1)
        (run_calls cfg clk cs (tc1, sh1, t1))"
      using "3.prems" k1 by (intro "3.IH"(2) [OF spec [symmetric] refl]) auto
  qed
qed

section \<open>A whole request\<close>

text \<open>Create a context, run the request's call tree, drop the context.\<close>

definition run_request ::
  "'r report_fn \<Rightarrow> build \<Rightarrow> (nat \<Rightarrow> SystemTime) \<Rightarrow> u128 \<Rightarrow> u128 \<Rightarrow> Tracer \<Rightarrow> call \<Rightarrow> 'r \<Rightarrow> ('r, unit) outcome" where
  "run_request report cfg clk u1 u2 tr c r =
     (case run_call cfg clk c (create_trace_context u1 u2 tr,
             \<lparr>sh_stack = SpanStack_default, sh_wg = WaitGroup_default\<rparr>, 0) of
        (s, Inl p) \<Rightarrow> (r, Inl p)
      | ((tc, sh, t), Inr _) \<Rightarrow>
          (case TracingContext_drop report (Some tr) tc (sh_stack sh, r) of ((st, r'), x) \<Rightarrow> (r', x)))"

lemma those_closed: "those (map fs_obj (closed ss)) = Some ss"
  unfolding those_map_Some by (simp add: closed_def FinalizeSpan_new_def)

text \<open>A whole request, on any reporter that keeps its contract.\<close>

lemma request_reported:
  assumes rep: "reporter report delivered accepting" and acc: "accepting r"
    and size: "calls_size (Call KEntry n cs) < 2 ^ 31"
  shows "\<exists>r'. run_request report cfg clk u1 u2 tr (Call KEntry n cs) r = (r', Inr ()) \<and>
    delivered r' = delivered r @
      [Trace (segment_of (create_trace_context u1 u2 tr)
         (fst (spans_of_call cfg clk (-1) 0 0 (Call KEntry n cs))))]"
proof -
  let ?tc = "create_trace_context u1 u2 tr" and ?c = "Call KEntry n cs"
  let ?sh = "\<lparr>sh_stack = SpanStack_default, sh_wg = WaitGroup_default\<rparr>"
  obtain ss k' t' where spec: "spans_of_call cfg clk (-1) 0 0 ?c = (ss, k', t')" by (metis prod.exhaust)
  have "ctx_at 0 ?tc" by (simp add: create_trace_context_def ctx_at_new)
  moreover have "parent_or_root (sh_stack ?sh) = -1" by (simp add: SpanStack_default_def)
  ultimately have "ran cfg 0 (ss, k', t') (?tc, ?sh, 0) (run_call cfg clk ?c (?tc, ?sh, 0))"
    using run_refines(1) [of 0 ?tc "-1" ?sh ?c cfg clk 0] size spec by simp
  then obtain tc1 where run: "run_call cfg clk ?c (?tc, ?sh, 0) =
      ((tc1, ?sh\<lparr>sh_stack := SpanStack_default\<lparr>finalized := closed ss\<rparr>\<rparr>, t'), Inr ())"
    and tc1: "tc_trace_id tc1 = tc_trace_id ?tc" "tc_trace_segment_id tc1 = tc_trace_segment_id ?tc"
      "tc_service tc1 = tc_service ?tc" "tc_service_instance tc1 = tc_service_instance ?tc"
    by (auto simp: ran_def SpanStack_default_def split: prod.splits)
  have seg: "segment_of tc1 ss = segment_of ?tc ss" using tc1 by (simp add: segment_of_def)
  have "map fs_obj (closed ss) = map Some ss" using those_closed by (simp add: those_map_Some)
  then have "convert_to_segment_object tc1 (SpanStack_default\<lparr>finalized := closed ss\<rparr>) =
      (SpanStack_default, Inr (segment_of ?tc ss))"
    by (auto simp: convert_segment_of seg SpanStack_default_def)
  with reporter.report_accepting [OF rep acc, of "Trace (segment_of ?tc ss)"] run spec show ?thesis
    by (auto simp: run_request_def TracingContext_drop_def upgrade_tracer_def finalize_context_def
        simp del: run_call.simps)
qed

text \<open>
  C1. The guard pattern reports the call tree.  A request whose root is an entry span and whose
  calls are fewer than \<open>2 ^ 31\<close> runs without a panic, and an accepting reporter receives exactly
  one segment: its spans are those the specification computes from the tree alone, numbered in
  the order the calls start, listed in the order they end, each with the enclosing call as its
  parent and with its start and end time; the segment carries the ids and names of the context.
\<close>

theorem request_reports_its_call_tree:
  assumes rep: "reporter report delivered accepting" and acc: "accepting r"
    and size: "calls_size (Call KEntry n cs) < 2 ^ 31"
  shows "\<exists>r'. run_request report cfg clk u1 u2 tr (Call KEntry n cs) r = (r', Inr ()) \<and>
    delivered r' = delivered r @
      [Trace (segment_of (create_trace_context u1 u2 tr)
         (fst (spans_of_call cfg clk (-1) 0 0 (Call KEntry n cs))))]"
  using request_reported [OF assms] .

definition sample_tree_calls :: "call list" where
  "sample_tree_calls = [Call KLocal ''load'' [], Call (KExit ''db:3306'') ''query'' [Call KLocal ''parse'' []]]"

theorem request_reports_its_call_tree_witness:
  "\<exists>r'. run_request PrintReporter_report dev_build (\<lambda>t. 0) 1 2 (Tracer_new ''s'' ''i'')
      (Call KEntry ''/api'' sample_tree_calls) (PrintReporter_new, \<lparr>stdout_lines = [], stderr_lines = []\<rparr>) = (r', Inr ()) \<and>
    map (\<lambda>i. case i of Trace s \<Rightarrow> map (\<lambda>o'. (operation_name o', sint (span_id o'), sint (parent_span_id o'))) (seg_spans s)
        | _ \<Rightarrow> []) (printed r') =
      [[(''load'', 1, 0), (''parse'', 3, 2), (''query'', 2, 0), (''/api'', 0, -1)]]"
proof -
  have spec: "map (\<lambda>o'. (operation_name o', sint (span_id o'), sint (parent_span_id o')))
      (fst (spans_of_call dev_build (\<lambda>t. 0) (-1) 0 0 (Call KEntry ''/api'' sample_tree_calls))) =
    [(''load'', 1, 0), (''parse'', 3, 2), (''query'', 2, 0), (''/api'', 0, -1)]"
    by code_simp
  have "calls_size (Call KEntry ''/api'' sample_tree_calls) < 2 ^ 31"
    by (simp add: sample_tree_calls_def)
  moreover have "printed (PrintReporter_new, \<lparr>stdout_lines = [], stderr_lines = []\<rparr>) = []"
    by (simp add: printed_def)
  ultimately obtain r' where "run_request PrintReporter_report dev_build (\<lambda>t. 0) 1 2 (Tracer_new ''s'' ''i'')
      (Call KEntry ''/api'' sample_tree_calls) (PrintReporter_new, \<lparr>stdout_lines = [], stderr_lines = []\<rparr>) = (r', Inr ())"
    "printed r' = [Trace (segment_of (create_trace_context 1 2 (Tracer_new ''s'' ''i''))
      (fst (spans_of_call dev_build (\<lambda>t. 0) (-1) 0 0 (Call KEntry ''/api'' sample_tree_calls))))]"
    using request_reports_its_call_tree [OF print.reporter_axioms] by fastforce
  with spec show ?thesis by (simp add: segment_of_def del: spans_of_call.simps)
qed

end
