(* ===== verification/Span_Locks.thy ===== *)
theory Span_Locks
  imports Tracing_Context Errors
begin

text \<open>
  The locks of \<open>SpanStack\<close> (\<^verbatim>\<open>src/src/trace/trace_context.rs\<close>).  The stack is shared between the thread
  that owns the tracing context and the threads that hold an \<open>AsyncSpan\<close>; its two vectors are behind
  \<open>parking_lot::RwLock\<close>s that are only ever tried, never waited for: a lock that is taken is a panic
  with \<open>LOCK_MSG\<close>.  The theories \<open>Span\<close> and \<open>Trace_Machine\<close> run every operation as one step; here an
  operation is the sequence of its critical sections, a section copies the vector when it is entered
  and writes it back when it is left, and the threads interleave between any two of these events.
  The lock is a parameter with the contract \<open>rwlock\<close>.
\<close>

section \<open>The lock\<close>

record 'l rwlock_ops =
  rw_try_read :: "'l \<Rightarrow> 'l option"
  rw_try_write :: "'l \<Rightarrow> 'l option"
  rw_unlock_read :: "'l \<Rightarrow> 'l"
  rw_unlock_write :: "'l \<Rightarrow> 'l"

text \<open>A guard is the lock after it was taken; \<open>expect(LOCK_MSG)\<close> is the panic.\<close>

definition SpanStack_finalized :: "'l rwlock_ops \<Rightarrow> 'l \<Rightarrow> 'l res" where
  "SpanStack_finalized rw l = (case rw_try_read rw l of Some l' \<Rightarrow> Inr l' | None \<Rightarrow> Inl (Panic LOCK_MSG))"

definition SpanStack_finalized_mut :: "'l rwlock_ops \<Rightarrow> 'l \<Rightarrow> 'l res" where
  "SpanStack_finalized_mut rw l = (case rw_try_write rw l of Some l' \<Rightarrow> Inr l' | None \<Rightarrow> Inl (Panic LOCK_MSG))"

definition SpanStack_active :: "'l rwlock_ops \<Rightarrow> 'l \<Rightarrow> 'l res" where
  "SpanStack_active rw l = (case rw_try_read rw l of Some l' \<Rightarrow> Inr l' | None \<Rightarrow> Inl (Panic LOCK_MSG))"

definition SpanStack_active_mut :: "'l rwlock_ops \<Rightarrow> 'l \<Rightarrow> 'l res" where
  "SpanStack_active_mut rw l = (case rw_try_write rw l of Some l' \<Rightarrow> Inr l' | None \<Rightarrow> Inl (Panic LOCK_MSG))"

definition finalize_spans_mut :: "'l rwlock_ops \<Rightarrow> 'l \<Rightarrow> 'l res" where
  "finalize_spans_mut rw l = (case rw_try_write rw l of Some l' \<Rightarrow> Inr l' | None \<Rightarrow> Inl (Panic LOCK_MSG))"

definition active_span_stack :: "'l rwlock_ops \<Rightarrow> 'l \<Rightarrow> 'l res" where
  "active_span_stack rw l = SpanStack_active rw l"

definition active_span_stack_mut :: "'l rwlock_ops \<Rightarrow> 'l \<Rightarrow> 'l res" where
  "active_span_stack_mut rw l = SpanStack_active_mut rw l"

text \<open>What the documentation of the lock promises: any number of readers or one writer.\<close>

locale rwlock =
  fixes rw :: "'l rwlock_ops"
    and readers :: "'l \<Rightarrow> nat"
    and writer :: "'l \<Rightarrow> bool"
  assumes try_read_refused: "writer l \<Longrightarrow> rw_try_read rw l = None"
    and try_read_granted: "\<not> writer l \<Longrightarrow>
      \<exists>l'. rw_try_read rw l = Some l' \<and> readers l' = Suc (readers l) \<and> \<not> writer l'"
    and try_write_refused: "writer l \<or> 0 < readers l \<Longrightarrow> rw_try_write rw l = None"
    and try_write_granted: "\<not> writer l \<Longrightarrow> readers l = 0 \<Longrightarrow>
      \<exists>l'. rw_try_write rw l = Some l' \<and> readers l' = 0 \<and> writer l'"
    and unlock_read: "0 < readers l \<Longrightarrow> readers (rw_unlock_read rw l) = readers l - 1"
      "writer (rw_unlock_read rw l) = writer l"
    and unlock_write: "\<not> writer (rw_unlock_write rw l)" "readers (rw_unlock_write rw l) = readers l"

text \<open>The lock as a number of readers and a flag.\<close>

definition counting_rwlock :: "(nat \<times> bool) rwlock_ops" where
  "counting_rwlock =
     \<lparr>rw_try_read = (\<lambda>(n, w). if w then None else Some (Suc n, False)),
      rw_try_write = (\<lambda>(n, w). if w \<or> 0 < n then None else Some (0, True)),
      rw_unlock_read = (\<lambda>(n, w). (n - 1, w)),
      rw_unlock_write = (\<lambda>(n, w). (n, False))\<rparr>"

interpretation cl: rwlock counting_rwlock fst snd
  by unfold_locales (auto simp: counting_rwlock_def)

section \<open>Threads and their critical sections\<close>

text \<open>
  The critical sections of the crate: \<open>PopActive\<close> and \<open>PushFinalized\<close> are the two of \<open>finalize_span\<close>,
  \<open>FillAsync\<close> that of \<open>finalize_async_span\<close>, after which \<open>Drop for AsyncSpan\<close> does \<open>CallDone\<close>;
  \<open>PushActive\<close> is that of \<open>push_active_span\<close>, \<open>PeekActive\<close> that of \<open>active_span\<close>, \<open>LastSpan\<close> that of
  \<open>last_span\<close> and \<open>TakeFinalized\<close> that of \<open>convert_to_segment_object\<close>.
\<close>

datatype section_code =
    PopActive SystemTime SpanUid "SpanObject option"
  | PushFinalized SystemTime SpanUid "SpanObject option" ActiveSpan
  | FillAsync SystemTime SpanUid SpanObject
  | CallDone
  | PushActive ActiveSpan
  | PeekActive
  | LastSpan
  | TakeFinalized TracingContext

datatype lock_name = FinalizedLock | ActiveLock

datatype access = ReadAccess | WriteAccess

lemma ex_access: "(\<exists>a. P a) \<longleftrightarrow> P ReadAccess \<or> P WriteAccess"
  by (metis access.exhaust)

fun section_mode :: "section_code \<Rightarrow> (lock_name \<times> access) option" where
  "section_mode (PopActive now uid ob) = Some (ActiveLock, WriteAccess)"
| "section_mode (PushFinalized now uid ob a) = Some (FinalizedLock, WriteAccess)"
| "section_mode (FillAsync now uid ob) = Some (FinalizedLock, WriteAccess)"
| "section_mode CallDone = None"
| "section_mode (PushActive a) = Some (ActiveLock, WriteAccess)"
| "section_mode PeekActive = Some (ActiveLock, ReadAccess)"
| "section_mode LastSpan = Some (FinalizedLock, ReadAccess)"
| "section_mode (TakeFinalized tc) = Some (FinalizedLock, WriteAccess)"

definition finalized_entry ::
  "build \<Rightarrow> SystemTime \<Rightarrow> SpanUid \<Rightarrow> SpanObject option \<Rightarrow> ActiveSpan \<Rightarrow> FinalizeSpan" where
  "finalized_entry cfg now uid obj a =
     (case obj of
        Some ob \<Rightarrow> FinalizeSpan_new uid (Some (close_obj (fetch_time cfg now End) (as_ref a) ob)) None
      | None \<Rightarrow> FinalizeSpan_new uid None (as_ref a))"

text \<open>What a section does to the stack it saw, and the sections it goes on with.\<close>

fun run_section :: "build \<Rightarrow> section_code \<Rightarrow> SpanStack \<Rightarrow> (SpanStack, section_code list) outcome" where
  "run_section cfg (PopActive now uid ob) st =
     (case pop_active uid st of
        (st', None) \<Rightarrow> (st', Inl not_active_panic)
      | (st', Some a) \<Rightarrow> (st', Inr [PushFinalized now uid ob a]))"
| "run_section cfg (PushFinalized now uid ob a) st =
     (st\<lparr>finalized := finalized st @ [finalized_entry cfg now uid ob a]\<rparr>, Inr [])"
| "run_section cfg (FillAsync now uid ob) st =
     (case finalize_async_span cfg now uid ob st of
        (st', Inl p) \<Rightarrow> (st', Inl p)
      | (st', Inr _) \<Rightarrow> (st', Inr [CallDone]))"
| "run_section cfg CallDone st = (st, Inr [])"
| "run_section cfg (PushActive a) st = (st\<lparr>active := active st @ [a]\<rparr>, Inr [])"
| "run_section cfg PeekActive st = (st, Inr [])"
| "run_section cfg LastSpan st = (st, Inr [])"
| "run_section cfg (TakeFinalized tc) st =
     (case convert_to_segment_object tc st of (st', r) \<Rightarrow> (st', map_sum id (\<lambda>_. []) r))"

text \<open>A thread inside a section holds the copy of the stack it made when it entered.\<close>

record lock_thread =
  th_code :: "section_code list"
  th_seen :: "SpanStack option"
  th_panic :: "panic option"

record 'l lock_world =
  lw_stack :: SpanStack
  lw_finalized_lock :: 'l
  lw_active_lock :: 'l
  lw_wg :: WaitGroup
  lw_threads :: "lock_thread list"

text \<open>The accessor each section calls.\<close>

fun section_guard :: "'l rwlock_ops \<Rightarrow> section_code \<Rightarrow> 'l \<Rightarrow> 'l res" where
  "section_guard rw (PopActive now uid ob) l = SpanStack_active_mut rw l"
| "section_guard rw (PushFinalized now uid ob a) l = SpanStack_finalized_mut rw l"
| "section_guard rw (FillAsync now uid ob) l = SpanStack_finalized_mut rw l"
| "section_guard rw CallDone l = Inr l"
| "section_guard rw (PushActive a) l = active_span_stack_mut rw l"
| "section_guard rw PeekActive l = active_span_stack rw l"
| "section_guard rw LastSpan l = SpanStack_finalized rw l"
| "section_guard rw (TakeFinalized tc) l = finalize_spans_mut rw l"

fun lock_of :: "lock_name \<Rightarrow> 'l lock_world \<Rightarrow> 'l" where
  "lock_of FinalizedLock w = lw_finalized_lock w"
| "lock_of ActiveLock w = lw_active_lock w"

fun set_lock :: "lock_name \<Rightarrow> 'l \<Rightarrow> 'l lock_world \<Rightarrow> 'l lock_world" where
  "set_lock FinalizedLock l w = w\<lparr>lw_finalized_lock := l\<rparr>"
| "set_lock ActiveLock l w = w\<lparr>lw_active_lock := l\<rparr>"

text \<open>Leaving writes back the vector that the lock guards, and no other, and only under a write
  lock.\<close>

fun write_back :: "lock_name \<times> access \<Rightarrow> SpanStack \<Rightarrow> SpanStack \<Rightarrow> SpanStack" where
  "write_back (FinalizedLock, WriteAccess) st old = old\<lparr>finalized := finalized st\<rparr>"
| "write_back (ActiveLock, WriteAccess) st old = old\<lparr>active := active st\<rparr>"
| "write_back (L, ReadAccess) st old = old"

fun unlock :: "'l rwlock_ops \<Rightarrow> access \<Rightarrow> 'l \<Rightarrow> 'l" where
  "unlock rw ReadAccess l = rw_unlock_read rw l"
| "unlock rw WriteAccess l = rw_unlock_write rw l"

definition release :: "'l rwlock_ops \<Rightarrow> lock_name \<times> access \<Rightarrow> SpanStack \<Rightarrow> 'l lock_world \<Rightarrow> 'l lock_world" where
  "release rw m st w =
     set_lock (fst m) (unlock rw (snd m) (lock_of (fst m) w)) (w\<lparr>lw_stack := write_back m st (lw_stack w)\<rparr>)"

datatype lock_event = Enter nat | Leave nat | Done nat

definition set_thread :: "nat \<Rightarrow> lock_thread \<Rightarrow> 'l lock_world \<Rightarrow> 'l lock_world" where
  "set_thread t th w = w\<lparr>lw_threads := (lw_threads w)[t := th]\<rparr>"

definition runnable :: "nat \<Rightarrow> 'l lock_world \<Rightarrow> bool" where
  "runnable t w \<longleftrightarrow> t < length (lw_threads w) \<and> th_panic (lw_threads w ! t) = None \<and> th_code (lw_threads w ! t) \<noteq> []"

text \<open>\<open>None\<close>: the event cannot happen.  A thread that panicked keeps the code it will never run.\<close>

fun lock_step :: "'l rwlock_ops \<Rightarrow> build \<Rightarrow> lock_event \<Rightarrow> 'l lock_world \<Rightarrow> 'l lock_world option" where
  "lock_step rw cfg (Enter t) w =
     (if runnable t w \<and> th_seen (lw_threads w ! t) = None then
        (case section_mode (hd (th_code (lw_threads w ! t))) of
           None \<Rightarrow> None
         | Some (L, a) \<Rightarrow> Some (case section_guard rw (hd (th_code (lw_threads w ! t))) (lock_of L w) of
               Inl p \<Rightarrow> set_thread t ((lw_threads w ! t)\<lparr>th_panic := Some p\<rparr>) w
             | Inr l \<Rightarrow> set_thread t ((lw_threads w ! t)\<lparr>th_seen := Some (lw_stack w)\<rparr>) (set_lock L l w)))
      else None)"
| "lock_step rw cfg (Leave t) w =
     (if runnable t w then
        (case (th_seen (lw_threads w ! t), section_mode (hd (th_code (lw_threads w ! t)))) of
           (Some seen, Some m) \<Rightarrow>
             (case run_section cfg (hd (th_code (lw_threads w ! t))) seen of
                (st', Inl p) \<Rightarrow> Some (set_thread t ((lw_threads w ! t)\<lparr>th_seen := None, th_panic := Some p\<rparr>)
                  (release rw m st' w))
              | (st', Inr k) \<Rightarrow> Some (set_thread t
                  ((lw_threads w ! t)\<lparr>th_seen := None, th_code := k @ List.tl (th_code (lw_threads w ! t))\<rparr>)
                  (release rw m st' w)))
         | _ \<Rightarrow> None)
      else None)"
| "lock_step rw cfg (Done t) w =
     (if runnable t w \<and> hd (th_code (lw_threads w ! t)) = CallDone then
        (case WaitGroup_done cfg (lw_wg w) of
           (wg', Inl p) \<Rightarrow> Some (set_thread t ((lw_threads w ! t)\<lparr>th_panic := Some p\<rparr>) (w\<lparr>lw_wg := wg'\<rparr>))
         | (wg', Inr _) \<Rightarrow> Some (set_thread t
             ((lw_threads w ! t)\<lparr>th_code := List.tl (th_code (lw_threads w ! t))\<rparr>) (w\<lparr>lw_wg := wg'\<rparr>)))
      else None)"

fun lock_run :: "'l rwlock_ops \<Rightarrow> build \<Rightarrow> lock_event list \<Rightarrow> 'l lock_world \<Rightarrow> 'l lock_world option" where
  "lock_run rw cfg [] w = Some w"
| "lock_run rw cfg (e # es) w =
     (case lock_step rw cfg e w of None \<Rightarrow> None | Some w' \<Rightarrow> lock_run rw cfg es w')"

section \<open>Mutual exclusion\<close>

lemma set_lock_simps [simp]:
  "lock_of L' (set_lock L l w) = (if L' = L then l else lock_of L' w)"
  "lw_threads (set_lock L l w) = lw_threads w" "lw_stack (set_lock L l w) = lw_stack w"
  "lw_wg (set_lock L l w) = lw_wg w"
  by (cases L; cases L'; simp)+

lemma lock_of_updates [simp]:
  "lock_of L (w\<lparr>lw_threads := ths\<rparr>) = lock_of L w" "lock_of L (w\<lparr>lw_wg := g\<rparr>) = lock_of L w"
  "lock_of L (w\<lparr>lw_stack := st\<rparr>) = lock_of L w"
  by (cases L; simp)+

lemma release_simps [simp]:
  "lock_of L (release rw m st w) =
     (if L = fst m then unlock rw (snd m) (lock_of L w) else lock_of L w)"
  "lw_threads (release rw m st w) = lw_threads w" "lw_wg (release rw m st w) = lw_wg w"
  "lw_stack (release rw m st w) = write_back m st (lw_stack w)"
  by (simp_all add: release_def)

lemma set_thread_simps [simp]:
  "lock_of L (set_thread t th w) = lock_of L w" "lw_stack (set_thread t th w) = lw_stack w"
  "lw_wg (set_thread t th w) = lw_wg w" "lw_threads (set_thread t th w) = (lw_threads w)[t := th]"
  by (simp_all add: set_thread_def)

text \<open>What a guard needs and gives, for every section.\<close>

lemma section_guard_access:
  "section_mode c = Some (L, WriteAccess) \<Longrightarrow>
     section_guard rw c l = (case rw_try_write rw l of Some l' \<Rightarrow> Inr l' | None \<Rightarrow> Inl (Panic LOCK_MSG))"
  "section_mode c = Some (L, ReadAccess) \<Longrightarrow>
     section_guard rw c l = (case rw_try_read rw l of Some l' \<Rightarrow> Inr l' | None \<Rightarrow> Inl (Panic LOCK_MSG))"
  by (cases c; simp add: SpanStack_active_mut_def SpanStack_finalized_mut_def SpanStack_finalized_def
      SpanStack_active_def active_span_stack_def active_span_stack_mut_def finalize_spans_mut_def)+

definition in_section :: "lock_name \<times> access \<Rightarrow> lock_thread \<Rightarrow> bool" where
  "in_section m th \<longleftrightarrow> th_seen th \<noteq> None \<and> th_code th \<noteq> [] \<and> section_mode (hd (th_code th)) = Some m"

definition holders :: "lock_name \<times> access \<Rightarrow> 'l lock_world \<Rightarrow> nat" where
  "holders m w = length (filter (in_section m) (lw_threads w))"

lemma in_section_outside [simp]: "th_seen th = None \<Longrightarrow> \<not> in_section m th"
  by (simp add: in_section_def)

lemma holders_set_thread:
  assumes "t < length (lw_threads w)" and "lw_threads w' = (lw_threads w)[t := th]"
  shows "holders m w' + (if in_section m (lw_threads w ! t) then 1 else 0) =
    holders m w + (if in_section m th then 1 else 0)"
  using length_filter_update [OF assms(1), of "in_section m" th] assms(2) by (simp add: holders_def)

fun same_vector :: "lock_name \<Rightarrow> SpanStack \<Rightarrow> SpanStack \<Rightarrow> bool" where
  "same_vector FinalizedLock st st' \<longleftrightarrow> finalized st = finalized st'"
| "same_vector ActiveLock st st' \<longleftrightarrow> active st = active st'"

lemma same_vector_refl [simp]: "same_vector L st st"
  by (cases L) simp_all

lemma same_vector_other:
  "same_vector L seen st \<Longrightarrow> L \<noteq> L' \<or> a = ReadAccess \<Longrightarrow> same_vector L seen (write_back (L', a) st' st)"
  by (cases L; cases L'; cases a) auto

text \<open>The copy of every thread in a section is up to date.\<close>

definition seen_ok :: "'l lock_world \<Rightarrow> bool" where
  "seen_ok w \<longleftrightarrow> (\<forall>t < length (lw_threads w). \<forall>seen. th_seen (lw_threads w ! t) = Some seen \<longrightarrow>
     (\<exists>L a. in_section (L, a) (lw_threads w ! t) \<and> same_vector L seen (lw_stack w)))"

lemma lock_step_EnterE:
  assumes "lock_step rw cfg (Enter t) w = Some w'"
  obtains (refused) L a p where "runnable t w" "th_seen (lw_threads w ! t) = None"
      "section_mode (hd (th_code (lw_threads w ! t))) = Some (L, a)"
      "section_guard rw (hd (th_code (lw_threads w ! t))) (lock_of L w) = Inl p"
      "w' = set_thread t ((lw_threads w ! t)\<lparr>th_panic := Some p\<rparr>) w"
  | (granted) L a l where "runnable t w" "th_seen (lw_threads w ! t) = None"
      "section_mode (hd (th_code (lw_threads w ! t))) = Some (L, a)"
      "section_guard rw (hd (th_code (lw_threads w ! t))) (lock_of L w) = Inr l"
      "w' = set_thread t ((lw_threads w ! t)\<lparr>th_seen := Some (lw_stack w)\<rparr>) (set_lock L l w)"
  using assms by (auto split: if_splits option.splits sum.splits)

lemma lock_step_LeaveE:
  assumes "lock_step rw cfg (Leave t) w = Some w'"
  obtains L a seen st' r where "runnable t w" "th_seen (lw_threads w ! t) = Some seen"
      "section_mode (hd (th_code (lw_threads w ! t))) = Some (L, a)"
      "run_section cfg (hd (th_code (lw_threads w ! t))) seen = (st', r)"
      "w' = set_thread t (case r of
           Inl p \<Rightarrow> (lw_threads w ! t)\<lparr>th_seen := None, th_panic := Some p\<rparr>
         | Inr k \<Rightarrow> (lw_threads w ! t)\<lparr>th_seen := None, th_code := k @ List.tl (th_code (lw_threads w ! t))\<rparr>)
         (release rw (L, a) st' w)"
  using assms by (auto split: if_splits option.splits sum.splits prod.splits)

lemma lock_step_DoneE:
  assumes "lock_step rw cfg (Done t) w = Some w'"
  obtains wg' r where "runnable t w" "hd (th_code (lw_threads w ! t)) = CallDone"
      "WaitGroup_done cfg (lw_wg w) = (wg', r)"
      "w' = set_thread t (case r of
           Inl p \<Rightarrow> (lw_threads w ! t)\<lparr>th_panic := Some p\<rparr>
         | Inr _ \<Rightarrow> (lw_threads w ! t)\<lparr>th_code := List.tl (th_code (lw_threads w ! t))\<rparr>) (w\<lparr>lw_wg := wg'\<rparr>)"
  using assms by (auto split: if_splits sum.splits prod.splits)

context rwlock
begin

definition lock_counts :: "'l lock_world \<Rightarrow> lock_name \<Rightarrow> bool" where
  "lock_counts w L \<longleftrightarrow> holders (L, WriteAccess) w = (if writer (lock_of L w) then 1 else 0) \<and>
     holders (L, ReadAccess) w = readers (lock_of L w) \<and> (writer (lock_of L w) \<longrightarrow> readers (lock_of L w) = 0)"

definition lock_inv :: "'l lock_world \<Rightarrow> bool" where
  "lock_inv w \<longleftrightarrow> (\<forall>L. lock_counts w L) \<and> seen_ok w"

text \<open>The section a thread is in excludes every other one on the same lock, unless both read.\<close>

lemma exclusion:
  assumes "lock_inv w" and "t < length (lw_threads w)" and "u < length (lw_threads w)" and "t \<noteq> u"
    and "in_section (L, WriteAccess) (lw_threads w ! t)"
  shows "\<not> in_section (L, a) (lw_threads w ! u)"
proof
  assume u: "in_section (L, a) (lw_threads w ! u)"
  from assms(1) have c: "lock_counts w L" by (simp add: lock_inv_def)
  have pos: "0 < holders (L, b) w" if "x < length (lw_threads w)" "in_section (L, b) (lw_threads w ! x)" for b x
    using that nth_mem by (fastforce simp: holders_def filter_empty_conv)
  from c pos [OF assms(2,5)] have "holders (L, WriteAccess) w = 1" "readers (lock_of L w) = 0"
    by (auto simp: lock_counts_def split: if_splits)
  moreover from c pos [OF assms(3) u] this have "a = WriteAccess"
    by (cases a) (auto simp: lock_counts_def)
  moreover have "2 \<le> holders (L, WriteAccess) w" if "a = WriteAccess"
    unfolding holders_def using length_filter_two [OF assms(2,3,4)] assms(5) u that by blast
  ultimately show False by simp
qed

text \<open>A thread that stays outside changes nothing for the locks.\<close>

lemma lock_inv_outside:
  assumes "lock_inv w" and "t < length (lw_threads w)" and "th_seen (lw_threads w ! t) = None"
    and "th_seen th = None" and "lw_threads w' = (lw_threads w)[t := th]"
    and "\<And>L. lock_of L w' = lock_of L w" and "lw_stack w' = lw_stack w"
  shows "lock_inv w'"
proof -
  have "holders m w' = holders m w" for m
    using holders_set_thread [OF assms(2,5), of m] assms(3,4) by simp
  moreover have "seen_ok w'"
    using assms by (auto simp: seen_ok_def lock_inv_def nth_list_update)
  ultimately show ?thesis using assms(1,6) by (simp add: lock_inv_def lock_counts_def)
qed

lemma guard_refused_iff:
  assumes "section_mode c = Some (L, a)"
  shows "section_guard rw c l = Inl p \<longleftrightarrow>
    p = Panic LOCK_MSG \<and> (writer l \<or> a = WriteAccess \<and> 0 < readers l)"
proof (cases a)
  case ReadAccess
  then show ?thesis
    using assms try_read_refused [of l] try_read_granted [of l]
    by (cases "writer l") (auto simp: section_guard_access(2))
next
  case WriteAccess
  then show ?thesis
    using assms try_write_refused [of l] try_write_granted [of l]
    by (cases "writer l \<or> 0 < readers l") (auto simp: section_guard_access(1))
qed

lemma guard_granted:
  assumes "section_mode c = Some (L, a)" and "section_guard rw c l = Inr l'"
  shows "\<not> writer l" and "a = WriteAccess \<Longrightarrow> readers l = 0 \<and> readers l' = 0 \<and> writer l'"
    and "a = ReadAccess \<Longrightarrow> readers l' = Suc (readers l) \<and> \<not> writer l'"
proof -
  have "section_guard rw c l \<noteq> Inl (Panic LOCK_MSG)" using assms(2) by simp
  then have free: "\<not> (writer l \<or> a = WriteAccess \<and> 0 < readers l)"
    using guard_refused_iff [OF assms(1), of l "Panic LOCK_MSG"] by blast
  then show "\<not> writer l" by blast
  show "a = WriteAccess \<Longrightarrow> readers l = 0 \<and> readers l' = 0 \<and> writer l'"
    using free assms try_write_granted [of l] by (auto simp: section_guard_access(1))
  show "a = ReadAccess \<Longrightarrow> readers l' = Suc (readers l) \<and> \<not> writer l'"
    using free assms try_read_granted [of l] by (auto simp: section_guard_access(2))
qed

lemma enter_inv:
  assumes "lock_step rw cfg (Enter t) w = Some w'" and "lock_inv w"
  shows "lock_inv w'"
  using assms(1)
proof (cases rule: lock_step_EnterE)
  case (refused L a p)
  then show ?thesis
    by (intro lock_inv_outside [OF assms(2), where t = t]) (auto simp: runnable_def)
next
  case (granted L a l)
  let ?th = "(lw_threads w ! t)\<lparr>th_seen := Some (lw_stack w)\<rparr>"
  have t: "t < length (lw_threads w)" using granted(1) by (simp add: runnable_def)
  have sec: "in_section m ?th \<longleftrightarrow> m = (L, a)" for m
    using granted(1,3) by (auto simp: in_section_def runnable_def)
  have h: "holders m w' = holders m w + (if m = (L, a) then 1 else 0)" for m
    using holders_set_thread [of t w w' ?th m] t sec granted(2,5) by simp
  have "lock_counts w' L'" for L'
    using assms(2) guard_granted [OF granted(3,4)] h [of "(L', ReadAccess)"] h [of "(L', WriteAccess)"] granted(5)
    by (cases a) (auto simp: lock_inv_def lock_counts_def)
  moreover have "seen_ok w'"
    unfolding seen_ok_def
  proof (intro allI impI)
    fix u seen assume "u < length (lw_threads w')" "th_seen (lw_threads w' ! u) = Some seen"
    then show "\<exists>L a. in_section (L, a) (lw_threads w' ! u) \<and> same_vector L seen (lw_stack w')"
      using assms(2) granted(5) sec [of "(L, a)"] by (cases "u = t") (auto simp: seen_ok_def lock_inv_def)
  qed
  ultimately show ?thesis by (simp add: lock_inv_def)
qed

lemma leave_inv:
  assumes "lock_step rw cfg (Leave t) w = Some w'" and inv: "lock_inv w"
  shows "lock_inv w'"
  using assms(1)
proof (cases rule: lock_step_LeaveE)
  case (1 L a seen st' r)
  then have t: "t < length (lw_threads w)" by (simp add: runnable_def)
  have sec: "in_section m (lw_threads w ! t) \<longleftrightarrow> m = (L, a)" for m
    using 1(1-3) by (auto simp: in_section_def runnable_def)
  define th where "th = (case r of
           Inl p \<Rightarrow> (lw_threads w ! t)\<lparr>th_seen := None, th_panic := Some p\<rparr>
         | Inr k \<Rightarrow> (lw_threads w ! t)\<lparr>th_seen := None, th_code := k @ List.tl (th_code (lw_threads w ! t))\<rparr>)"
  have th: "th_seen th = None" "w' = set_thread t th (release rw (L, a) st' w)"
    using 1(5) by (simp_all add: th_def split: sum.split)
  have h: "holders m w = holders m w' + (if m = (L, a) then 1 else 0)" for m
    using holders_set_thread [of t w w' th m] t sec th by simp
  have "lock_counts w' L'" for L'
  proof (cases "L' = L")
    case True
    have "lock_counts w L" using inv by (simp add: lock_inv_def)
    with True unlock_read [of "lock_of L w"] unlock_write [of "lock_of L w"] th(2)
      h [of "(L, ReadAccess)"] h [of "(L, WriteAccess)"]
    show ?thesis by (cases a; cases "writer (lock_of L w)") (simp_all add: lock_counts_def, linarith?)
  next
    case False
    then have "holders (L', b) w' = holders (L', b) w" for b using h [of "(L', b)"] by simp
    with False inv th(2) show ?thesis by (simp add: lock_inv_def lock_counts_def)
  qed
  moreover have "seen_ok w'"
    unfolding seen_ok_def
  proof (intro allI impI)
    fix u seen' assume u: "u < length (lw_threads w')" "th_seen (lw_threads w' ! u) = Some seen'"
    with th t have "u \<noteq> t" "u < length (lw_threads w)" "lw_threads w' ! u = lw_threads w ! u"
      by (auto simp: nth_list_update)
    moreover from this u inv obtain L' a' where "in_section (L', a') (lw_threads w ! u)"
      "same_vector L' seen' (lw_stack w)" by (metis lock_inv_def seen_ok_def)
    moreover from this have "L' \<noteq> L \<or> a = ReadAccess"
      using exclusion [OF inv t \<open>u < length (lw_threads w)\<close>, of L a'] sec \<open>u \<noteq> t\<close> by (cases a) auto
    ultimately show "\<exists>L a. in_section (L, a) (lw_threads w' ! u) \<and> same_vector L seen' (lw_stack w')"
      using th(2) by (auto intro!: same_vector_other)
  qed
  ultimately show ?thesis by (simp add: lock_inv_def)
qed

lemma done_inv:
  assumes "lock_step rw cfg (Done t) w = Some w'" and "lock_inv w"
  shows "lock_inv w'"
  using assms(1)
proof (cases rule: lock_step_DoneE)
  case (1 wg' r)
  then have t: "t < length (lw_threads w)" by (simp add: runnable_def)
  have out: "th_seen (lw_threads w ! t) = None"
    using assms(2) t 1(2) by (cases "th_seen (lw_threads w ! t)") (auto simp: lock_inv_def seen_ok_def in_section_def)
  show ?thesis
    using 1(4) t out
    by (intro lock_inv_outside [OF assms(2), where t = t]) (auto split: sum.splits)
qed

lemma lock_step_inv: "lock_step rw cfg e w = Some w' \<Longrightarrow> lock_inv w \<Longrightarrow> lock_inv w'"
  by (cases e) (blast intro: enter_inv leave_inv done_inv)+

lemma lock_run_inv: "lock_run rw cfg es w = Some w' \<Longrightarrow> lock_inv w \<Longrightarrow> lock_inv w'"
proof (induction es arbitrary: w)
  case (Cons e es)
  then show ?case by (auto split: option.splits dest: lock_step_inv)
qed simp

end

end
