(* ===== verification/Trace_Locks.thy ===== *)
theory Trace_Locks
  imports Trace_Panics Span_Locks Propagation
begin

text \<open>
  The calls of the tracing API with the locks they take.  \<open>Trace_Machine\<close> runs a call as one step that always
  gets its locks; here every accessor of \<open>SpanStack\<close> and of \<open>TracingContext\<close> in
  \<^verbatim>\<open>src/src/trace/trace_context.rs\<close> tries its lock where the source does, panics with \<open>LOCK_MSG\<close> when it is
  refused, and gives it back at the end of the guard's scope, also when the code under the guard panics.
  The locks are those other threads have left: a call may find any number of guards of others, which
  stay as they are while it runs.  \<open>Span_Locks\<close> has the interleavings.
\<close>

section \<open>Guards\<close>

record 'l Locks =
  lk_finalized :: 'l
  lk_active :: 'l

fun the_lock :: "lock_name \<Rightarrow> 'l Locks \<Rightarrow> 'l" where
  "the_lock FinalizedLock lk = lk_finalized lk"
| "the_lock ActiveLock lk = lk_active lk"

fun put_lock :: "lock_name \<Rightarrow> 'l \<Rightarrow> 'l Locks \<Rightarrow> 'l Locks" where
  "put_lock FinalizedLock l lk = lk\<lparr>lk_finalized := l\<rparr>"
| "put_lock ActiveLock l lk = lk\<lparr>lk_active := l\<rparr>"

text \<open>An operation with locks works on the locks and on a state.\<close>

type_synonym ('l, 's, 'a) locked = "'l Locks \<times> 's \<Rightarrow> ('l Locks \<times> 's, 'a) outcome"

text \<open>The scope of a guard: acquire, run the body, release.\<close>

definition with_guard :: "('l \<Rightarrow> 'l res) \<Rightarrow> ('l \<Rightarrow> 'l) \<Rightarrow> lock_name \<Rightarrow> ('l, 's, 'a) locked \<Rightarrow> ('l, 's, 'a) locked" where
  "with_guard acquire give_back L body w =
     (case w of (lk, s) \<Rightarrow>
        (case acquire (the_lock L lk) of
           Inl p \<Rightarrow> ((lk, s), Inl p)
         | Inr l \<Rightarrow>
             (case body (put_lock L l lk, s) of
                ((lk', s'), r) \<Rightarrow> ((put_lock L (give_back (the_lock L lk')) lk', s'), r))))"

definition under_active :: "'l rwlock_ops \<Rightarrow> ('l, 's, 'a) locked \<Rightarrow> ('l, 's, 'a) locked" where
  "under_active rw = with_guard (SpanStack_active rw) (rw_unlock_read rw) ActiveLock"

definition under_active_mut :: "'l rwlock_ops \<Rightarrow> ('l, 's, 'a) locked \<Rightarrow> ('l, 's, 'a) locked" where
  "under_active_mut rw = with_guard (SpanStack_active_mut rw) (rw_unlock_write rw) ActiveLock"

definition under_finalized :: "'l rwlock_ops \<Rightarrow> ('l, 's, 'a) locked \<Rightarrow> ('l, 's, 'a) locked" where
  "under_finalized rw = with_guard (SpanStack_finalized rw) (rw_unlock_read rw) FinalizedLock"

definition under_finalized_mut :: "'l rwlock_ops \<Rightarrow> ('l, 's, 'a) locked \<Rightarrow> ('l, 's, 'a) locked" where
  "under_finalized_mut rw = with_guard (SpanStack_finalized_mut rw) (rw_unlock_write rw) FinalizedLock"

definition under_spans_mut :: "'l rwlock_ops \<Rightarrow> ('l, 's, 'a) locked \<Rightarrow> ('l, 's, 'a) locked" where
  "under_spans_mut rw = with_guard (finalize_spans_mut rw) (rw_unlock_write rw) FinalizedLock"

text \<open>Code that takes no lock, sequencing, and an operation on the stack as one on what the spans share.\<close>

definition plain :: "('s \<Rightarrow> ('s, 'a) outcome) \<Rightarrow> ('l, 's, 'a) locked" where
  "plain f w = (case w of (lk, s) \<Rightarrow> (case f s of (s', r) \<Rightarrow> ((lk, s'), r)))"

definition and_next :: "('w \<Rightarrow> ('w, 'a) outcome) \<Rightarrow> ('a \<Rightarrow> 'w \<Rightarrow> ('w, 'b) outcome) \<Rightarrow> 'w \<Rightarrow> ('w, 'b) outcome" where
  "and_next m k w = (case m w of (w', Inl p) \<Rightarrow> (w', Inl p) | (w', Inr x) \<Rightarrow> k x w')"

definition on_stack :: "('l, SpanStack, 'a) locked \<Rightarrow> ('l, Shared, 'a) locked" where
  "on_stack m w =
     (case w of (lk, sh) \<Rightarrow> (case m (lk, sh_stack sh) of ((lk', st'), r) \<Rightarrow> ((lk', sh\<lparr>sh_stack := st'\<rparr>), r)))"

section \<open>Spans\<close>

definition locked_pop_active :: "'l rwlock_ops \<Rightarrow> SpanUid \<Rightarrow> ('l, SpanStack, ActiveSpan option) locked" where
  "locked_pop_active rw uid =
     under_active_mut rw (plain (\<lambda>st. case pop_active uid st of (st', a) \<Rightarrow> (st', Inr a)))"

definition locked_finalize_span ::
  "'l rwlock_ops \<Rightarrow> build \<Rightarrow> SystemTime \<Rightarrow> SpanUid \<Rightarrow> SpanObject option \<Rightarrow> ('l, SpanStack, unit) locked" where
  "locked_finalize_span rw cfg now uid obj =
     and_next (locked_pop_active rw uid) (\<lambda>popped. case popped of
         None \<Rightarrow> plain (\<lambda>st. (st, Inl not_active_panic))
       | Some a \<Rightarrow> under_finalized_mut rw
           (plain (\<lambda>st. (st\<lparr>finalized := finalized st @ [finalized_entry cfg now uid obj a]\<rparr>, Inr ()))))"

definition locked_finalize_async_span ::
  "'l rwlock_ops \<Rightarrow> build \<Rightarrow> SystemTime \<Rightarrow> SpanUid \<Rightarrow> SpanObject \<Rightarrow> ('l, SpanStack, unit) locked" where
  "locked_finalize_async_span rw cfg now uid obj = under_finalized_mut rw (plain (finalize_async_span cfg now uid obj))"

definition locked_is_active_span :: "'l rwlock_ops \<Rightarrow> Span \<Rightarrow> ('l, SpanStack, bool) locked" where
  "locked_is_active_span rw sp = under_active rw (plain (\<lambda>st. (st, Inr (is_active_span st sp))))"

definition locked_Span_drop :: "'l rwlock_ops \<Rightarrow> build \<Rightarrow> SystemTime \<Rightarrow> Span \<Rightarrow> ('l, Shared, unit) locked" where
  "locked_Span_drop rw cfg now sp = on_stack (locked_finalize_span rw cfg now (sp_uid sp) (sp_obj sp))"

text \<open>\<open>self\<close> is dropped on every way out; the \<open>AsyncSpan\<close> that is about to be returned is leaked when that
  destructor panics.\<close>

definition locked_prepare_for_async ::
  "'l rwlock_ops \<Rightarrow> build \<Rightarrow> SystemTime \<Rightarrow> Span \<Rightarrow> ('l, Shared, AsyncSpan) locked" where
  "locked_prepare_for_async rw cfg now sp w =
     (case on_stack (locked_is_active_span rw sp) w of
        (w1, Inl p) \<Rightarrow> unwind p (locked_Span_drop rw cfg now sp w1)
      | (w1, Inr is_active) \<Rightarrow>
          if \<not> is_active then unwind (Panic ''current span isn't active span'') (locked_Span_drop rw cfg now sp w1)
          else
            (case plain (\<lambda>sh. case WaitGroup_add cfg 1 (sh_wg sh) of (wg', r) \<Rightarrow> (sh\<lparr>sh_wg := wg'\<rparr>, r)) w1 of
               (w2, Inl p) \<Rightarrow> unwind p (locked_Span_drop rw cfg now sp w2)
             | (w2, Inr _) \<Rightarrow>
                 and_next (locked_Span_drop rw cfg now (sp\<lparr>sp_obj := None\<rparr>))
                   (\<lambda>_. plain (\<lambda>sh. (sh, Inr \<lparr>asy_uid = sp_uid sp, asy_obj = sp_obj sp\<rparr>))) w2))"

definition locked_AsyncSpan_drop ::
  "'l rwlock_ops \<Rightarrow> build \<Rightarrow> SystemTime \<Rightarrow> bool \<Rightarrow> AsyncSpan \<Rightarrow> ('l, Shared, unit) locked" where
  "locked_AsyncSpan_drop rw cfg now alive sp =
     (if \<not> alive then plain (\<lambda>sh. (sh, Inl (Panic ''TracingContext has dropped'')))
      else (case asy_obj sp of
              None \<Rightarrow> plain (\<lambda>sh. (sh, Inl unwrap_none_panic))
            | Some obj \<Rightarrow>
                and_next (on_stack (locked_finalize_async_span rw cfg now (asy_uid sp) obj))
                  (\<lambda>_. plain (\<lambda>sh. case WaitGroup_done cfg (sh_wg sh) of
                     (wg', r) \<Rightarrow> (sh\<lparr>sh_wg := wg'\<rparr>, map_sum id (\<lambda>_. ()) r)))))"

section \<open>The context\<close>

type_synonym ctx_stack = "TracingContext \<times> SpanStack"

definition locked_peek_active_span_id :: "'l rwlock_ops \<Rightarrow> ('l, ctx_stack, i32 option) locked" where
  "locked_peek_active_span_id rw = under_active rw (plain (\<lambda>(tc, st). ((tc, st), Inr (peek_active_span_id st))))"

definition locked_push_active_span :: "'l rwlock_ops \<Rightarrow> SpanObject \<Rightarrow> ('l, ctx_stack, SpanUid) locked" where
  "locked_push_active_span rw obj =
     and_next (plain (\<lambda>(tc, st). case generate_span_uid tc of
         (tc1, uid) \<Rightarrow> ((tc1\<lparr>tc_primary_endpoint_name := operation_name obj\<rparr>, st), Inr uid)))
       (\<lambda>uid. under_active_mut rw
         (plain (\<lambda>(tc, st). ((tc, st\<lparr>active := active st @ [ActiveSpan_new uid (span_id obj)]\<rparr>), Inr uid))))"

definition locked_inc_next_span_id :: "build \<Rightarrow> ('l, ctx_stack, i32) locked" where
  "locked_inc_next_span_id cfg = plain (\<lambda>(tc, st). case inc_next_span_id cfg tc of (tc', r) \<Rightarrow> ((tc', st), r))"

definition locked_new_span :: "'l rwlock_ops \<Rightarrow> SpanObject \<Rightarrow> ('l, ctx_stack, Span) locked" where
  "locked_new_span rw obj =
     and_next (locked_push_active_span rw obj) (\<lambda>uid. plain (\<lambda>cs. (cs, Inr (Span_new uid obj))))"

definition locked_create_entry_span ::
  "'l rwlock_ops \<Rightarrow> build \<Rightarrow> SystemTime \<Rightarrow> string \<Rightarrow> ('l, ctx_stack, Span) locked" where
  "locked_create_entry_span rw cfg now opname =
     and_next (locked_inc_next_span_id cfg) (\<lambda>sid.
     and_next (locked_peek_active_span_id rw) (\<lambda>parent.
       locked_new_span rw (Span_new_obj cfg now sid (case parent of Some i \<Rightarrow> i | None \<Rightarrow> -1) opname [] Entry Http False)))"

definition locked_create_entry_span_with_propagation ::
  "'l rwlock_ops \<Rightarrow> build \<Rightarrow> SystemTime \<Rightarrow> string \<Rightarrow> PropagationContext \<Rightarrow> ('l, ctx_stack, Span) locked" where
  "locked_create_entry_span_with_propagation rw cfg now opname prop =
     and_next (locked_create_entry_span rw cfg now opname) (\<lambda>sp. plain (\<lambda>(tc, st).
       let tc' = tc\<lparr>tc_trace_id := pc_parent_trace_id prop\<rparr>
       in (case span_object_mut (\<lambda>obj. obj\<lparr>refs := refs obj @ [propagation_ref (tc_trace_id tc') prop]\<rparr>) (sp_obj sp) of
             (ob, Inl p) \<Rightarrow> ((tc', st), Inl p)
           | (ob, Inr _) \<Rightarrow> ((tc', st), Inr (sp\<lparr>sp_obj := ob\<rparr>)))))"

text \<open>The parent is an argument of \<open>create_common_span\<close> and therefore looked up before its check.\<close>

definition locked_create_common_span ::
  "'l rwlock_ops \<Rightarrow> build \<Rightarrow> SystemTime \<Rightarrow> string \<Rightarrow> string \<Rightarrow> SpanType \<Rightarrow> ('l, ctx_stack, Span) locked" where
  "locked_create_common_span rw cfg now opname remote_peer stype =
     and_next (locked_peek_active_span_id rw) (\<lambda>parent.
     and_next (plain (\<lambda>cs. (cs, if tc_next_span_id (fst cs) = 0 then Inl no_entry_panic else Inr ()))) (\<lambda>_.
     and_next (locked_inc_next_span_id cfg) (\<lambda>sid.
       locked_new_span rw (Span_new_obj cfg now sid (case parent of Some i \<Rightarrow> i | None \<Rightarrow> -1) opname remote_peer
         stype Unknown False))))"

definition locked_capture :: "'l rwlock_ops \<Rightarrow> ('l, ctx_stack, ContextSnapshot) locked" where
  "locked_capture rw =
     and_next (locked_peek_active_span_id rw) (\<lambda>i. plain (\<lambda>(tc, st).
       ((tc, st), Inr \<lparr>snap_trace_id = tc_trace_id tc, snap_trace_segment_id = tc_trace_segment_id tc,
          snap_span_id = (case i of Some i \<Rightarrow> i | None \<Rightarrow> -1), snap_parent_endpoint = tc_primary_endpoint_name tc\<rparr>)))"

definition locked_continued ::
  "'l rwlock_ops \<Rightarrow> Tracer option \<Rightarrow> ContextSnapshot \<Rightarrow> ('l, ctx_stack, unit) locked" where
  "locked_continued rw tracer snap =
     (if ContextSnapshot_is_valid snap then
        and_next (plain (\<lambda>(tc, st). ((tc\<lparr>tc_trace_id := snap_trace_id snap\<rparr>, st), upgrade_tracer tracer))) (\<lambda>t.
          under_active_mut rw (plain (\<lambda>(tc, st).
            ((tc, active_span_mut (\<lambda>a. a\<lparr>as_ref := Some (snapshot_ref t snap)\<rparr>) st), Inr ()))))
      else plain (\<lambda>cs. (cs, Inr ())))"

definition locked_last_span :: "'l rwlock_ops \<Rightarrow> ('l, ctx_stack, SpanObject option) locked" where
  "locked_last_span rw = under_finalized rw (plain (\<lambda>(tc, st). ((tc, st), Inr (last_span st))))"

text \<open>The guard on the finalized spans is a temporary of the statement that takes them.\<close>

definition locked_finalize_context ::
  "'l rwlock_ops \<Rightarrow> 'r report_fn \<Rightarrow> TracingContext \<Rightarrow> ('l, SpanStack \<times> 'r, unit) locked" where
  "locked_finalize_context rw report tc =
     and_next (under_spans_mut rw (plain (\<lambda>(st, r). ((st\<lparr>finalized := []\<rparr>, r), Inr (finalized st))))) (\<lambda>taken.
     and_next (plain (\<lambda>sr. (sr, case those (map fs_obj taken) of
         None \<Rightarrow> Inl unfinished_async_panic | Some spans \<Rightarrow> Inr (segment_of tc spans)))) (\<lambda>seg.
       plain (\<lambda>(st, r). case report (Trace seg) r of (r', x) \<Rightarrow> ((st, r'), x))))"

definition locked_TracingContext_drop ::
  "'l rwlock_ops \<Rightarrow> 'r report_fn \<Rightarrow> Tracer option \<Rightarrow> TracingContext \<Rightarrow> ('l, SpanStack \<times> 'r, unit) locked" where
  "locked_TracingContext_drop rw report tracer tc =
     and_next (plain (\<lambda>sr. (sr, upgrade_tracer tracer))) (\<lambda>_. locked_finalize_context rw report tc)"

definition locked_encode_propagation ::
  "'l rwlock_ops \<Rightarrow> base64_engine \<Rightarrow> string \<Rightarrow> string \<Rightarrow> ('l, ctx_stack, string) locked" where
  "locked_encode_propagation rw engine endpoint address =
     and_next (locked_peek_active_span_id rw) (\<lambda>i. plain (\<lambda>(tc, st).
       ((tc, st), Inr (''1-'' @ b64_encode engine (tc_trace_id tc) @ ''-'' @
          b64_encode engine (tc_trace_segment_id tc) @ ''-'' @
          i32_to_string (case i of Some i \<Rightarrow> i | None \<Rightarrow> 0) @ ''-'' @
          b64_encode engine (tc_service tc) @ ''-'' @
          b64_encode engine (tc_service_instance tc) @ ''-'' @
          b64_encode engine endpoint @ ''-'' @
          b64_encode engine address))))"

section \<open>Calls\<close>

text \<open>The counterparts of \<open>exec_create\<close> and its kin.\<close>

type_synonym ('l, 'r) locked_next = "('l Locks \<times> 'r TraceWorld, unit) outcome option"

definition locked_exec_ctx ::
  "('l, ctx_stack, 'a) locked \<Rightarrow> ('a \<Rightarrow> 'r TraceWorld \<Rightarrow> 'r TraceWorld) \<Rightarrow> 'l Locks \<times> 'r TraceWorld \<Rightarrow> ('l, 'r) locked_next" where
  "locked_exec_ctx f keep lw =
     (case lw of (lk, w) \<Rightarrow>
        (case w_ctx w of
           Live tc \<Rightarrow>
             (case f (lk, (tc, sh_stack (w_shared w))) of
                ((lk', (tc', st')), r) \<Rightarrow>
                  let w' = w\<lparr>w_ctx := Live tc', w_shared := (w_shared w)\<lparr>sh_stack := st'\<rparr>\<rparr>
                  in Some (case r of Inl p \<Rightarrow> ((lk', w'), Inl p) | Inr x \<Rightarrow> ((lk', keep x w'), Inr ())))
         | _ \<Rightarrow> None))"

definition keep_span :: "Span \<Rightarrow> 'r TraceWorld \<Rightarrow> 'r TraceWorld" where
  "keep_span sp w = w\<lparr>w_spans := w_spans w @ [sp]\<rparr>"

definition locked_exec_shared ::
  "('l, Shared, 'a) locked \<Rightarrow> ('r TraceWorld \<Rightarrow> 'r TraceWorld) \<Rightarrow> ('a \<Rightarrow> 'r TraceWorld \<Rightarrow> 'r TraceWorld) \<Rightarrow>
   'l Locks \<times> 'r TraceWorld \<Rightarrow> ('l Locks \<times> 'r TraceWorld, unit) outcome" where
  "locked_exec_shared f consume keep lw =
     (case lw of (lk, w) \<Rightarrow>
        (case f (lk, w_shared w) of
           ((lk', sh'), r) \<Rightarrow>
             let w' = consume (w\<lparr>w_shared := sh'\<rparr>)
             in (case r of Inl p \<Rightarrow> ((lk', w'), Inl p) | Inr x \<Rightarrow> ((lk', keep x w'), Inr ()))))"

definition locked_exec_ctx_drop ::
  "'l rwlock_ops \<Rightarrow> 'r report_fn \<Rightarrow> TracingContext \<Rightarrow> 'l Locks \<times> 'r TraceWorld \<Rightarrow> ('l Locks \<times> 'r TraceWorld, unit) outcome" where
  "locked_exec_ctx_drop rw report tc lw =
     (case lw of (lk, w) \<Rightarrow>
        (case locked_TracingContext_drop rw report (weak_tracer w) tc (lk, (sh_stack (w_shared w), w_reporter w)) of
           ((lk', (st', r')), x) \<Rightarrow>
             ((lk', w\<lparr>w_ctx := Gone, w_shared := (w_shared w)\<lparr>sh_stack := st'\<rparr>, w_reporter := r'\<rparr>), x)))"

text \<open>The calls without a lock are those of \<open>trace_exec\<close>.\<close>

fun locked_exec ::
  "'l rwlock_ops \<Rightarrow> 'r report_fn \<Rightarrow> build \<Rightarrow> SystemTime \<Rightarrow> trace_op \<Rightarrow> 'l Locks \<times> 'r TraceWorld \<Rightarrow> ('l, 'r) locked_next" where
  "locked_exec rw report cfg now (OpEntry n) lw = locked_exec_ctx (locked_create_entry_span rw cfg now n) keep_span lw"
| "locked_exec rw report cfg now (OpEntryProp n pc) lw =
     locked_exec_ctx (locked_create_entry_span_with_propagation rw cfg now n pc) keep_span lw"
| "locked_exec rw report cfg now (OpExit n remote) lw =
     locked_exec_ctx (locked_create_common_span rw cfg now n remote Exit) keep_span lw"
| "locked_exec rw report cfg now (OpLocal n) lw =
     locked_exec_ctx (locked_create_common_span rw cfg now n [] Local) keep_span lw"
| "locked_exec rw report cfg now (OpContinued snap) lw =
     locked_exec_ctx (locked_continued rw (weak_tracer (snd lw)) snap) (\<lambda>_ w. w) lw"
| "locked_exec rw report cfg now (OpSpanDrop i) lw =
     (if i < length (w_spans (snd lw)) then
        Some (locked_exec_shared (locked_Span_drop rw cfg now (w_spans (snd lw) ! i))
          (\<lambda>w. w\<lparr>w_spans := remove_nth i (w_spans w)\<rparr>) (\<lambda>_ w. w) lw)
      else None)"
| "locked_exec rw report cfg now (OpPrepare i) lw =
     (if i < length (w_spans (snd lw)) then
        Some (locked_exec_shared (locked_prepare_for_async rw cfg now (w_spans (snd lw) ! i))
          (\<lambda>w. w\<lparr>w_spans := remove_nth i (w_spans w)\<rparr>) (\<lambda>a w. w\<lparr>w_asyncs := w_asyncs w @ [a]\<rparr>) lw)
      else None)"
| "locked_exec rw report cfg now (OpAsyncDrop i) lw =
     (if i < length (w_asyncs (snd lw)) then
        Some (locked_exec_shared (locked_AsyncSpan_drop rw cfg now (stack_alive (snd lw)) (w_asyncs (snd lw) ! i))
          (\<lambda>w. w\<lparr>w_asyncs := remove_nth i (w_asyncs w)\<rparr>) (\<lambda>_ w. w) lw)
      else None)"
| "locked_exec rw report cfg now OpWaitDone lw =
     (case w_ctx (snd lw) of
        Waiting tc \<Rightarrow>
          (case WaitGroup_wait_check (sh_wg (w_shared (snd lw))) of
             Inl p \<Rightarrow> Some (unwind p (locked_exec_ctx_drop rw report tc lw))
           | Inr leave \<Rightarrow> if leave then Some (locked_exec_ctx_drop rw report tc lw) else None)
      | _ \<Rightarrow> None)"
| "locked_exec rw report cfg now OpCtxDrop lw =
     (case w_ctx (snd lw) of Live tc \<Rightarrow> Some (locked_exec_ctx_drop rw report tc lw) | _ \<Rightarrow> None)"
| "locked_exec rw report cfg now oper lw =
     (case trace_exec report cfg now oper (snd lw) of
        None \<Rightarrow> None
      | Some (w', r) \<Rightarrow> Some ((fst lw, w'), r))"

text \<open>The calls that only read are added to those of the machine.\<close>

datatype api_call = Call trace_op | CallCapture | CallLastSpan | CallEncode base64_engine string string

fun locked_call ::
  "'l rwlock_ops \<Rightarrow> 'r report_fn \<Rightarrow> build \<Rightarrow> SystemTime \<Rightarrow> api_call \<Rightarrow> 'l Locks \<times> 'r TraceWorld \<Rightarrow> ('l, 'r) locked_next" where
  "locked_call rw report cfg now (Call oper) lw = locked_exec rw report cfg now oper lw"
| "locked_call rw report cfg now CallCapture lw = locked_exec_ctx (locked_capture rw) (\<lambda>_ w. w) lw"
| "locked_call rw report cfg now CallLastSpan lw = locked_exec_ctx (locked_last_span rw) (\<lambda>_ w. w) lw"
| "locked_call rw report cfg now (CallEncode engine endpoint address) lw =
     locked_exec_ctx (locked_encode_propagation rw engine endpoint address) (\<lambda>_ w. w) lw"

text \<open>The locks a call takes.\<close>

fun locks_of :: "trace_op \<Rightarrow> (lock_name \<times> access) list" where
  "locks_of (OpEntry n) = [(ActiveLock, ReadAccess), (ActiveLock, WriteAccess)]"
| "locks_of (OpEntryProp n pc) = [(ActiveLock, ReadAccess), (ActiveLock, WriteAccess)]"
| "locks_of (OpExit n remote) = [(ActiveLock, ReadAccess), (ActiveLock, WriteAccess)]"
| "locks_of (OpLocal n) = [(ActiveLock, ReadAccess), (ActiveLock, WriteAccess)]"
| "locks_of (OpContinued snap) = [(ActiveLock, WriteAccess)]"
| "locks_of (OpSpanDrop i) = [(ActiveLock, WriteAccess), (FinalizedLock, WriteAccess)]"
| "locks_of (OpPrepare i) = [(ActiveLock, ReadAccess), (ActiveLock, WriteAccess), (FinalizedLock, WriteAccess)]"
| "locks_of (OpAsyncDrop i) = [(FinalizedLock, WriteAccess)]"
| "locks_of OpWaitDone = [(FinalizedLock, WriteAccess)]"
| "locks_of OpCtxDrop = [(FinalizedLock, WriteAccess)]"
| "locks_of oper = []"

fun call_locks :: "api_call \<Rightarrow> (lock_name \<times> access) list" where
  "call_locks (Call oper) = locks_of oper"
| "call_locks CallLastSpan = [(FinalizedLock, ReadAccess)]"
| "call_locks call = [(ActiveLock, ReadAccess)]"

fun call_creates :: "api_call \<Rightarrow> nat" where
  "call_creates (Call oper) = creates oper"
| "call_creates call = 0"

text \<open>The states that calls without a panic reach, each with whatever locks others hold at its time.\<close>

inductive locked_reach :: "'l rwlock_ops \<Rightarrow> 'r report_fn \<Rightarrow> build \<Rightarrow> nat \<Rightarrow> 'r TraceWorld \<Rightarrow> bool"
  for rw report cfg where
  locked_reach_init: "locked_reach rw report cfg 0 (trace_init t u1 u2 r)"
| locked_reach_step: "locked_reach rw report cfg k w \<Longrightarrow>
     locked_call rw report cfg now call (lk, w) = Some ((lk', w'), Inr ()) \<Longrightarrow>
     locked_reach rw report cfg (k + call_creates call) w'"

section \<open>A call with locks follows the call without\<close>

lemma the_lock_put [simp]: "the_lock L' (put_lock L l lk) = (if L' = L then l else the_lock L' lk)"
  by (cases L; cases L') simp_all

text \<open>The operations without locks, composed in the same way.\<close>

lemma and_next_cong [simp]: "and_next (\<lambda>s. (g s, Inr (h s))) k = (\<lambda>s. k (h s) (g s))"
  by (auto simp: and_next_def)

lemma unlock_access: "unlock rw ReadAccess = rw_unlock_read rw" "unlock rw WriteAccess = rw_unlock_write rw"
  by (simp_all add: fun_eq_iff)

text \<open>The shapes of \<open>trace_exec\<close> that the calls on the context and on the guards have in common.\<close>

definition ctx_call ::
  "(ctx_stack \<Rightarrow> (ctx_stack, 'a) outcome) \<Rightarrow> ('a \<Rightarrow> 'r TraceWorld \<Rightarrow> 'r TraceWorld) \<Rightarrow> 'r TraceWorld \<Rightarrow>
   ('r TraceWorld, unit) outcome option" where
  "ctx_call g keep w =
     (case w_ctx w of
        Live tc \<Rightarrow>
          (case g (tc, sh_stack (w_shared w)) of
             ((tc', st'), r) \<Rightarrow> let w' = w\<lparr>w_ctx := Live tc', w_shared := (w_shared w)\<lparr>sh_stack := st'\<rparr>\<rparr>
               in Some (case r of Inl p \<Rightarrow> (w', Inl p) | Inr x \<Rightarrow> (keep x w', Inr ())))
      | _ \<Rightarrow> None)"

definition shared_call ::
  "(Shared \<Rightarrow> (Shared, 'a) outcome) \<Rightarrow> ('r TraceWorld \<Rightarrow> 'r TraceWorld) \<Rightarrow> ('a \<Rightarrow> 'r TraceWorld \<Rightarrow> 'r TraceWorld) \<Rightarrow>
   'r TraceWorld \<Rightarrow> ('r TraceWorld, unit) outcome" where
  "shared_call g consume keep w =
     (case g (w_shared w) of
        (sh', r) \<Rightarrow> let w' = consume (w\<lparr>w_shared := sh'\<rparr>)
          in (case r of Inl p \<Rightarrow> (w', Inl p) | Inr x \<Rightarrow> (keep x w', Inr ())))"

lemma ctx_call_exec:
  "ctx_call g keep_span w = exec_create g w"
  "ctx_call (continued (weak_tracer w) snap) (\<lambda>_ w. w) w = trace_exec report cfg now (OpContinued snap) w"
  "ctx_call (\<lambda>cs. (cs, Inr (h cs))) (\<lambda>_ w. w) w = Some (w', r) \<Longrightarrow> w' = w \<and> r = Inr ()"
  by (auto simp: ctx_call_def exec_create_def keep_span_def Let_def split: ctx_slot.splits prod.splits sum.splits)

lemma shared_call_exec:
  "i < length (w_spans w) \<Longrightarrow>
     Some (shared_call (Span_drop cfg now (w_spans w ! i)) (\<lambda>w. w\<lparr>w_spans := remove_nth i (w_spans w)\<rparr>) (\<lambda>_ w. w) w) =
     exec_span_drop cfg now i w"
  "i < length (w_spans w) \<Longrightarrow>
     Some (shared_call (prepare_for_async cfg now (w_spans w ! i)) (\<lambda>w. w\<lparr>w_spans := remove_nth i (w_spans w)\<rparr>)
       (\<lambda>a w. w\<lparr>w_asyncs := w_asyncs w @ [a]\<rparr>) w) = exec_prepare cfg now i w"
  "i < length (w_asyncs w) \<Longrightarrow>
     Some (shared_call (AsyncSpan_drop cfg now (stack_alive w) (w_asyncs w ! i))
       (\<lambda>w. w\<lparr>w_asyncs := remove_nth i (w_asyncs w)\<rparr>) (\<lambda>_ w. w) w) = exec_async_drop cfg now i w"
  by (auto simp: shared_call_def exec_span_drop_def exec_prepare_def exec_async_drop_def Let_def split: prod.splits sum.splits)

context rwlock
begin

text \<open>Other threads hold the same guards as before; \<open>held\<close>: one of them refuses the access.\<close>

definition same_holds :: "'l Locks \<Rightarrow> 'l Locks \<Rightarrow> bool" where
  "same_holds lk lk' \<longleftrightarrow> (\<forall>L. readers (the_lock L lk') = readers (the_lock L lk) \<and> writer (the_lock L lk') = writer (the_lock L lk))"

definition held :: "'l Locks \<Rightarrow> lock_name \<times> access \<Rightarrow> bool" where
  "held lk n \<longleftrightarrow> writer (the_lock (fst n) lk) \<or> snd n = WriteAccess \<and> 0 < readers (the_lock (fst n) lk)"

lemma same_holds_refl [simp]: "same_holds lk lk"
  by (simp add: same_holds_def)

lemma same_holds_trans: "same_holds lk1 lk2 \<Longrightarrow> same_holds lk2 lk3 \<Longrightarrow> same_holds lk1 lk3"
  by (simp add: same_holds_def)

lemma held_same: "same_holds lk lk' \<Longrightarrow> held lk' n = held lk n"
  by (simp add: same_holds_def held_def)

text \<open>With the accesses \<open>N\<close>, \<open>m\<close> does what \<open>f\<close> does, or ends in one of the panics \<open>P\<close> because one of its
  accesses is refused; either way it has given back what it took.\<close>

definition follows ::
  "(lock_name \<times> access) set \<Rightarrow> panic set \<Rightarrow> ('l, 's, 'a) locked \<Rightarrow> ('s \<Rightarrow> ('s, 'a) outcome) \<Rightarrow> bool" where
  "follows N P m f \<longleftrightarrow> (\<forall>lk s lk' s' r. m (lk, s) = ((lk', s'), r) \<longrightarrow>
     same_holds lk lk' \<and> ((s', r) = f s \<or> r \<in> Inl ` P \<and> (\<exists>n\<in>N. held lk n)))"

lemma followsD:
  "follows N P m f \<Longrightarrow> m (lk, s) = ((lk', s'), r) \<Longrightarrow>
   same_holds lk lk' \<and> ((s', r) = f s \<or> r \<in> Inl ` P \<and> (\<exists>n\<in>N. held lk n))"
  unfolding follows_def by blast

lemma follows_mono: "follows N P m f \<Longrightarrow> N \<subseteq> N' \<Longrightarrow> P \<subseteq> P' \<Longrightarrow> follows N' P' m f"
  unfolding follows_def by blast

lemma follows_plain: "follows N P (plain f) f"
  by (auto simp: follows_def plain_def split: prod.splits)

lemma follows_guard:
  assumes "section_mode c = Some (L, a)" and "acquire = section_guard rw c" and "(L, a) \<in> N" and "Panic LOCK_MSG \<in> P"
  shows "follows N P (with_guard acquire (unlock rw a) L (plain f)) f"
proof (unfold follows_def, intro allI impI)
  fix lk s lk' s' r
  assume m: "with_guard acquire (unlock rw a) L (plain f) (lk, s) = ((lk', s'), r)"
  show "same_holds lk lk' \<and> ((s', r) = f s \<or> r \<in> Inl ` P \<and> (\<exists>n\<in>N. held lk n))"
  proof (cases "acquire (the_lock L lk)")
    case (Inl p)
    then have "p = Panic LOCK_MSG" "held lk (L, a)"
      using guard_refused_iff [OF assms(1), of "the_lock L lk" p] by (simp_all add: assms(2) held_def)
    with m Inl assms(3,4) show ?thesis by (auto simp: with_guard_def)
  next
    case (Inr l)
    obtain s1 r1 where f: "f s = (s1, r1)" by fastforce
    with m Inr have eq: "s' = s1" "r = r1" "lk' = put_lock L (unlock rw a l) (put_lock L l lk)"
      by (auto simp: with_guard_def plain_def)
    have "readers (unlock rw a l) = readers (the_lock L lk) \<and> writer (unlock rw a l) = writer (the_lock L lk)"
      using guard_granted [OF assms(1) Inr [unfolded assms(2)]] unlock_read [of l] unlock_write [of l]
      by (cases a) simp_all
    with eq f show ?thesis by (auto simp: same_holds_def)
  qed
qed

lemma follows_under:
  "(ActiveLock, ReadAccess) \<in> N \<Longrightarrow> Panic LOCK_MSG \<in> P \<Longrightarrow> follows N P (under_active rw (plain f)) f"
  "(ActiveLock, WriteAccess) \<in> N \<Longrightarrow> Panic LOCK_MSG \<in> P \<Longrightarrow> follows N P (under_active_mut rw (plain f)) f"
  "(FinalizedLock, ReadAccess) \<in> N \<Longrightarrow> Panic LOCK_MSG \<in> P \<Longrightarrow> follows N P (under_finalized rw (plain f)) f"
  "(FinalizedLock, WriteAccess) \<in> N \<Longrightarrow> Panic LOCK_MSG \<in> P \<Longrightarrow> follows N P (under_finalized_mut rw (plain f)) f"
  "(FinalizedLock, WriteAccess) \<in> N \<Longrightarrow> Panic LOCK_MSG \<in> P \<Longrightarrow> follows N P (under_spans_mut rw (plain f)) f"
  using follows_guard [of PeekActive ActiveLock ReadAccess "SpanStack_active rw" N P f]
    follows_guard [of "PushActive undefined" ActiveLock WriteAccess "SpanStack_active_mut rw" N P f]
    follows_guard [of LastSpan FinalizedLock ReadAccess "SpanStack_finalized rw" N P f]
    follows_guard [of "PushFinalized undefined undefined undefined undefined" FinalizedLock WriteAccess "SpanStack_finalized_mut rw" N P f]
    follows_guard [of "TakeFinalized undefined" FinalizedLock WriteAccess "finalize_spans_mut rw" N P f]
  by (simp_all add: under_active_def under_active_mut_def under_finalized_def under_finalized_mut_def under_spans_mut_def
      active_span_stack_def active_span_stack_mut_def unlock_access fun_eq_iff)

lemma follows_next:
  assumes "follows N P m f" and "\<And>x. follows N P (k x) (g x)"
  shows "follows N P (and_next m k) (and_next f g)"
proof (unfold follows_def, intro allI impI)
  fix lk s lk' s' r assume run: "and_next m k (lk, s) = ((lk', s'), r)"
  obtain lk1 s1 r1 where m: "m (lk, s) = ((lk1, s1), r1)" by (metis surj_pair)
  note D1 = followsD [OF assms(1) m]
  show "same_holds lk lk' \<and> ((s', r) = and_next f g s \<or> r \<in> Inl ` P \<and> (\<exists>n\<in>N. held lk n))"
  proof (cases r1)
    case (Inl p)
    with run m have "lk' = lk1" "s' = s1" "r = Inl p" by (auto simp: and_next_def)
    with D1 Inl show ?thesis by (cases "f s") (auto simp: and_next_def)
  next
    case (Inr x)
    with run m have "k x (lk1, s1) = ((lk', s'), r)" by (simp add: and_next_def)
    from followsD [OF assms(2) this] D1 Inr show ?thesis
      by (cases "f s") (auto simp: and_next_def held_same intro: same_holds_trans)
  qed
qed

lemma follows_stack:
  assumes "follows N P m f"
  shows "follows N P (on_stack m) (\<lambda>sh. case f (sh_stack sh) of (st', r) \<Rightarrow> (sh\<lparr>sh_stack := st'\<rparr>, r))"
  unfolding follows_def
proof (intro allI impI)
  fix lk sh lk' sh' r assume run: "on_stack m (lk, sh) = ((lk', sh'), r)"
  obtain lk1 st1 r1 where m: "m (lk, sh_stack sh) = ((lk1, st1), r1)" by (metis surj_pair)
  with run have "lk' = lk1" "sh' = sh\<lparr>sh_stack := st1\<rparr>" "r = r1" by (auto simp: on_stack_def)
  with followsD [OF assms m] show "same_holds lk lk' \<and>
      ((sh', r) = (case f (sh_stack sh) of (st', r) \<Rightarrow> (sh\<lparr>sh_stack := st'\<rparr>, r)) \<or> r \<in> Inl ` P \<and> (\<exists>n\<in>N. held lk n))"
    by (cases "f (sh_stack sh)") auto
qed

lemma follows_eq: "follows N P m g \<Longrightarrow> g = f \<Longrightarrow> follows N P m f"
  by simp

text \<open>Every locked operation follows its model without locks.\<close>

abbreviation lock_msg :: "panic set" where
  "lock_msg \<equiv> {Panic LOCK_MSG}"

lemma finalize_span_follows:
  "follows {(ActiveLock, WriteAccess), (FinalizedLock, WriteAccess)} lock_msg
     (locked_finalize_span rw cfg now uid obj) (finalize_span cfg now uid obj)"
proof (rule follows_eq)
  show "follows {(ActiveLock, WriteAccess), (FinalizedLock, WriteAccess)} lock_msg (locked_finalize_span rw cfg now uid obj)
    (and_next (\<lambda>st. case pop_active uid st of (st', a) \<Rightarrow> (st', Inr a)) (\<lambda>popped. case popped of
         None \<Rightarrow> (\<lambda>st. (st, Inl not_active_panic))
       | Some a \<Rightarrow> (\<lambda>st. (st\<lparr>finalized := finalized st @ [finalized_entry cfg now uid obj a]\<rparr>, Inr ()))))"
    unfolding locked_finalize_span_def locked_pop_active_def
    by (rule follows_next) (auto intro: follows_under follows_plain split: option.split)
qed (auto simp: fun_eq_iff and_next_def finalize_span_def finalized_entry_def Let_def split: option.splits prod.splits)

lemma Span_drop_follows:
  "follows {(ActiveLock, WriteAccess), (FinalizedLock, WriteAccess)} lock_msg
     (locked_Span_drop rw cfg now sp) (Span_drop cfg now sp)"
  unfolding locked_Span_drop_def
  by (rule follows_eq [OF follows_stack [OF finalize_span_follows]]) (simp add: fun_eq_iff Span_drop_def)

lemma AsyncSpan_drop_follows:
  "follows {(FinalizedLock, WriteAccess)} lock_msg (locked_AsyncSpan_drop rw cfg now alive sp) (AsyncSpan_drop cfg now alive sp)"
proof (cases "alive \<and> asy_obj sp \<noteq> None")
  case False
  then show ?thesis
    by (auto simp: locked_AsyncSpan_drop_def AsyncSpan_drop_def fun_eq_iff split: option.splits intro!: follows_eq [OF follows_plain])
next
  case True
  then obtain obj where obj: "alive" "asy_obj sp = Some obj" by auto
  have "follows {(FinalizedLock, WriteAccess)} lock_msg (locked_AsyncSpan_drop rw cfg now alive sp)
    (and_next (\<lambda>sh. case finalize_async_span cfg now (asy_uid sp) obj (sh_stack sh) of (st', r) \<Rightarrow> (sh\<lparr>sh_stack := st'\<rparr>, r))
       (\<lambda>_ sh. case WaitGroup_done cfg (sh_wg sh) of (wg', r) \<Rightarrow> (sh\<lparr>sh_wg := wg'\<rparr>, map_sum id (\<lambda>_. ()) r)))"
    using obj unfolding locked_AsyncSpan_drop_def locked_finalize_async_span_def
    by (auto intro: follows_next follows_stack follows_under follows_plain)
  then show ?thesis
    by (rule follows_eq)
      (use obj in \<open>auto simp: fun_eq_iff and_next_def AsyncSpan_drop_def split: prod.splits sum.splits\<close>)
qed

text \<open>Unwinding turns a refused lock into an abort.\<close>

lemma unwind_follows:
  "follows N lock_msg m f \<Longrightarrow> follows N {Abort} (\<lambda>w. unwind p (m w)) (\<lambda>s. unwind p (f s))"
proof (unfold follows_def [of N "{Abort}"], intro allI impI)
  fix lk s lk' s' r
  assume m: "follows N lock_msg m f" and run: "unwind p (m (lk, s)) = ((lk', s'), r)"
  obtain lk1 s1 r1 where "m (lk, s) = ((lk1, s1), r1)" by (metis surj_pair)
  with followsD [OF m this] run
  show "same_holds lk lk' \<and> ((s', r) = unwind p (f s) \<or> r \<in> Inl ` {Abort} \<and> (\<exists>n\<in>N. held lk n))"
    by (cases "f s") (auto simp: unwind_def)
qed

lemma unwind_sum: "unwind p out = (w, r) \<Longrightarrow> r = Inl p \<or> r = Inl Abort"
  by (auto simp: unwind_def split: sum.splits)

text \<open>\<open>prepare_for_async\<close> once it has seen that the span is the active one.\<close>

lemma prepare_active_follows:
  assumes "WaitGroup_add cfg 1 (sh_wg sh) = (wg', r0)" and "is_active_span (sh_stack sh) sp"
    and run: "(case plain (\<lambda>sh. case WaitGroup_add cfg 1 (sh_wg sh) of (wg', r) \<Rightarrow> (sh\<lparr>sh_wg := wg'\<rparr>, r)) (lk, sh) of
               (w2, Inl p) \<Rightarrow> unwind p (locked_Span_drop rw cfg now sp w2)
             | (w2, Inr _) \<Rightarrow>
                 and_next (locked_Span_drop rw cfg now (sp\<lparr>sp_obj := None\<rparr>))
                   (\<lambda>_. plain (\<lambda>sh. (sh, Inr \<lparr>asy_uid = sp_uid sp, asy_obj = sp_obj sp\<rparr>))) w2) = ((lk', sh'), r)"
  shows "same_holds lk lk' \<and> ((sh', r) = prepare_for_async cfg now sp sh \<or>
    r \<in> Inl ` {Panic LOCK_MSG, Abort} \<and> (\<exists>n\<in>{(ActiveLock, WriteAccess), (FinalizedLock, WriteAccess)}. held lk n))"
proof (cases r0)
  case (Inl p)
  with run assms(1) have "unwind p (locked_Span_drop rw cfg now sp (lk, sh\<lparr>sh_wg := wg'\<rparr>)) = ((lk', sh'), r)"
    by (simp add: plain_def)
  from followsD [OF unwind_follows [OF Span_drop_follows] this] assms(1,2) Inl show ?thesis
    by (auto simp: prepare_for_async_def)
next
  case (Inr u)
  let ?f = "and_next (Span_drop cfg now (sp\<lparr>sp_obj := None\<rparr>)) (\<lambda>_ sh. (sh, Inr \<lparr>asy_uid = sp_uid sp, asy_obj = sp_obj sp\<rparr>))"
  have fol: "follows {(ActiveLock, WriteAccess), (FinalizedLock, WriteAccess)} lock_msg
      (and_next (locked_Span_drop rw cfg now (sp\<lparr>sp_obj := None\<rparr>))
        (\<lambda>_. plain (\<lambda>sh. (sh, Inr \<lparr>asy_uid = sp_uid sp, asy_obj = sp_obj sp\<rparr>)))) ?f"
    by (rule follows_next [OF Span_drop_follows follows_plain])
  from run assms(1) Inr have run': "and_next (locked_Span_drop rw cfg now (sp\<lparr>sp_obj := None\<rparr>))
      (\<lambda>_. plain (\<lambda>sh. (sh, Inr \<lparr>asy_uid = sp_uid sp, asy_obj = sp_obj sp\<rparr>))) (lk, sh\<lparr>sh_wg := wg'\<rparr>) = ((lk', sh'), r)"
    by (simp add: plain_def)
  moreover have "prepare_for_async cfg now sp sh = ?f (sh\<lparr>sh_wg := wg'\<rparr>)"
    using assms(1,2) Inr by (simp add: prepare_for_async_def and_next_def)
  ultimately show ?thesis using followsD [OF fol run'] by auto
qed

lemma prepare_follows:
  "follows {(ActiveLock, ReadAccess), (ActiveLock, WriteAccess), (FinalizedLock, WriteAccess)} {Panic LOCK_MSG, Abort}
     (locked_prepare_for_async rw cfg now sp) (prepare_for_async cfg now sp)"
proof (unfold follows_def, intro allI impI)
  fix lk sh lk' sh' r assume run: "locked_prepare_for_async rw cfg now sp (lk, sh) = ((lk', sh'), r)"
  let ?g = "\<lambda>sh. (sh, Inr (is_active_span (sh_stack sh) sp))"
  have act: "follows {(ActiveLock, ReadAccess)} lock_msg (on_stack (locked_is_active_span rw sp)) ?g"
    unfolding locked_is_active_span_def
    by (rule follows_eq [OF follows_stack [OF follows_under(1)]]) simp_all
  obtain lk1 sh1 r1 where m: "on_stack (locked_is_active_span rw sp) (lk, sh) = ((lk1, sh1), r1)" by (metis surj_pair)
  note D1 = followsD [OF act m]
  show "same_holds lk lk' \<and> ((sh', r) = prepare_for_async cfg now sp sh \<or> r \<in> Inl ` {Panic LOCK_MSG, Abort} \<and>
      (\<exists>n\<in>{(ActiveLock, ReadAccess), (ActiveLock, WriteAccess), (FinalizedLock, WriteAccess)}. held lk n))"
  proof (cases r1)
    case (Inl p)
    with D1 have p: "same_holds lk lk1" "p = Panic LOCK_MSG" "held lk (ActiveLock, ReadAccess)" by auto
    have u: "unwind p (locked_Span_drop rw cfg now sp (lk1, sh1)) = ((lk', sh'), r)"
      using run m Inl by (simp add: locked_prepare_for_async_def)
    from followsD [OF unwind_follows [OF Span_drop_follows] this] have "same_holds lk1 lk'" by blast
    with p unwind_sum [OF u] show ?thesis by (auto intro: same_holds_trans)
  next
    case (Inr b)
    with D1 have b: "same_holds lk lk1" "sh1 = sh" "b = is_active_span (sh_stack sh) sp" by auto
    show ?thesis
    proof (cases b)
      case True
      obtain wg' r0 where wg: "WaitGroup_add cfg 1 (sh_wg sh) = (wg', r0)" by fastforce
      have "same_holds lk1 lk' \<and> ((sh', r) = prepare_for_async cfg now sp sh \<or>
          r \<in> Inl ` {Panic LOCK_MSG, Abort} \<and> (\<exists>n\<in>{(ActiveLock, WriteAccess), (FinalizedLock, WriteAccess)}. held lk1 n))"
        using run m Inr True b(2,3) by (intro prepare_active_follows [OF wg]) (simp_all add: locked_prepare_for_async_def)
      with b(1) show ?thesis by (auto simp: held_same intro: same_holds_trans)
    next
      case False
      with run m Inr b(2) have "unwind (Panic ''current span isn't active span'') (locked_Span_drop rw cfg now sp (lk1, sh)) =
          ((lk', sh'), r)" by (simp add: locked_prepare_for_async_def)
      from followsD [OF unwind_follows [OF Span_drop_follows] this] b False show ?thesis
        by (auto simp: prepare_for_async_def held_same intro: same_holds_trans)
    qed
  qed
qed

lemma peek_follows:
  "(ActiveLock, ReadAccess) \<in> N \<Longrightarrow>
   follows N lock_msg (locked_peek_active_span_id rw) (\<lambda>(tc, st). ((tc, st), Inr (peek_active_span_id st)))"
  unfolding locked_peek_active_span_id_def by (rule follows_under(1)) simp_all

lemma new_span_follows:
  assumes "(ActiveLock, WriteAccess) \<in> N"
  shows "follows N lock_msg (locked_new_span rw obj)
    (\<lambda>cs. case push_active_span obj cs of (cs', uid) \<Rightarrow> (cs', Inr (Span_new uid obj)))"
proof (rule follows_eq)
  show "follows N lock_msg (locked_new_span rw obj)
    (and_next (and_next (\<lambda>(tc, st). case generate_span_uid tc of
         (tc1, uid) \<Rightarrow> ((tc1\<lparr>tc_primary_endpoint_name := operation_name obj\<rparr>, st), Inr uid))
       (\<lambda>uid (tc, st). ((tc, st\<lparr>active := active st @ [ActiveSpan_new uid (span_id obj)]\<rparr>), Inr uid)))
     (\<lambda>uid cs. (cs, Inr (Span_new uid obj))))"
    unfolding locked_new_span_def locked_push_active_span_def
    by (intro follows_next follows_plain follows_under(2) assms) simp
qed (auto simp: fun_eq_iff and_next_def push_active_span_def generate_span_uid_def Let_def)

lemma create_entry_span_follows:
  "follows (set (locks_of (OpEntry n))) lock_msg (locked_create_entry_span rw cfg now n) (create_entry_span cfg now n)"
proof (rule follows_eq)
  show "follows (set (locks_of (OpEntry n))) lock_msg (locked_create_entry_span rw cfg now n)
    (and_next (\<lambda>(tc, st). case inc_next_span_id cfg tc of (tc', r) \<Rightarrow> ((tc', st), r)) (\<lambda>sid.
     and_next (\<lambda>(tc, st). ((tc, st), Inr (peek_active_span_id st))) (\<lambda>parent cs.
       case push_active_span (Span_new_obj cfg now sid (case parent of Some i \<Rightarrow> i | None \<Rightarrow> -1) n [] Entry Http False) cs of
         (cs', uid) \<Rightarrow> (cs', Inr (Span_new uid (Span_new_obj cfg now sid (case parent of Some i \<Rightarrow> i | None \<Rightarrow> -1) n [] Entry Http False))))))"
    unfolding locked_create_entry_span_def locked_inc_next_span_id_def
    by (intro follows_next follows_plain peek_follows new_span_follows) simp_all
qed (auto simp: fun_eq_iff and_next_def create_entry_span_def create_span_def parent_or_root_def Let_def
    split: prod.splits sum.splits)

lemma create_common_span_follows:
  "follows (set (locks_of (OpExit n remote))) lock_msg (locked_create_common_span rw cfg now n remote stype)
     (\<lambda>cs. create_common_span cfg now n remote stype (parent_or_root (snd cs)) cs)"
proof (rule follows_eq)
  show "follows (set (locks_of (OpExit n remote))) lock_msg (locked_create_common_span rw cfg now n remote stype)
    (and_next (\<lambda>(tc, st). ((tc, st), Inr (peek_active_span_id st))) (\<lambda>parent.
     and_next (\<lambda>cs. (cs, if tc_next_span_id (fst cs) = 0 then Inl no_entry_panic else Inr ())) (\<lambda>_.
     and_next (\<lambda>(tc, st). case inc_next_span_id cfg tc of (tc', r) \<Rightarrow> ((tc', st), r)) (\<lambda>sid cs.
       case push_active_span (Span_new_obj cfg now sid (case parent of Some i \<Rightarrow> i | None \<Rightarrow> -1) n remote stype Unknown False) cs of
         (cs', uid) \<Rightarrow> (cs', Inr (Span_new uid (Span_new_obj cfg now sid (case parent of Some i \<Rightarrow> i | None \<Rightarrow> -1) n remote stype Unknown False)))))))"
    unfolding locked_create_common_span_def locked_inc_next_span_id_def
    by (intro follows_next follows_plain peek_follows new_span_follows) simp_all
qed (auto simp: fun_eq_iff and_next_def create_common_span_def create_span_def parent_or_root_def Let_def
    split: prod.splits sum.splits)

lemma create_propagation_follows:
  "follows (set (locks_of (OpEntryProp n prop))) lock_msg (locked_create_entry_span_with_propagation rw cfg now n prop)
     (create_entry_span_with_propagation cfg now n prop)"
proof (rule follows_eq)
  show "follows (set (locks_of (OpEntryProp n prop))) lock_msg (locked_create_entry_span_with_propagation rw cfg now n prop)
    (and_next (create_entry_span cfg now n) (\<lambda>sp (tc, st).
       let tc' = tc\<lparr>tc_trace_id := pc_parent_trace_id prop\<rparr>
       in (case span_object_mut (\<lambda>obj. obj\<lparr>refs := refs obj @ [propagation_ref (tc_trace_id tc') prop]\<rparr>) (sp_obj sp) of
             (ob, Inl p) \<Rightarrow> ((tc', st), Inl p)
           | (ob, Inr _) \<Rightarrow> ((tc', st), Inr (sp\<lparr>sp_obj := ob\<rparr>)))))"
    unfolding locked_create_entry_span_with_propagation_def
    using create_entry_span_follows by (intro follows_next follows_plain) simp
qed (auto simp: fun_eq_iff and_next_def create_entry_span_with_propagation_def split: prod.splits sum.splits)

lemma continued_follows:
  "follows (set (locks_of (OpContinued snap))) lock_msg (locked_continued rw tracer snap) (continued tracer snap)"
proof (rule follows_eq)
  show "follows (set (locks_of (OpContinued snap))) lock_msg (locked_continued rw tracer snap)
    (if ContextSnapshot_is_valid snap then
        and_next (\<lambda>(tc, st). ((tc\<lparr>tc_trace_id := snap_trace_id snap\<rparr>, st), upgrade_tracer tracer)) (\<lambda>t (tc, st).
            ((tc, active_span_mut (\<lambda>a. a\<lparr>as_ref := Some (snapshot_ref t snap)\<rparr>) st), Inr ()))
      else (\<lambda>cs. (cs, Inr ())))"
    unfolding locked_continued_def by (auto intro!: follows_next follows_plain follows_under(2))
qed (auto simp: fun_eq_iff and_next_def continued_def upgrade_tracer_def Let_def split: option.splits)

lemma reading_follows:
  "follows {(ActiveLock, ReadAccess)} lock_msg (locked_capture rw) (\<lambda>cs. (cs, Inr (capture cs)))"
  "follows {(FinalizedLock, ReadAccess)} lock_msg (locked_last_span rw) (\<lambda>cs. (cs, Inr (last_span (snd cs))))"
  "follows {(ActiveLock, ReadAccess)} lock_msg (locked_encode_propagation rw engine e a)
     (\<lambda>cs. (cs, Inr (encode_propagation engine cs e a)))"
proof -
  show "follows {(ActiveLock, ReadAccess)} lock_msg (locked_capture rw) (\<lambda>cs. (cs, Inr (capture cs)))"
    unfolding locked_capture_def
    by (rule follows_eq [OF follows_next [OF peek_follows follows_plain]])
      (auto simp: fun_eq_iff and_next_def capture_def parent_or_root_def)
  show "follows {(FinalizedLock, ReadAccess)} lock_msg (locked_last_span rw) (\<lambda>cs. (cs, Inr (last_span (snd cs))))"
    unfolding locked_last_span_def by (rule follows_eq [OF follows_under(3)]) (auto simp: fun_eq_iff)
  show "follows {(ActiveLock, ReadAccess)} lock_msg (locked_encode_propagation rw engine e a)
     (\<lambda>cs. (cs, Inr (encode_propagation engine cs e a)))"
    unfolding locked_encode_propagation_def
    by (rule follows_eq [OF follows_next [OF peek_follows follows_plain]])
      (auto simp: fun_eq_iff and_next_def encode_propagation_def)
qed

lemma ctx_drop_follows:
  "follows {(FinalizedLock, WriteAccess)} lock_msg (locked_TracingContext_drop rw report tracer tc)
     (TracingContext_drop report tracer tc)"
proof (rule follows_eq)
  show "follows {(FinalizedLock, WriteAccess)} lock_msg (locked_TracingContext_drop rw report tracer tc)
    (and_next (\<lambda>sr. (sr, upgrade_tracer tracer)) (\<lambda>_.
     and_next (\<lambda>(st, r). ((st\<lparr>finalized := []\<rparr>, r), Inr (finalized st))) (\<lambda>taken.
     and_next (\<lambda>sr. (sr, case those (map fs_obj taken) of
         None \<Rightarrow> Inl unfinished_async_panic | Some spans \<Rightarrow> Inr (segment_of tc spans))) (\<lambda>seg (st, r).
       case report (Trace seg) r of (r', x) \<Rightarrow> ((st, r'), x)))))"
    unfolding locked_TracingContext_drop_def locked_finalize_context_def
    by (intro follows_next follows_plain follows_under(5)) simp_all
qed (auto simp: fun_eq_iff and_next_def TracingContext_drop_def finalize_context_def convert_to_segment_object_def
    segment_of_def upgrade_tracer_def split: option.splits prod.splits)

text \<open>From the operations to the calls.\<close>

lemma exec_ctx_follows:
  assumes "follows N P f g" and "locked_exec_ctx f keep (lk, w) = Some ((lk', w'), r)"
  shows "same_holds lk lk' \<and> (ctx_call g keep w = Some (w', r) \<or> r \<in> Inl ` P \<and> (\<exists>n\<in>N. held lk n))"
proof -
  obtain tc where tc: "w_ctx w = Live tc" using assms(2) by (auto simp: locked_exec_ctx_def split: ctx_slot.splits)
  obtain lk1 tc1 st1 r1 where f: "f (lk, (tc, sh_stack (w_shared w))) = ((lk1, (tc1, st1)), r1)" by (metis surj_pair)
  with assms(2) tc have "lk' = lk1" "Some (w', r) = (let w1 = w\<lparr>w_ctx := Live tc1, w_shared := (w_shared w)\<lparr>sh_stack := st1\<rparr>\<rparr>
          in Some (case r1 of Inl p \<Rightarrow> (w1, Inl p) | Inr x \<Rightarrow> (keep x w1, Inr ())))"
    by (auto simp: locked_exec_ctx_def Let_def split: sum.splits)
  with followsD [OF assms(1) f] tc show ?thesis
    by (cases "g (tc, sh_stack (w_shared w))") (auto simp: ctx_call_def Let_def)
qed

lemma exec_shared_follows:
  assumes "follows N P f g" and "locked_exec_shared f consume keep (lk, w) = ((lk', w'), r)"
  shows "same_holds lk lk' \<and> (shared_call g consume keep w = (w', r) \<or> r \<in> Inl ` P \<and> (\<exists>n\<in>N. held lk n))"
proof -
  obtain lk1 sh1 r1 where f: "f (lk, w_shared w) = ((lk1, sh1), r1)" by (metis surj_pair)
  with assms(2) have "lk' = lk1" "(w', r) = (let w1 = consume (w\<lparr>w_shared := sh1\<rparr>)
          in (case r1 of Inl p \<Rightarrow> (w1, Inl p) | Inr x \<Rightarrow> (keep x w1, Inr ())))"
    by (auto simp: locked_exec_shared_def Let_def split: sum.splits)
  with followsD [OF assms(1) f] show ?thesis by (cases "g (w_shared w)") (auto simp: shared_call_def Let_def)
qed

lemma exec_ctx_drop_follows:
  assumes "locked_exec_ctx_drop rw report tc (lk, w) = ((lk', w'), r)"
  shows "same_holds lk lk' \<and> ((w', r) = exec_ctx_drop report tc w \<or> r \<in> Inl ` lock_msg \<and> held lk (FinalizedLock, WriteAccess))"
proof -
  obtain lk1 st1 r1 x1 where f: "locked_TracingContext_drop rw report (weak_tracer w) tc (lk, (sh_stack (w_shared w), w_reporter w)) =
      ((lk1, (st1, r1)), x1)" by (metis surj_pair)
  with assms have "lk' = lk1" "r = x1"
    "w' = w\<lparr>w_ctx := Gone, w_shared := (w_shared w)\<lparr>sh_stack := st1\<rparr>, w_reporter := r1\<rparr>"
    by (auto simp: locked_exec_ctx_drop_def)
  with followsD [OF ctx_drop_follows f] show ?thesis
    by (cases "TracingContext_drop report (weak_tracer w) tc (sh_stack (w_shared w), w_reporter w)")
      (auto simp: exec_ctx_drop_def)
qed

definition lock_panics :: "trace_op \<Rightarrow> panic set" where
  "lock_panics oper = (if \<exists>i. oper = OpPrepare i then {Panic LOCK_MSG, Abort} else lock_msg)"

lemma locked_exec_follows:
  assumes ex: "locked_exec rw report cfg now oper (lk, w) = Some ((lk', w'), r)"
    and wait: "oper = OpWaitDone \<Longrightarrow> is_ok (WaitGroup_wait_check (sh_wg (w_shared w)))"
  shows "same_holds lk lk' \<and> (trace_exec report cfg now oper w = Some (w', r) \<or>
    r \<in> Inl ` lock_panics oper \<and> (\<exists>n\<in>set (locks_of oper). held lk n))"
proof (cases oper)
  case (OpEntry n)
  with ex have "locked_exec_ctx (locked_create_entry_span rw cfg now n) keep_span (lk, w) = Some ((lk', w'), r)" by simp
  from exec_ctx_follows [OF create_entry_span_follows this] OpEntry show ?thesis
    by (simp add: ctx_call_exec lock_panics_def)
next
  case (OpEntryProp n pc)
  with ex have "locked_exec_ctx (locked_create_entry_span_with_propagation rw cfg now n pc) keep_span (lk, w) = Some ((lk', w'), r)" by simp
  from exec_ctx_follows [OF create_propagation_follows this] OpEntryProp show ?thesis
    by (simp add: ctx_call_exec lock_panics_def)
next
  case (OpExit n remote)
  with ex have "locked_exec_ctx (locked_create_common_span rw cfg now n remote Exit) keep_span (lk, w) = Some ((lk', w'), r)" by simp
  from exec_ctx_follows [OF create_common_span_follows this] OpExit show ?thesis
    by (simp add: ctx_call_exec lock_panics_def create_exit_span_def [abs_def])
next
  case (OpLocal n)
  with ex have "locked_exec_ctx (locked_create_common_span rw cfg now n [] Local) keep_span (lk, w) = Some ((lk', w'), r)" by simp
  from exec_ctx_follows [OF create_common_span_follows this] OpLocal show ?thesis
    by (simp add: ctx_call_exec lock_panics_def create_local_span_def [abs_def])
next
  case (OpContinued snap)
  with ex have "locked_exec_ctx (locked_continued rw (weak_tracer w) snap) (\<lambda>_ w. w) (lk, w) = Some ((lk', w'), r)" by simp
  from exec_ctx_follows [OF continued_follows this] OpContinued show ?thesis
    by (simp add: ctx_call_exec(2) [where report = report and cfg = cfg and now = now] lock_panics_def del: trace_exec.simps)
next
  case (OpSpanDrop i)
  with ex have i: "i < length (w_spans w)" and run: "locked_exec_shared (locked_Span_drop rw cfg now (w_spans w ! i))
      (\<lambda>w. w\<lparr>w_spans := remove_nth i (w_spans w)\<rparr>) (\<lambda>_ w. w) (lk, w) = ((lk', w'), r)" by (auto split: if_splits)
  from exec_shared_follows [OF Span_drop_follows run] OpSpanDrop show ?thesis
    by (simp add: shared_call_exec(1) [OF i, symmetric] lock_panics_def)
next
  case (OpPrepare i)
  with ex have i: "i < length (w_spans w)" and run: "locked_exec_shared (locked_prepare_for_async rw cfg now (w_spans w ! i))
      (\<lambda>w. w\<lparr>w_spans := remove_nth i (w_spans w)\<rparr>) (\<lambda>a w. w\<lparr>w_asyncs := w_asyncs w @ [a]\<rparr>) (lk, w) = ((lk', w'), r)"
    by (auto split: if_splits)
  from exec_shared_follows [OF prepare_follows run] OpPrepare show ?thesis
    by (simp add: shared_call_exec(2) [OF i, symmetric] lock_panics_def)
next
  case (OpAsyncDrop i)
  with ex have i: "i < length (w_asyncs w)" and run: "locked_exec_shared (locked_AsyncSpan_drop rw cfg now (stack_alive w) (w_asyncs w ! i))
      (\<lambda>w. w\<lparr>w_asyncs := remove_nth i (w_asyncs w)\<rparr>) (\<lambda>_ w. w) (lk, w) = ((lk', w'), r)" by (auto split: if_splits)
  from exec_shared_follows [OF AsyncSpan_drop_follows run] OpAsyncDrop show ?thesis
    by (simp add: shared_call_exec(3) [OF i, symmetric] lock_panics_def)
next
  case OpWaitDone
  with ex wait obtain tc where tc: "w_ctx w = Waiting tc" "WaitGroup_wait_check (sh_wg (w_shared w)) = Inr True"
    "locked_exec_ctx_drop rw report tc (lk, w) = ((lk', w'), r)" by (auto split: ctx_slot.splits sum.splits if_splits)
  from exec_ctx_drop_follows [OF tc(3)] tc(1,2) OpWaitDone show ?thesis by (auto simp: lock_panics_def)
next
  case OpCtxDrop
  with ex obtain tc where tc: "w_ctx w = Live tc" "locked_exec_ctx_drop rw report tc (lk, w) = ((lk', w'), r)"
    by (auto split: ctx_slot.splits)
  from exec_ctx_drop_follows [OF tc(2)] tc(1) OpCtxDrop show ?thesis by (auto simp: lock_panics_def)
qed (use ex in \<open>auto split: option.splits prod.splits if_splits\<close>)

lemma locked_call_follows:
  assumes ex: "locked_call rw report cfg now call (lk, w) = Some ((lk', w'), r)"
    and wait: "call = Call OpWaitDone \<Longrightarrow> is_ok (WaitGroup_wait_check (sh_wg (w_shared w)))"
  shows "same_holds lk lk' \<and>
    ((case call of Call oper \<Rightarrow> trace_exec report cfg now oper w = Some (w', r) | _ \<Rightarrow> w' = w \<and> r = Inr ()) \<or>
     (\<exists>n\<in>set (call_locks call). held lk n) \<and> (r = Inl (Panic LOCK_MSG) \<or> r = Inl Abort \<and> (\<exists>i. call = Call (OpPrepare i))))"
proof (cases call)
  case (Call oper)
  with ex wait locked_exec_follows [of report cfg now oper lk w lk' w' r] show ?thesis
    by (auto simp: lock_panics_def split: if_splits)
next
  case CallCapture
  with ex exec_ctx_follows [OF reading_follows(1), of "\<lambda>_ w. w" lk w lk' w' r] show ?thesis
    by (auto dest: ctx_call_exec(3))
next
  case CallLastSpan
  with ex exec_ctx_follows [OF reading_follows(2), of "\<lambda>_ w. w" lk w lk' w' r] show ?thesis
    by (auto dest: ctx_call_exec(3))
next
  case (CallEncode engine e a)
  with ex exec_ctx_follows [OF reading_follows(3), of engine e a "\<lambda>_ w. w" lk w lk' w' r] show ?thesis
    by (auto dest: ctx_call_exec(3))
qed

text \<open>Calls that do not panic do, under any locks, what they do without.\<close>

lemma locked_reach_trace: "locked_reach rw report cfg k w \<Longrightarrow> trace_reach report cfg k w"
proof (induction rule: locked_reach.induct)
  case (locked_reach_step k w now call lk lk' w')
  have wait: "is_ok (WaitGroup_wait_check (sh_wg (w_shared w)))" if "call = Call OpWaitDone"
    using locked_reach_step.hyps(2) that
    by (cases "WaitGroup_wait_check (sh_wg (w_shared w))") (auto dest: unwind_sum split: ctx_slot.splits)
  from locked_call_follows [OF locked_reach_step.hyps(2) wait] locked_reach_step.IH show ?case
    by (auto split: api_call.splits intro: trace_reach.trace_reach_step)
qed (rule trace_reach.trace_reach_init)

text \<open>A call is possible under locks exactly when it is possible without.\<close>

lemma locked_exec_None: "locked_exec rw report cfg now oper (lk, w) = None \<longleftrightarrow> trace_exec report cfg now oper w = None"
  by (cases oper)
    (auto simp: locked_exec_ctx_def exec_create_def exec_span_drop_def exec_prepare_def exec_async_drop_def Let_def
      split: ctx_slot.splits prod.splits sum.splits option.splits if_splits)

end

section \<open>Property\<close>

text \<open>
  C3. The complete list of the panics of the tracing API, locks included.  In every state that calls
  without a panic can reach, with an accepting reporter and fewer than \<open>2 ^ 31 - 1\<close> spans created, under
  any read and write guards that other threads hold on the two vectors of the stack while the call
  runs, a call panics only
  (1) for an exit or local span before any entry span, (2) for dropping a span that is not the
  innermost one, (3) for \<open>prepare_for_async\<close> on such a span, which aborts, (4) when the last
  tracer handle is gone, (5) for dropping the context with an unfinished async span, (6) for
  dropping an async span after context and spans are gone, or (7) with \<open>LOCK_MSG\<close> (\<open>prepare_for_async\<close>
  may abort instead) when another thread's guard excludes an access the call makes, which \<open>call_locks\<close>
  lists.  In particular no call gets in its own way.  And every call, panic or not, gives back each lock it
  took.
\<close>

theorem tracing_panics_only_as_documented:
  assumes lock: "rwlock rw readers writer"
    and rep: "reporter report delivered accepting" and acc: "accepting (w_reporter w)"
    and reach: "locked_reach rw report cfg k w" and k: "Suc k < 2 ^ 31"
    and ex: "locked_call rw report cfg now call (lk, w) = Some ((lk', w'), r)"
  shows "(\<forall>L. readers (the_lock L lk') = readers (the_lock L lk) \<and> writer (the_lock L lk') = writer (the_lock L lk)) \<and>
    (\<forall>p. r = Inl p \<longrightarrow>
      (k = 0 \<and> p = no_entry_panic \<and> (\<exists>n remote. call = Call (OpExit n remote) \<or> call = Call (OpLocal n))) \<or>
      (\<exists>i. call = Call (OpSpanDrop i) \<and> i < length (w_spans w) \<and> p = not_active_panic \<and>
         \<not> is_active_span (sh_stack (w_shared w)) (w_spans w ! i)) \<or>
      (\<exists>i. call = Call (OpPrepare i) \<and> i < length (w_spans w) \<and> p = Abort \<and>
         \<not> is_active_span (sh_stack (w_shared w)) (w_spans w ! i)) \<or>
      (w_tracer_strong w = 0 \<and> p = Panic ''Tracer has dropped'' \<and>
         (call = Call OpCtxDrop \<or> call = Call OpWaitDone \<or> (\<exists>snap. call = Call (OpContinued snap)))) \<or>
      (call = Call OpCtxDrop \<and> w_asyncs w \<noteq> [] \<and> p = unfinished_async_panic) \<or>
      (\<exists>i. call = Call (OpAsyncDrop i) \<and> p = Panic ''TracingContext has dropped'' \<and>
         w_ctx w = Gone \<and> w_spans w = []) \<or>
      ((\<exists>(L, a)\<in>set (call_locks call). writer (the_lock L lk) \<or> a = WriteAccess \<and> 0 < readers (the_lock L lk)) \<and>
         (p = Panic LOCK_MSG \<or> p = Abort \<and> (\<exists>i. call = Call (OpPrepare i)))))"
    (is "_ \<and> (\<forall>p. _ \<longrightarrow> ?panics p)")
proof -
  let ?excluded = "\<exists>(L, a)\<in>set (call_locks call). writer (the_lock L lk) \<or> a = WriteAccess \<and> 0 < readers (the_lock L lk)"
  have reach': "trace_reach report cfg k w" by (rule rwlock.locked_reach_trace [OF lock reach])
  then have "trace_inv k w" using k by (intro trace_reach_inv) auto
  then have "is_ok (WaitGroup_wait_check (sh_wg (w_shared w)))"
    using WaitGroup_wait_check_at by (fastforce simp: trace_inv_def)
  note fol = rwlock.locked_call_follows [OF lock ex this]
  have "rwlock.held readers writer lk n \<longleftrightarrow> (case n of (L, a) \<Rightarrow> writer (the_lock L lk) \<or> a = WriteAccess \<and> 0 < readers (the_lock L lk))" for n
    by (cases n) (simp add: rwlock.held_def [OF lock])
  note fol = fol [unfolded this rwlock.same_holds_def [OF lock]]
  note same = fol [THEN conjunct1]
  have rest: "case call of Call oper \<Rightarrow> trace_exec report cfg now oper w = Some (w', r) | _ \<Rightarrow> w' = w \<and> r = Inr ()"
    if "\<not> ((\<exists>(L, a)\<in>set (call_locks call). writer (the_lock L lk) \<or> a = WriteAccess \<and> 0 < readers (the_lock L lk)) \<and>
      (r = Inl (Panic LOCK_MSG) \<or> r = Inl Abort \<and> (\<exists>i. call = Call (OpPrepare i))))"
    using fol [THEN conjunct2] that by (simp only: simp_thms)
  show ?thesis
  proof (rule conjI [OF same], intro allI impI)
    fix p assume p: "r = Inl p"
    show "?panics p"
    proof (cases "?excluded \<and> (p = Panic LOCK_MSG \<or> p = Abort \<and> (\<exists>i. call = Call (OpPrepare i)))")
      case True
      then show ?thesis by (simp only: simp_thms)
    next
      case False
      then have *: "case call of Call oper \<Rightarrow> trace_exec report cfg now oper w = Some (w', Inl p) | _ \<Rightarrow> False"
        using rest p by (cases call) simp_all
      then obtain oper where call: "call = Call oper" by (cases call) simp_all
      with * have "trace_exec report cfg now oper w = Some (w', Inl p)" by simp
      from atomic_panics [OF rep acc reach' k this] show ?thesis unfolding call api_call.inject
        by (elim disjE) (assumption | (rule disjI1, assumption) | rule disjI2)+
    qed
  qed
qed

text \<open>Another thread reads the finalized spans while the innermost span is dropped: the span is off the active
  stack, but its destructor panics.\<close>

definition one_reader :: "(nat \<times> bool) Locks" where
  "one_reader = \<lparr>lk_finalized = (1, False), lk_active = (0, False)\<rparr>"

definition no_guards :: "(nat \<times> bool) Locks" where
  "no_guards = \<lparr>lk_finalized = (0, False), lk_active = (0, False)\<rparr>"

lemma two_calls:
  assumes "case first of
      Some x \<Rightarrow> snd x = Inr () \<and> P (snd (fst x)) \<and>
        (case second (snd (fst x)) of Some y \<Rightarrow> snd y = Inl p \<and> Q (fst y) | None \<Rightarrow> False)
    | None \<Rightarrow> False"
  obtains lk w lw where "first = Some ((lk, w), Inr ())" and "P w"
    and "second w = Some (lw, Inl p)" and "Q lw"
proof (cases first)
  case (Some x)
  then show ?thesis
    using assms that [of "fst (fst x)" "snd (fst x)" "fst (the (second (snd (fst x))))"]
    by (cases "second (snd (fst x))"; cases x) (simp_all add: prod_eq_iff)
qed (use assms in simp)

definition sample_call ::
  "api_call \<Rightarrow> (nat \<times> bool) Locks \<Rightarrow> (PrintReporter \<times> console) TraceWorld \<Rightarrow> (nat \<times> bool, PrintReporter \<times> console) locked_next" where
  "sample_call call lk w = locked_call counting_rwlock PrintReporter_report dev_build 0 call (lk, w)"

lemma sample_span_under_a_reader:
  "case sample_call (Call (OpEntry ''a'')) no_guards sample_init of
     Some x \<Rightarrow> snd x = Inr () \<and> length (active (sh_stack (w_shared (snd (fst x))))) = 1 \<and>
       (case sample_call (Call (OpSpanDrop 0)) one_reader (snd (fst x)) of
          Some y \<Rightarrow> snd y = Inl (Panic LOCK_MSG) \<and> active (sh_stack (w_shared (snd (fst y)))) = []
        | None \<Rightarrow> False)
   | None \<Rightarrow> False"
  by code_simp

theorem tracing_panics_only_as_documented_witness:
  "\<exists>w lw. locked_reach counting_rwlock PrintReporter_report dev_build 1 w \<and>
     length (active (sh_stack (w_shared w))) = 1 \<and>
     sample_call (Call (OpSpanDrop 0)) one_reader w = Some (lw, Inl (Panic LOCK_MSG)) \<and>
     active (sh_stack (w_shared (snd lw))) = [] \<and>
     (\<forall>L. fst (the_lock L (fst lw)) = fst (the_lock L one_reader) \<and> snd (the_lock L (fst lw)) = snd (the_lock L one_reader)) \<and>
     (\<exists>(L, a)\<in>set (call_locks (Call (OpSpanDrop 0))). snd (the_lock L one_reader) \<or> a = WriteAccess \<and> 0 < fst (the_lock L one_reader))"
proof -
  from two_calls [OF sample_span_under_a_reader] obtain lk w lw where
    w: "sample_call (Call (OpEntry ''a'')) no_guards sample_init = Some ((lk, w), Inr ())"
      "length (active (sh_stack (w_shared w))) = 1"
      "sample_call (Call (OpSpanDrop 0)) one_reader w = Some (lw, Inl (Panic LOCK_MSG))"
      "active (sh_stack (w_shared (snd lw))) = []" by metis
  have reach: "locked_reach counting_rwlock PrintReporter_report dev_build 1 w"
    using locked_reach_step [OF locked_reach_init w(1) [unfolded sample_call_def sample_init_def]] by simp
  have ex: "locked_call counting_rwlock PrintReporter_report dev_build 0 (Call (OpSpanDrop 0)) (one_reader, w) =
      Some ((fst lw, snd lw), Inl (Panic LOCK_MSG))" using w(3) by (simp only: sample_call_def prod.collapse)
  have not: "LOCK_MSG \<noteq> ''Tracer has dropped''" "Panic LOCK_MSG \<noteq> not_active_panic" by code_simp+
  have "Suc 1 < 2 ^ 31" by simp
  note panic = tracing_panics_only_as_documented [OF cl.rwlock_axioms print.reporter_axioms TrueI reach this ex]
  have excluded: "\<exists>(L, a)\<in>set (call_locks (Call (OpSpanDrop 0))).
      snd (the_lock L one_reader) \<or> a = WriteAccess \<and> 0 < fst (the_lock L one_reader)"
    using panic [THEN conjunct2, rule_format, OF refl]
    by (simp only: api_call.inject trace_op.distinct trace_op.inject panic.inject not simp_thms ex_simps one_neq_zero)
  show ?thesis
    by (intro exI [of _ w] exI [of _ lw] conjI) (fact reach w excluded panic [THEN conjunct1])+
qed

end
