(* ===== verification/Span_Atomicity.thy ===== *)
theory Span_Atomicity
  imports Span_Locks
begin

text \<open>
  What the locks of \<open>Span_Locks\<close> mean for the users of a tracing context.  A simulation between the
  lock-level machine and the atomic operations of \<open>Span\<close> shows that a concurrent run in which no lock
  is refused is a sequential one; counting the async spans that are still to be dropped shows what a
  refused lock leads to.
\<close>

section \<open>The wait group counts the async spans that are still to be dropped\<close>

fun is_fill :: "section_code \<Rightarrow> bool" where
  "is_fill (FillAsync now uid ob) = True"
| "is_fill c = False"

definition fills :: "'l lock_world \<Rightarrow> nat" where
  "fills w = sum_list (map (\<lambda>th. length (filter is_fill (th_code th))) (lw_threads w))"

definition dones :: "'l lock_world \<Rightarrow> nat" where
  "dones w = sum_list (map (\<lambda>th. length (filter (\<lambda>c. c = CallDone) (th_code th))) (lw_threads w))"

lemma counts_set_thread:
  assumes "t < length (lw_threads w)" and "lw_threads w' = (lw_threads w)[t := th]"
  shows "fills w' + length (filter is_fill (th_code (lw_threads w ! t))) = fills w + length (filter is_fill (th_code th))"
    and "dones w' + length (filter (\<lambda>c. c = CallDone) (th_code (lw_threads w ! t))) =
      dones w + length (filter (\<lambda>c. c = CallDone) (th_code th))"
  using sum_list_map_update [OF assms(1)] assms(2) by (simp_all add: fills_def dones_def)

text \<open>A section that is left regularly moves its thread on as the source does.\<close>

lemma run_section_next:
  assumes "run_section cfg c st = (st', Inr k)"
  shows "k = (case c of FillAsync now uid ob \<Rightarrow> [CallDone] | PopActive now uid ob \<Rightarrow> k | _ \<Rightarrow> [])"
    and "c = PopActive now uid ob \<Longrightarrow> \<exists>a. k = [PushFinalized now uid ob a] \<and> pop_active uid st = (st', Some a)"
proof -
  show "k = (case c of FillAsync now uid ob \<Rightarrow> [CallDone] | PopActive now uid ob \<Rightarrow> k | _ \<Rightarrow> [])"
  proof (cases c)
    case (TakeFinalized tc)
    with assms show ?thesis by (cases "snd (convert_to_segment_object tc st)") (auto split: prod.splits)
  next
    case (FillAsync now uid ob)
    with assms show ?thesis by (cases "finalize_async_span cfg now uid ob st"; cases "snd (finalize_async_span cfg now uid ob st)") auto
  qed (use assms in auto)
  show "\<exists>a. k = [PushFinalized now uid ob a] \<and> pop_active uid st = (st', Some a)" if "c = PopActive now uid ob"
    using assms that by (auto split: prod.splits option.splits)
qed

lemma run_section_counts:
  assumes "run_section cfg c st = (st', Inr k)" and "section_mode c \<noteq> None"
  shows "length (filter is_fill k) + length (filter (\<lambda>c. c = CallDone) k) = length (filter is_fill [c])"
    and "filter is_fill k = []"
  using run_section_next [OF assms(1)] by (cases c; auto)+

lemma wg_step_counts:
  assumes "lock_step rw cfg e w = Some w'" and "wg_at (fills w + dones w) (lw_wg w)"
  shows "wg_at (fills w' + dones w') (lw_wg w')"
proof (cases e)
  case (Enter t)
  from assms(1) [unfolded this] show ?thesis
  proof (cases rule: lock_step_EnterE)
    case (refused L a p)
    then show ?thesis
      using assms(2) counts_set_thread [of t w w' "(lw_threads w ! t)\<lparr>th_panic := Some p\<rparr>"]
      by (simp add: runnable_def)
  next
    case (granted L a l)
    then show ?thesis
      using assms(2) counts_set_thread [of t w w' "(lw_threads w ! t)\<lparr>th_seen := Some (lw_stack w)\<rparr>"]
      by (simp add: runnable_def)
  qed
next
  case (Leave t)
  from assms(1) [unfolded this] show ?thesis
  proof (cases rule: lock_step_LeaveE)
    case (1 L a seen st' r)
    then obtain c cs where c: "th_code (lw_threads w ! t) = c # cs" "t < length (lw_threads w)"
      by (auto simp: runnable_def neq_Nil_conv)
    show ?thesis
    proof (cases r)
      case (Inl p)
      then show ?thesis
        using assms(2) 1(5) c counts_set_thread [OF c(2), of w' "(lw_threads w ! t)\<lparr>th_seen := None, th_panic := Some p\<rparr>"]
        by simp
    next
      case (Inr k)
      then have "run_section cfg c seen = (st', Inr k)" "section_mode c \<noteq> None" using 1(3,4) c by simp_all
      note k = run_section_counts [OF this]
      from 1(3) c have "c \<noteq> CallDone" by auto
      with k Inr have "fills w' + dones w' = fills w + dones w"
        using 1(5) c counts_set_thread [OF c(2), of w' "(lw_threads w ! t)\<lparr>th_seen := None, th_code := k @ cs\<rparr>"]
        by (cases "is_fill c") simp_all
      with assms(2) 1(5) show ?thesis by simp
    qed
  qed
next
  case (Done t)
  from assms(1) [unfolded this] show ?thesis
  proof (cases rule: lock_step_DoneE)
    case (1 wg' r)
    then obtain cs where c: "th_code (lw_threads w ! t) = CallDone # cs" "t < length (lw_threads w)"
      by (auto simp: runnable_def neq_Nil_conv)
    note n = counts_set_thread [OF c(2), of w' "(lw_threads w ! t)\<lparr>th_code := cs\<rparr>"]
    have "0 < dones w"
      using counts_set_thread(2) [OF c(2), of "set_thread t ((lw_threads w ! t)\<lparr>th_code := cs\<rparr>) w"
          "(lw_threads w ! t)\<lparr>th_code := cs\<rparr>"] c by simp
    then obtain m where m: "fills w + dones w = Suc m" by (cases "dones w") auto
    then obtain wg'' where "WaitGroup_done cfg (lw_wg w) = (wg'', Inr (m = 0))" "wg_at m wg''"
      using WaitGroup_done_at [of m "lw_wg w" cfg] assms(2) by auto
    moreover from this 1(3,4) n c m have "fills w' + dones w' = m" by simp
    ultimately show ?thesis using 1(3,4) by simp
  qed
qed

text \<open>A panicked thread never runs again.\<close>

lemma lock_step_thread:
  assumes "lock_step rw cfg e w = Some w'"
  shows "\<exists>t th. t < length (lw_threads w) \<and> th_panic (lw_threads w ! t) = None \<and> lw_threads w' = (lw_threads w)[t := th]"
proof (cases e)
  case (Enter t)
  from assms [unfolded this] show ?thesis by (cases rule: lock_step_EnterE) (auto simp: runnable_def)
next
  case (Leave t)
  from assms [unfolded this] show ?thesis by (cases rule: lock_step_LeaveE) (auto simp: runnable_def)
next
  case (Done t)
  from assms [unfolded this] show ?thesis by (cases rule: lock_step_DoneE) (auto simp: runnable_def)
qed

lemma lock_step_stuck:
  assumes "lock_step rw cfg e w = Some w'" and "t < length (lw_threads w)" and "th_panic (lw_threads w ! t) \<noteq> None"
  shows "lw_threads w' ! t = lw_threads w ! t" and "length (lw_threads w') = length (lw_threads w)"
  using lock_step_thread [OF assms(1)] assms(2,3) by (auto simp: nth_list_update)

lemma lock_run_stuck:
  assumes "lock_run rw cfg es w = Some w'" and "t < length (lw_threads w)" and "th_panic (lw_threads w ! t) \<noteq> None"
  shows "lw_threads w' ! t = lw_threads w ! t \<and> t < length (lw_threads w')"
  using assms
proof (induction es arbitrary: w)
  case (Cons e es)
  then obtain v where v: "lock_step rw cfg e w = Some v" "lock_run rw cfg es v = Some w'"
    by (auto split: option.splits)
  with lock_step_stuck [OF v(1) Cons.prems(2,3)] Cons.prems Cons.IH [OF v(2)] show ?case by simp
qed simp

lemma lock_run_append:
  "lock_run rw cfg (xs @ ys) w = (case lock_run rw cfg xs w of None \<Rightarrow> None | Some w' \<Rightarrow> lock_run rw cfg ys w')"
  by (induction xs arbitrary: w) (auto split: option.splits)

lemma lock_run_length:
  "lock_run rw cfg es w = Some w' \<Longrightarrow> length (lw_threads w') = length (lw_threads w)"
proof (induction es arbitrary: w)
  case (Cons e es)
  then show ?case by (auto split: option.splits dest!: lock_step_thread)
qed simp

lemma wg_run_counts:
  "lock_run rw cfg es w = Some w' \<Longrightarrow> wg_at (fills w + dones w) (lw_wg w) \<Longrightarrow> wg_at (fills w' + dones w') (lw_wg w')"
proof (induction es arbitrary: w)
  case (Cons e es)
  then show ?case by (auto split: option.splits dest: wg_step_counts)
qed simp

section \<open>The atomic operations and the code they compile to\<close>

text \<open>The calls as \<open>Span\<close> and \<open>Tracing_Context\<close> run them in one step; creating a span peeks at the parent
  and pushes.\<close>

datatype atomic_op =
    ACreate ActiveSpan
  | ADrop SystemTime Span
  | AAsync SystemTime SpanUid SpanObject
  | ALast
  | ATake TracingContext

fun atomic_step :: "build \<Rightarrow> atomic_op \<Rightarrow> Shared \<Rightarrow> (Shared, unit) outcome" where
  "atomic_step cfg (ACreate a) sh =
     (sh\<lparr>sh_stack := (sh_stack sh)\<lparr>active := active (sh_stack sh) @ [a]\<rparr>\<rparr>, Inr ())"
| "atomic_step cfg (ADrop now sp) sh = Span_drop cfg now sp sh"
| "atomic_step cfg (AAsync now uid ob) sh = AsyncSpan_drop cfg now True \<lparr>asy_uid = uid, asy_obj = Some ob\<rparr> sh"
| "atomic_step cfg ALast sh = (sh, Inr ())"
| "atomic_step cfg (ATake tc) sh =
     (case convert_to_segment_object tc (sh_stack sh) of (st', r) \<Rightarrow> (sh\<lparr>sh_stack := st'\<rparr>, map_sum id (\<lambda>_. ()) r))"

fun atomic_run :: "build \<Rightarrow> atomic_op list \<Rightarrow> Shared \<Rightarrow> (Shared, unit) outcome" where
  "atomic_run cfg [] sh = (sh, Inr ())"
| "atomic_run cfg (x # xs) sh =
     (case atomic_step cfg x sh of
        (sh', Inl p) \<Rightarrow> (sh', Inl p)
      | (sh', Inr _) \<Rightarrow> atomic_run cfg xs sh')"

lemma atomic_run_append:
  "atomic_run cfg (xs @ ys) sh =
     (case atomic_run cfg xs sh of (sh', Inl p) \<Rightarrow> (sh', Inl p) | (sh', Inr _) \<Rightarrow> atomic_run cfg ys sh')"
  by (induction xs arbitrary: sh) (auto split: prod.splits sum.splits)

fun code_of :: "atomic_op \<Rightarrow> section_code list" where
  "code_of (ACreate a) = [PeekActive, PushActive a]"
| "code_of (ADrop now sp) = [PopActive now (sp_uid sp) (sp_obj sp)]"
| "code_of (AAsync now uid ob) = [FillAsync now uid ob]"
| "code_of ALast = [LastSpan]"
| "code_of (ATake tc) = [TakeFinalized tc]"

definition lock_start :: "'l \<Rightarrow> Shared \<Rightarrow> atomic_op list list \<Rightarrow> 'l lock_world" where
  "lock_start l sh progs =
     \<lparr>lw_stack = sh_stack sh, lw_finalized_lock = l, lw_active_lock = l, lw_wg = sh_wg sh,
      lw_threads = map (\<lambda>ops. \<lparr>th_code = concat (map code_of ops), th_seen = None, th_panic = None\<rparr>) progs\<rparr>"

fun is_async :: "atomic_op \<Rightarrow> bool" where
  "is_async (AAsync now uid ob) = True"
| "is_async x = False"

lemma code_counts:
  "length (filter is_fill (concat (map code_of ops))) = length (filter is_async ops)"
  "filter (\<lambda>c. c = CallDone) (concat (map code_of ops)) = []"
proof (induction ops)
  case (Cons x xs)
  case 1 then show ?case using Cons by (cases x) simp_all
  case 2 then show ?case using Cons by (cases x) simp_all
qed simp_all

lemma lw_wg_start [simp]: "lw_wg (lock_start l sh progs) = sh_wg sh"
  by (simp add: lock_start_def)

lemma start_counts:
  "fills (lock_start l sh progs) = length (filter is_async (concat progs))" "dones (lock_start l sh progs) = 0"
  by (induction progs) (simp_all add: fills_def dones_def lock_start_def code_counts)

context rwlock
begin

lemma lock_inv_start: "readers l = 0 \<Longrightarrow> \<not> writer l \<Longrightarrow> lock_inv (lock_start l sh progs)"
proof -
  assume l: "readers l = 0" "\<not> writer l"
  have "holders m (lock_start l sh progs) = 0" for m
    by (auto simp: holders_def lock_start_def filter_empty_conv in_section_def)
  moreover have "lock_of L (lock_start l sh progs) = l" for L by (cases L) (simp_all add: lock_start_def)
  ultimately show ?thesis using l by (auto simp: lock_inv_def lock_counts_def seen_ok_def lock_start_def)
qed

lemma busy_iff:
  assumes "lock_inv w"
  shows "(\<exists>u < length (lw_threads w). \<exists>a. in_section (L, a) (lw_threads w ! u)) \<longleftrightarrow>
    writer (lock_of L w) \<or> 0 < readers (lock_of L w)"
proof -
  have pos: "0 < holders (L, a) w \<longleftrightarrow> (\<exists>u < length (lw_threads w). in_section (L, a) (lw_threads w ! u))" for a
    by (simp add: holders_def filter_empty_conv all_set_conv_all_nth)
  have "lock_counts w L" using assms by (simp add: lock_inv_def)
  then have "writer (lock_of L w) \<or> 0 < readers (lock_of L w) \<longleftrightarrow>
    0 < holders (L, WriteAccess) w \<or> 0 < holders (L, ReadAccess) w" by (simp add: lock_counts_def)
  also have "\<dots> \<longleftrightarrow> (\<exists>u < length (lw_threads w). \<exists>a. in_section (L, a) (lw_threads w ! u))"
    unfolding pos ex_access by blast
  finally show ?thesis by (rule sym)
qed

text \<open>Dropping an async span is refused exactly when somebody is inside a section on the finalized
  spans.\<close>

lemma async_drop_enter:
  assumes "lock_inv w" and "runnable t w" and "th_seen (lw_threads w ! t) = None"
    and "hd (th_code (lw_threads w ! t)) = FillAsync now uid ob"
  shows "\<exists>w'. lock_step rw cfg (Enter t) w = Some w' \<and>
    th_panic (lw_threads w' ! t) = (if \<exists>u < length (lw_threads w). \<exists>a. in_section (FinalizedLock, a) (lw_threads w ! u)
      then Some (Panic LOCK_MSG) else None) \<and> th_code (lw_threads w' ! t) = th_code (lw_threads w ! t)"
proof (cases "section_guard rw (FillAsync now uid ob) (lock_of FinalizedLock w)")
  case (Inl p)
  with guard_refused_iff [of "FillAsync now uid ob" FinalizedLock WriteAccess "lock_of FinalizedLock w" p]
  have "p = Panic LOCK_MSG" "writer (lock_of FinalizedLock w) \<or> 0 < readers (lock_of FinalizedLock w)" by simp_all
  with Inl assms(2-4) show ?thesis unfolding busy_iff [OF assms(1)] by (simp add: runnable_def)
next
  case (Inr l)
  with guard_granted [of "FillAsync now uid ob" FinalizedLock WriteAccess "lock_of FinalizedLock w" l]
  have "\<not> (writer (lock_of FinalizedLock w) \<or> 0 < readers (lock_of FinalizedLock w))" by simp
  with Inr assms(2-4) show ?thesis unfolding busy_iff [OF assms(1)] by (simp add: runnable_def)
qed

text \<open>Once an async span is stuck the wait group never comes down to zero.\<close>

lemma stuck_blocks_wait:
  assumes "wg_at (fills w + dones w) (lw_wg w)" and "t < length (lw_threads w)"
    and "th_panic (lw_threads w ! t) \<noteq> None" and "filter is_fill (th_code (lw_threads w ! t)) \<noteq> []"
    and "lock_run rw cfg es w = Some w'"
  shows "WaitGroup_wait_check (lw_wg w') = Inr False"
proof -
  have "lw_threads w' ! t = lw_threads w ! t" "t < length (lw_threads w')"
    using lock_run_stuck [OF assms(5,2,3)] by simp_all
  then have "0 < fills w'"
    using assms(4) counts_set_thread(1) [of t w' "w'\<lparr>lw_threads := (lw_threads w')[t := (lw_threads w' ! t)\<lparr>th_code := []\<rparr>]\<rparr>"
        "(lw_threads w' ! t)\<lparr>th_code := []\<rparr>"] by (cases "fills w'") auto
  with wg_run_counts [OF assms(5,1)] show ?thesis by (auto simp: WaitGroup_wait_check_at)
qed

end

section \<open>Runs without a refused lock are atomic\<close>

text \<open>
  Thread 0 owns the context: it creates and drops spans.  Every other thread drops async spans.  An
  operation takes effect when its last section on the stack is left; between the two sections of
  \<open>finalize_span\<close> the popped entry still counts as active, between \<open>finalize_async_span\<close> and \<open>done\<close> the
  wait group is one ahead.
\<close>

fun section_op :: "section_code \<Rightarrow> atomic_op list" where
  "section_op (PushFinalized now uid ob a) = [ADrop now \<lparr>sp_uid = uid, sp_obj = ob\<rparr>]"
| "section_op (FillAsync now uid ob) = [AAsync now uid ob]"
| "section_op (PushActive a) = [ACreate a]"
| "section_op LastSpan = [ALast]"
| "section_op (TakeFinalized tc) = [ATake tc]"
| "section_op _ = []"

fun effect :: "lock_event \<Rightarrow> 'l lock_world \<Rightarrow> (nat \<times> atomic_op) list" where
  "effect (Leave t) w = map (Pair t) (section_op (hd (th_code (lw_threads w ! t))))"
| "effect e w = []"

fun effects :: "'l rwlock_ops \<Rightarrow> build \<Rightarrow> lock_event list \<Rightarrow> 'l lock_world \<Rightarrow> (nat \<times> atomic_op) list" where
  "effects rw cfg [] w = []"
| "effects rw cfg (e # es) w =
     effect e w @ (case lock_step rw cfg e w of None \<Rightarrow> [] | Some w' \<Rightarrow> effects rw cfg es w')"

fun is_push_finalized :: "section_code \<Rightarrow> bool" where
  "is_push_finalized (PushFinalized now uid ob a) = True"
| "is_push_finalized c = False"

fun popped :: "section_code list \<Rightarrow> ActiveSpan list" where
  "popped (PushFinalized now uid ob a # cs) = [a]"
| "popped cs = []"

fun owner_code :: "section_code list \<Rightarrow> bool" where
  "owner_code [] = True"
| "owner_code (c # cs) \<longleftrightarrow> list_all (\<lambda>c. \<not> is_fill c \<and> c \<noteq> CallDone) (c # cs) \<and>
     list_all (\<lambda>c. \<not> is_push_finalized c) cs \<and>
     (case c of PushFinalized now uid ob a \<Rightarrow> as_uid a = uid | _ \<Rightarrow> True)"

definition async_code :: "section_code list \<Rightarrow> bool" where
  "async_code = list_all (\<lambda>c. is_fill c \<or> c = CallDone)"

definition roles :: "'l lock_world \<Rightarrow> bool" where
  "roles w \<longleftrightarrow> lw_threads w \<noteq> [] \<and> owner_code (th_code (lw_threads w ! 0)) \<and>
     (\<forall>t. 0 < t \<longrightarrow> t < length (lw_threads w) \<longrightarrow> async_code (th_code (lw_threads w ! t)))"

lemma owner_code_rest:
  assumes "owner_code (c # cs)"
  shows "owner_code cs" and "popped cs = []" and "\<not> is_fill c" and "c \<noteq> CallDone"
  using assms by (cases cs; cases "hd cs"; auto)+

lemma pop_active_Some:
  assumes "pop_active uid st = (st', Some a)"
  shows "active st = active st' @ [a]" and "as_uid a = uid" and "finalized st' = finalized st"
  using assms by (auto simp: pop_active_def last_opt_eq_Some split: if_splits option.splits)

definition sim :: "'l lock_world \<Rightarrow> Shared \<Rightarrow> bool" where
  "sim w sh \<longleftrightarrow> roles w \<and> finalized (sh_stack sh) = finalized (lw_stack w) \<and>
     active (sh_stack sh) = active (lw_stack w) @ popped (th_code (lw_threads w ! 0)) \<and>
     wg_at (fills w) (sh_wg sh) \<and> wg_at (fills w + dones w) (lw_wg w)"

text \<open>What leaving a section does to the abstract state, first for the thread that owns the context.\<close>

lemma owner_section:
  assumes "owner_code (c # cs)" and "run_section cfg c seen = (st', Inr k)" and "section_mode c = Some m"
    and "same_vector (fst m) seen st" and "finalized (sh_stack sh) = finalized st"
    and "active (sh_stack sh) = active st @ popped (c # cs)"
  shows "\<exists>sh'. atomic_run cfg (section_op c) sh = (sh', Inr ()) \<and> sh_wg sh' = sh_wg sh \<and>
    finalized (sh_stack sh') = finalized (write_back m st' st) \<and>
    active (sh_stack sh') = active (write_back m st' st) @ popped (k @ cs) \<and> owner_code (k @ cs)"
proof (cases c)
  case (PopActive now uid ob)
  with assms(2) obtain a where k: "k = [PushFinalized now uid ob a]" "pop_active uid seen = (st', Some a)"
    using run_section_next(2) by blast
  from assms(1) PopActive pop_active_Some(2) [OF k(2)] have "owner_code (k @ cs)" by (simp add: k)
  with pop_active_Some [OF k(2)] k assms(3-6) PopActive show ?thesis by auto
next
  case (PushFinalized now uid ob a)
  with assms(2) have k: "k = []" "st' = seen\<lparr>finalized := finalized seen @ [finalized_entry cfg now uid ob a]\<rparr>" by auto
  have "Span_drop cfg now \<lparr>sp_uid = uid, sp_obj = ob\<rparr> sh = (sh\<lparr>sh_stack := (sh_stack sh)\<lparr>active := active st,
      finalized := finalized (sh_stack sh) @ [finalized_entry cfg now uid ob a]\<rparr>\<rparr>, Inr ())"
    using assms(1,6) PushFinalized
    by (cases ob) (simp_all add: Span_drop_def finalize_span_top finalized_entry_def)
  with k owner_code_rest [OF assms(1)] assms(3-5) PushFinalized show ?thesis by auto
next
  case (TakeFinalized tc)
  then obtain seg where seg: "convert_to_segment_object tc seen = (st', Inr seg)" "k = []"
    using assms(2) by (cases "snd (convert_to_segment_object tc seen)") (auto split: prod.splits)
  then have "convert_to_segment_object tc (sh_stack sh) = ((sh_stack sh)\<lparr>finalized := []\<rparr>, Inr seg)" "finalized st' = []"
    using assms(3-5) TakeFinalized by (auto simp: convert_to_segment_object_def split: option.splits)
  with seg owner_code_rest [OF assms(1)] assms(3,6) TakeFinalized show ?thesis by auto
qed (use assms owner_code_rest [OF assms(1)] in auto)

text \<open>And for a thread that drops an async span.\<close>

lemma async_section:
  assumes "run_section cfg (FillAsync now uid ob) seen = (st', Inr k)" and "finalized seen = finalized (sh_stack sh)"
    and "wg_at (Suc n) (sh_wg sh)"
  shows "\<exists>sh'. atomic_run cfg [AAsync now uid ob] sh = (sh', Inr ()) \<and> wg_at n (sh_wg sh') \<and>
    finalized (sh_stack sh') = finalized st' \<and> active (sh_stack sh') = active (sh_stack sh)"
proof -
  from assms(1) obtain fin where fin: "fill_async (fetch_time cfg now End) uid ob (finalized seen) = Some fin"
    "st' = seen\<lparr>finalized := fin\<rparr>"
    by (auto simp: finalize_async_span_def split: option.splits)
  obtain wg' where "WaitGroup_done cfg (sh_wg sh) = (wg', Inr (n = 0))" "wg_at n wg'"
    using WaitGroup_done_at [OF assms(3)] by blast
  with fin assms(2) show ?thesis by (simp add: AsyncSpan_drop_def finalize_async_span_def)
qed

lemma roles_async:
  "roles w \<Longrightarrow> t \<noteq> 0 \<Longrightarrow> t < length (lw_threads w) \<Longrightarrow> th_code (lw_threads w ! t) = cs \<Longrightarrow> async_code cs"
  by (auto simp: roles_def)

lemma sim_same_code:
  assumes "sim w sh" and "t < length (lw_threads w)" and "lw_threads w' = (lw_threads w)[t := th]"
    and "th_code th = th_code (lw_threads w ! t)" and "lw_stack w' = lw_stack w" and "lw_wg w' = lw_wg w"
  shows "sim w' sh"
proof -
  have "th_code (lw_threads w' ! u) = th_code (lw_threads w ! u)" if "u < length (lw_threads w)" for u
    using that assms(3,4) by (cases "u = t") auto
  moreover have "fills w' = fills w" "dones w' = dones w"
    using counts_set_thread [OF assms(2,3)] assms(4) by simp_all
  moreover have "length (lw_threads w') = length (lw_threads w)" by (simp add: assms(3))
  ultimately show ?thesis
    using assms(1,5,6) by (auto simp: sim_def roles_def simp flip: length_greater_0_conv)
qed

context rwlock
begin

lemma sim_leave:
  assumes step: "lock_step rw cfg (Leave t) w = Some w'" and inv: "lock_inv w" and sim: "sim w sh"
    and ok: "th_panic (lw_threads w' ! t) = None"
  shows "\<exists>sh'. atomic_run cfg (section_op (hd (th_code (lw_threads w ! t)))) sh = (sh', Inr ()) \<and> sim w' sh'"
  using step
proof (cases rule: lock_step_LeaveE)
  case (1 L a seen st' r)
  then obtain c cs where c: "th_code (lw_threads w ! t) = c # cs" "t < length (lw_threads w)"
    by (auto simp: runnable_def neq_Nil_conv)
  from ok 1(5) c obtain k where r: "r = Inr k" by (cases r) auto
  with 1 c have run: "run_section cfg c seen = (st', Inr k)" and m: "section_mode c = Some (L, a)" by simp_all
  let ?th = "(lw_threads w ! t)\<lparr>th_seen := None, th_code := k @ cs\<rparr>"
  have w': "lw_threads w' = (lw_threads w)[t := ?th]" "lw_stack w' = write_back (L, a) st' (lw_stack w)" "lw_wg w' = lw_wg w"
    using 1(5) r c by simp_all
  have same: "same_vector L seen (lw_stack w)"
    using inv 1(2) c m by (auto simp: lock_inv_def seen_ok_def in_section_def)
  have wg: "wg_at (fills w' + dones w') (lw_wg w')" using wg_step_counts [OF step] sim by (simp add: sim_def)
  note n = counts_set_thread [OF c(2) w'(1)] and k = run_section_counts [OF run]
  show ?thesis
  proof (cases "t = 0")
    case True
    with sim c have own: "owner_code (c # cs)" by (simp add: sim_def roles_def)
    have "fills w' = fills w" using n(1) k m c owner_code_rest(3) [OF own] by simp
    moreover obtain sh' where "atomic_run cfg (section_op c) sh = (sh', Inr ())" "sh_wg sh' = sh_wg sh"
      "finalized (sh_stack sh') = finalized (lw_stack w')"
      "active (sh_stack sh') = active (lw_stack w') @ popped (k @ cs)" "owner_code (k @ cs)"
      using owner_section [OF own run m, of "lw_stack w" sh] same sim w'(2) c True by (auto simp: sim_def)
    ultimately show ?thesis using sim wg w'(1) c True by (auto simp: sim_def roles_def)
  next
    case False
    with sim c have asy: "async_code (c # cs)" by (auto simp: sim_def intro: roles_async)
    with m obtain now uid ob where fill: "c = FillAsync now uid ob" by (cases c) (auto simp: async_code_def)
    with run have "k = [CallDone]" using run_section_next(1) [OF run] by simp
    then have n': "Suc (fills w') = fills w" using n(1) c fill by simp
    then obtain sh' where "atomic_run cfg [AAsync now uid ob] sh = (sh', Inr ())" "wg_at (fills w') (sh_wg sh')"
      "finalized (sh_stack sh') = finalized st'" "active (sh_stack sh') = active (sh_stack sh)"
      using async_section [of cfg now uid ob seen st' k sh "fills w'"] run fill same m sim
      by (auto simp: sim_def)
    with fill m sim wg w' c asy False \<open>k = [CallDone]\<close> show ?thesis
      by (auto simp: sim_def roles_def async_code_def nth_list_update)
  qed
qed

lemma sim_done:
  assumes step: "lock_step rw cfg (Done t) w = Some w'" and sim: "sim w sh"
    and ok: "th_panic (lw_threads w' ! t) = None"
  shows "sim w' sh"
  using step
proof (cases rule: lock_step_DoneE)
  case (1 wg' r)
  then obtain cs where c: "th_code (lw_threads w ! t) = CallDone # cs" "t < length (lw_threads w)"
    by (auto simp: runnable_def neq_Nil_conv)
  from ok 1(4) c obtain b where "r = Inr b" by (cases r) auto
  with 1(4) c have w': "lw_threads w' = (lw_threads w)[t := (lw_threads w ! t)\<lparr>th_code := cs\<rparr>]"
    "lw_stack w' = lw_stack w" by simp_all
  have t: "t \<noteq> 0"
  proof
    assume "t = 0"
    with sim c owner_code_rest(4) [of CallDone cs] show False by (auto simp: sim_def roles_def)
  qed
  have "async_code (CallDone # cs)" using sim c t by (auto simp: sim_def intro: roles_async)
  moreover have "fills w' = fills w" using counts_set_thread(1) [OF c(2) w'(1)] c by simp
  moreover have "wg_at (fills w' + dones w') (lw_wg w')" using wg_step_counts [OF step] sim by (simp add: sim_def)
  ultimately show ?thesis
    using sim w' c t by (auto simp: sim_def roles_def async_code_def nth_list_update)
qed

lemma sim_step:
  assumes step: "lock_step rw cfg e w = Some w'" and inv: "lock_inv w" and sim: "sim w sh"
    and ok: "list_all (\<lambda>th. th_panic th = None) (lw_threads w')"
  shows "\<exists>sh'. atomic_run cfg (map snd (effect e w)) sh = (sh', Inr ()) \<and> sim w' sh'"
proof (cases e)
  case (Enter t)
  from step [unfolded this] have "sim w' sh"
  proof (cases rule: lock_step_EnterE)
    case (refused L a p)
    then show ?thesis
      using sim_same_code [OF sim, of t w' "(lw_threads w ! t)\<lparr>th_panic := Some p\<rparr>"] by (simp add: runnable_def)
  next
    case (granted L a l)
    then show ?thesis
      using sim_same_code [OF sim, of t w' "(lw_threads w ! t)\<lparr>th_seen := Some (lw_stack w)\<rparr>"]
      by (simp add: runnable_def)
  qed
  with Enter show ?thesis by simp
next
  case (Leave t)
  have "t < length (lw_threads w')"
    using step [unfolded Leave] by (cases rule: lock_step_LeaveE) (simp add: runnable_def)
  with ok have "th_panic (lw_threads w' ! t) = None" by (simp add: list_all_length)
  from sim_leave [OF step [unfolded Leave] inv sim this] Leave show ?thesis by (simp add: comp_def)
next
  case (Done t)
  have "t < length (lw_threads w')"
    using step [unfolded Done] by (cases rule: lock_step_DoneE) (simp add: runnable_def)
  with ok have "th_panic (lw_threads w' ! t) = None" by (simp add: list_all_length)
  from sim_done [OF step [unfolded Done] sim this] Done show ?thesis by simp
qed

text \<open>Whoever has not panicked at the end never did.\<close>

lemma lock_run_no_panic:
  assumes "lock_run rw cfg es w = Some w'" and "list_all (\<lambda>th. th_panic th = None) (lw_threads w')"
  shows "list_all (\<lambda>th. th_panic th = None) (lw_threads w)"
  unfolding list_all_length
proof (intro allI impI)
  fix t assume "t < length (lw_threads w)"
  with lock_run_stuck [OF assms(1) this] assms(2) show "th_panic (lw_threads w ! t) = None"
    unfolding list_all_length by (cases "th_panic (lw_threads w ! t)") fastforce+
qed

lemma sim_run:
  assumes "lock_run rw cfg es w = Some w'" and "lock_inv w" and "sim w sh"
    and "list_all (\<lambda>th. th_panic th = None) (lw_threads w')"
  shows "\<exists>sh'. atomic_run cfg (map snd (effects rw cfg es w)) sh = (sh', Inr ()) \<and> sim w' sh'"
  using assms
proof (induction es arbitrary: w sh)
  case (Cons e es)
  then obtain v where v: "lock_step rw cfg e w = Some v" "lock_run rw cfg es v = Some w'"
    by (auto split: option.splits)
  from sim_step [OF v(1) Cons.prems(2,3) lock_run_no_panic [OF v(2) Cons.prems(4)]] obtain sh1
    where "atomic_run cfg (map snd (effect e w)) sh = (sh1, Inr ())" "sim v sh1" by blast
  moreover from Cons.IH [OF v(2) lock_step_inv [OF v(1) Cons.prems(2)] this(2) Cons.prems(4)] obtain sh2
    where "atomic_run cfg (map snd (effects rw cfg es v)) sh1 = (sh2, Inr ())" "sim w' sh2" by blast
  ultimately show ?case using v(1) by (simp add: atomic_run_append)
qed simp

end

text \<open>The effects of one thread are its operations, in its order.\<close>

fun pending_op :: "section_code \<Rightarrow> atomic_op list" where
  "pending_op (PopActive now uid ob) = [ADrop now \<lparr>sp_uid = uid, sp_obj = ob\<rparr>]"
| "pending_op c = section_op c"

definition pending :: "nat \<Rightarrow> 'l lock_world \<Rightarrow> atomic_op list" where
  "pending t w = concat (map pending_op (th_code (lw_threads w ! t)))"

lemma pending_code_of: "concat (map pending_op (concat (map code_of ops))) = ops"
proof (induction ops)
  case (Cons x xs)
  then show ?case by (cases x) simp_all
qed simp

lemma pending_start: "t < length progs \<Longrightarrow> pending t (lock_start l sh progs) = progs ! t"
  by (simp add: pending_def lock_start_def pending_code_of del: map_concat)

lemma pending_section:
  assumes "run_section cfg c st = (st', Inr k)"
  shows "section_op c @ concat (map pending_op k) = pending_op c"
  using run_section_next [OF assms] by (cases c) auto

lemma pending_step:
  assumes step: "lock_step rw cfg e w = Some w'" and ok: "list_all (\<lambda>th. th_panic th = None) (lw_threads w')"
  shows "map snd (filter (\<lambda>p. fst p = t) (effect e w)) @ pending t w' = pending t w"
proof (cases e)
  case (Enter u)
  from step [unfolded this] show ?thesis
    by (cases rule: lock_step_EnterE; cases "t = u") (simp_all add: Enter pending_def runnable_def)
next
  case (Leave u)
  from step [unfolded this] show ?thesis
  proof (cases rule: lock_step_LeaveE)
    case (1 L a seen st' r)
    then obtain c cs where c: "th_code (lw_threads w ! u) = c # cs" "u < length (lw_threads w)"
      by (auto simp: runnable_def neq_Nil_conv)
    from ok 1(5) c obtain k where "r = Inr k" by (cases r) (auto simp: list_all_length)
    with 1 c pending_section [of cfg c seen st' k] show ?thesis
      by (cases "t = u") (simp_all add: Leave pending_def comp_def filter_map)
  qed
next
  case (Done u)
  from step [unfolded this] show ?thesis
  proof (cases rule: lock_step_DoneE)
    case (1 wg' r)
    then obtain cs where c: "th_code (lw_threads w ! u) = CallDone # cs" "u < length (lw_threads w)"
      by (auto simp: runnable_def neq_Nil_conv)
    from ok 1(4) c obtain b where "r = Inr b" by (cases r) (auto simp: list_all_length)
    with 1 c show ?thesis by (cases "t = u") (simp_all add: Done pending_def)
  qed
qed

context rwlock
begin

lemma pending_run:
  assumes "lock_run rw cfg es w = Some w'" and "list_all (\<lambda>th. th_panic th = None) (lw_threads w')"
  shows "map snd (filter (\<lambda>p. fst p = t) (effects rw cfg es w)) @ pending t w' = pending t w"
  using assms
proof (induction es arbitrary: w)
  case (Cons e es)
  then obtain v where v: "lock_step rw cfg e w = Some v" "lock_run rw cfg es v = Some w'"
    by (auto split: option.splits)
  from pending_step [OF v(1) lock_run_no_panic [OF v(2) Cons.prems(2)], of t] Cons.IH [OF v(2) Cons.prems(2)] v(1)
  show ?case by simp
qed simp

end

lemma owner_code_start: "list_all (\<lambda>x. \<not> is_async x) ops \<Longrightarrow> owner_code (concat (map code_of ops)) \<and>
    popped (concat (map code_of ops)) = [] \<and>
    list_all (\<lambda>c. \<not> is_fill c \<and> c \<noteq> CallDone \<and> \<not> is_push_finalized c) (concat (map code_of ops))"
proof (induction ops)
  case (Cons x xs)
  then show ?case by (cases x) (auto simp: list_all_iff)
qed simp

lemma async_code_start: "list_all is_async ops \<Longrightarrow> async_code (concat (map code_of ops))"
proof (induction ops)
  case (Cons x xs)
  then show ?case by (cases x) (auto simp: async_code_def)
qed (simp add: async_code_def)

lemma sim_start:
  assumes "list_all (\<lambda>x. \<not> is_async x) own" and "list_all (list_all is_async) asyncs"
    and "wg_at (length (filter is_async (concat (own # asyncs)))) (sh_wg sh)"
  shows "sim (lock_start l sh (own # asyncs)) sh"
proof -
  have "fills (lock_start l sh (own # asyncs)) = length (filter is_async (concat (own # asyncs)))"
    "dones (lock_start l sh (own # asyncs)) = 0" by (rule start_counts)+
  moreover have "async_code (th_code (lw_threads (lock_start l sh (own # asyncs)) ! t))"
    if "0 < t" "t < length (lw_threads (lock_start l sh (own # asyncs)))" for t
    using that assms(2) by (cases t) (auto simp: lock_start_def list_all_length intro!: async_code_start)
  ultimately show ?thesis
    using assms(1,3) owner_code_start [OF assms(1)] by (auto simp: sim_def roles_def lock_start_def)
qed

section \<open>Properties\<close>

lemma wg_at_unique: "wg_at n a \<Longrightarrow> wg_at n b \<Longrightarrow> a = b"
  by (cases a; cases b) (simp add: wg_at_def)

text \<open>C7. Concurrent use is atomic as long as no lock is refused: let one thread create and drop spans of a
  context while any number of other threads drop async spans of it, interleaved at the granularity of
  single lock operations.  If everybody gets through without a panic, the shared stack and the wait
  group end up exactly as if the operations had been run one after the other by \<open>Span_drop\<close>,
  \<open>AsyncSpan_drop\<close> and the rest, in an order that keeps the order of every thread.\<close>

theorem concurrent_spans_are_atomic:
  assumes "rwlock rw readers writer" and "readers l = 0" and "\<not> writer l"
    and "list_all (\<lambda>x. \<not> is_async x) own" and "list_all (list_all is_async) asyncs"
    and "wg_at (length (filter is_async (concat (own # asyncs)))) (sh_wg sh)"
    and "lock_run rw cfg es (lock_start l sh (own # asyncs)) = Some w"
    and "list_all (\<lambda>th. th_panic th = None \<and> th_code th = []) (lw_threads w)"
  shows "\<exists>order. atomic_run cfg (map snd order) sh = (\<lparr>sh_stack = lw_stack w, sh_wg = lw_wg w\<rparr>, Inr ()) \<and>
    (\<forall>t < length (own # asyncs). map snd (filter (\<lambda>p. fst p = t) order) = (own # asyncs) ! t)"
proof -
  let ?w0 = "lock_start l sh (own # asyncs)" and ?order = "effects rw cfg es (lock_start l sh (own # asyncs))"
  have ok: "list_all (\<lambda>th. th_panic th = None) (lw_threads w)" and fin: "list_all (\<lambda>th. th_code th = []) (lw_threads w)"
    using assms(8) by (simp_all add: list_all_iff)
  obtain sh' where sh': "atomic_run cfg (map snd ?order) sh = (sh', Inr ())" "sim w sh'"
    using rwlock.sim_run [OF assms(1,7) rwlock.lock_inv_start [OF assms(1-3)] sim_start [OF assms(4-6)] ok] by blast
  have n0: "fills w = 0" "dones w = 0" using fin by (simp_all add: fills_def dones_def list_all_iff)
  have "sh' = \<lparr>sh_stack = lw_stack w, sh_wg = lw_wg w\<rparr>"
  proof -
    have "th_code (lw_threads w ! 0) = []" using sh'(2) fin by (auto simp: sim_def roles_def list_all_length)
    then have "sh_stack sh' = lw_stack w" using sh'(2) by (simp add: sim_def)
    moreover have "sh_wg sh' = lw_wg w" using sh'(2) n0 wg_at_unique by (auto simp: sim_def)
    ultimately show ?thesis by (cases sh') simp
  qed
  moreover have "map snd (filter (\<lambda>p. fst p = t) ?order) = (own # asyncs) ! t" if "t < length (own # asyncs)" for t
  proof -
    have "pending t ?w0 = (own # asyncs) ! t" using that by (rule pending_start)
    moreover have "pending t w = []"
      using fin lock_run_length [OF assms(7)] that by (auto simp: pending_def list_all_length lock_start_def)
    ultimately show ?thesis using rwlock.pending_run [OF assms(1,7) ok, of t] by simp
  qed
  ultimately show ?thesis using sh'(1) by blast
qed

text \<open>The witness: a context with one open span and two async spans that are dropped in threads 1 and 2
  while thread 0 closes the open one.\<close>

definition lock_cfg :: build where
  "lock_cfg = \<lparr>overflow_checks = True, mock = True\<rparr>"

definition shared_obj :: "i32 \<Rightarrow> SpanObject" where
  "shared_obj i = Span_new_obj lock_cfg 0 i (-1) ''op'' [] Local Unknown False"

definition shared_ctx :: Shared where
  "shared_ctx = \<lparr>sh_stack = \<lparr>finalized = [FinalizeSpan_new 1 None None, FinalizeSpan_new 2 None None],
     active = [ActiveSpan_new 0 0]\<rparr>, sh_wg = \<lparr>wg_count = 2, wg_poisoned = False\<rparr>\<rparr>"

definition owner_ops :: "atomic_op list" where
  "owner_ops = [ADrop 0 (Span_new 0 (shared_obj 0))]"

definition async_ops :: "atomic_op list list" where
  "async_ops = [[AAsync 0 1 (shared_obj 1)], [AAsync 0 2 (shared_obj 2)]]"

definition interleaving :: "lock_event list" where
  "interleaving = [Enter 1, Enter 0, Leave 0, Leave 1, Enter 0, Leave 0, Enter 2, Leave 2, Done 2, Done 1]"

definition interleaved :: "(nat \<times> bool) lock_world option" where
  "interleaved = lock_run counting_rwlock lock_cfg interleaving (lock_start (0, False) shared_ctx (owner_ops # async_ops))"

lemma interleaved_ends:
  "case interleaved of None \<Rightarrow> False | Some w \<Rightarrow> list_all (\<lambda>th. th_panic th = None \<and> th_code th = []) (lw_threads w)"
  by code_simp

lemma wg_at_shared_ctx: "wg_at 2 (sh_wg shared_ctx)"
  by (simp add: wg_at_def shared_ctx_def)

lemma sample_async_count: "length (filter is_async (concat (owner_ops # async_ops))) = 2"
  by (simp add: owner_ops_def async_ops_def)

theorem concurrent_spans_are_atomic_witness:
  "\<exists>w order. interleaved = Some w \<and>
     atomic_run lock_cfg (map snd order) shared_ctx = (\<lparr>sh_stack = lw_stack w, sh_wg = lw_wg w\<rparr>, Inr ()) \<and>
     (\<forall>t < length (owner_ops # async_ops). map snd (filter (\<lambda>p. fst p = t) order) = (owner_ops # async_ops) ! t)"
proof -
  obtain w where w: "interleaved = Some w" "list_all (\<lambda>th. th_panic th = None \<and> th_code th = []) (lw_threads w)"
    using interleaved_ends by (auto split: option.splits)
  have "list_all (\<lambda>x. \<not> is_async x) owner_ops" "list_all (list_all is_async) async_ops"
    by (simp_all add: owner_ops_def async_ops_def)
  from concurrent_spans_are_atomic [OF cl.rwlock_axioms _ _ this _ w(1) [unfolded interleaved_def] w(2)]
  show ?thesis unfolding sample_async_count using w(1) wg_at_shared_ctx by auto
qed

text \<open>C18. What a refused lock costs: a thread that drops an async span while any other thread is inside a
  section on the finalized spans panics with \<open>LOCK_MSG\<close>, and only then; and since its \<open>done\<close> is never
  called, \<open>TracingContext::wait\<close> blocks from then on, whatever the other threads do.\<close>

theorem overlapping_async_drop_blocks_wait:
  assumes "rwlock rw readers writer" and "readers l = 0" and "\<not> writer l"
    and "wg_at (length (filter is_async (concat progs))) (sh_wg sh)"
    and "lock_run rw cfg es (lock_start l sh progs) = Some w"
    and "runnable t w" and "th_seen (lw_threads w ! t) = None"
    and "hd (th_code (lw_threads w ! t)) = FillAsync now uid ob"
  shows "\<exists>w'. lock_step rw cfg (Enter t) w = Some w' \<and>
    (th_panic (lw_threads w' ! t) = Some (Panic LOCK_MSG) \<longleftrightarrow>
       (\<exists>u < length (lw_threads w). \<exists>a. in_section (FinalizedLock, a) (lw_threads w ! u))) \<and>
    (th_panic (lw_threads w' ! t) \<noteq> None \<longrightarrow>
       (\<forall>es' w''. lock_run rw cfg es' w' = Some w'' \<longrightarrow> WaitGroup_wait_check (lw_wg w'') = Inr False))"
proof -
  let ?w0 = "lock_start l sh progs"
  have inv: "rwlock.lock_inv readers writer w"
    by (rule rwlock.lock_run_inv [OF assms(1,5) rwlock.lock_inv_start [OF assms(1-3)]])
  obtain w' where w': "lock_step rw cfg (Enter t) w = Some w'"
    "th_panic (lw_threads w' ! t) = (if \<exists>u < length (lw_threads w). \<exists>a. in_section (FinalizedLock, a) (lw_threads w ! u)
      then Some (Panic LOCK_MSG) else None)" "th_code (lw_threads w' ! t) = th_code (lw_threads w ! t)"
    using rwlock.async_drop_enter [OF assms(1) inv assms(6-8)] by blast
  have run: "lock_run rw cfg (es @ [Enter t]) ?w0 = Some w'"
    using assms(5) w'(1) by (simp add: lock_run_append)
  have "wg_at (fills w' + dones w') (lw_wg w')"
    using wg_run_counts [OF run] assms(4) by (simp add: start_counts)
  moreover have "t < length (lw_threads w')"
    using lock_run_length [OF run] lock_run_length [OF assms(5)] assms(6) by (simp add: runnable_def)
  moreover have "filter is_fill (th_code (lw_threads w' ! t)) \<noteq> []"
    using assms(6,8) w'(3) by (cases "th_code (lw_threads w ! t)") (auto simp: runnable_def)
  ultimately show ?thesis using w' rwlock.stuck_blocks_wait [OF assms(1)] by (auto split: if_splits)
qed

text \<open>The witness: thread 1 has entered its section when thread 2 tries.\<close>

definition entered :: "(nat \<times> bool) lock_world" where
  "entered = the (lock_run counting_rwlock lock_cfg [Enter 1] (lock_start (0, False) shared_ctx (owner_ops # async_ops)))"

lemma entered_state:
  "lock_run counting_rwlock lock_cfg [Enter 1] (lock_start (0, False) shared_ctx (owner_ops # async_ops)) = Some entered"
  "runnable 2 entered" "th_seen (lw_threads entered ! 2) = None" "1 < length (lw_threads entered)"
  "hd (th_code (lw_threads entered ! 2)) = FillAsync 0 2 (shared_obj 2)"
  "in_section (FinalizedLock, WriteAccess) (lw_threads entered ! 1)"
  by (simp_all add: entered_def lock_start_def owner_ops_def async_ops_def counting_rwlock_def runnable_def
      set_thread_def SpanStack_finalized_mut_def in_section_def)

theorem overlapping_async_drop_blocks_wait_witness:
  "\<exists>w'. lock_step counting_rwlock lock_cfg (Enter 2) entered = Some w' \<and>
     th_panic (lw_threads w' ! 2) = Some (Panic LOCK_MSG) \<and>
     (\<forall>es' w''. lock_run counting_rwlock lock_cfg es' w' = Some w'' \<longrightarrow>
        WaitGroup_wait_check (lw_wg w'') = Inr False)"
proof -
  have "wg_at (length (filter is_async (concat (owner_ops # async_ops)))) (sh_wg shared_ctx)"
    unfolding sample_async_count by (rule wg_at_shared_ctx)
  from overlapping_async_drop_blocks_wait [OF cl.rwlock_axioms _ _ this entered_state(1-3,5)]
  obtain w' where w': "lock_step counting_rwlock lock_cfg (Enter 2) entered = Some w'"
    "th_panic (lw_threads w' ! 2) = Some (Panic LOCK_MSG) \<longleftrightarrow>
       (\<exists>u < length (lw_threads entered). \<exists>a. in_section (FinalizedLock, a) (lw_threads entered ! u))"
    "th_panic (lw_threads w' ! 2) \<noteq> None \<longrightarrow>
       (\<forall>es' w''. lock_run counting_rwlock lock_cfg es' w' = Some w'' \<longrightarrow> WaitGroup_wait_check (lw_wg w'') = Inr False)"
    by auto
  moreover from this(2) have "th_panic (lw_threads w' ! 2) = Some (Panic LOCK_MSG)"
    using entered_state(4,6) by blast
  ultimately show ?thesis by auto
qed

end
