(* ===== verification/Rust_Slice.thy ===== *)
theory Rust_Slice
  imports Prelude
begin

text \<open>
  The slice algorithms of Rust's standard library that the histogram uses: the stable \<open>sort_by\<close>,
  \<open>Vec::dedup\<close> and \<open>binary_search_by\<close> as it is in toolchain 1.85, which \<^verbatim>\<open>rust-toolchain.toml\<close>
  pins.
\<close>

datatype ordering = Less | Equal | Greater

definition int_cmp :: "int \<Rightarrow> int \<Rightarrow> ordering" where
  "int_cmp a b = (if a < b then Less else if a = b then Equal else Greater)"

lemma int_cmp_simps [simp]:
  "int_cmp a b = Less \<longleftrightarrow> a < b" "int_cmp a b = Equal \<longleftrightarrow> a = b" "int_cmp a b = Greater \<longleftrightarrow> b < a"
  by (auto simp: int_cmp_def)

section \<open>sort_by\<close>

text \<open>
  The insertion sort the library runs on short slices: each element moves left past those it is
  less than.  For a comparison that is a total preorder every stable sort gives this result; for
  one that is not, which the library leaves unspecified, it is one of the possible results.
  \<open>sift\<close> works on the reversed sorted prefix.
\<close>

fun sift :: "('a \<Rightarrow> 'a \<Rightarrow> ordering) \<Rightarrow> 'a \<Rightarrow> 'a list \<Rightarrow> 'a list" where
  "sift cmp x [] = [x]"
| "sift cmp x (y # ys) = (if cmp x y = Less then y # sift cmp x ys else x # y # ys)"

definition sort_by :: "('a \<Rightarrow> 'a \<Rightarrow> ordering) \<Rightarrow> 'a list \<Rightarrow> 'a list" where
  "sort_by cmp xs = rev (foldl (\<lambda>acc x. sift cmp x acc) [] xs)"

lemma mset_sift: "mset (sift cmp x ys) = add_mset x (mset ys)"
  by (induction ys) auto

lemma mset_foldl_sift: "mset (foldl (\<lambda>acc x. sift cmp x acc) acc xs) = mset acc + mset xs"
  by (induction xs arbitrary: acc) (auto simp: mset_sift)

lemma mset_sort_by: "mset (sort_by cmp xs) = mset xs"
  by (simp add: sort_by_def mset_foldl_sift)

lemma set_sort_by [simp]: "set (sort_by cmp xs) = set xs"
  by (metis mset_sort_by set_mset_mset)

text \<open>With a comparison of keys the result is in key order.\<close>

lemma sorted_sift:
  assumes "\<And>a b. a \<in> insert x (set ys) \<Longrightarrow> b \<in> insert x (set ys) \<Longrightarrow> cmp a b = int_cmp (key a) (key b)"
    and "sorted_wrt (\<lambda>a b. key b \<le> key a) ys"
  shows "sorted_wrt (\<lambda>a b. key b \<le> key a) (sift cmp x ys)"
  using assms
proof (induction ys)
  case (Cons y ys)
  have "set (sift cmp x ys) = insert x (set ys)"
    using mset_sift [of cmp x ys] by (metis set_mset_mset set_mset_add_mset_insert)
  with Cons show ?case by (auto simp: not_less)
qed simp

lemma sorted_foldl_sift:
  assumes "\<And>a b. a \<in> set acc \<union> set xs \<Longrightarrow> b \<in> set acc \<union> set xs \<Longrightarrow> cmp a b = int_cmp (key a) (key b)"
    and "sorted_wrt (\<lambda>a b. key b \<le> key a) acc"
  shows "sorted_wrt (\<lambda>a b. key b \<le> key a) (foldl (\<lambda>acc x. sift cmp x acc) acc xs)"
  using assms
proof (induction xs arbitrary: acc)
  case (Cons x xs)
  have "set (sift cmp x acc) = insert x (set acc)"
    using mset_sift [of cmp x acc] by (metis set_mset_mset set_mset_add_mset_insert)
  moreover have "sorted_wrt (\<lambda>a b. key b \<le> key a) (sift cmp x acc)"
    using Cons.prems by (intro sorted_sift) auto
  ultimately show ?case using Cons.prems(1) by (simp, intro Cons.IH) auto
qed simp

lemma sorted_sort_by:
  assumes "\<And>a b. a \<in> set xs \<Longrightarrow> b \<in> set xs \<Longrightarrow> cmp a b = int_cmp (key a) (key b)"
  shows "sorted_wrt (\<lambda>a b. key a \<le> key b) (sort_by cmp xs)"
proof -
  have "sorted_wrt (\<lambda>a b. key b \<le> key a) (foldl (\<lambda>acc x. sift cmp x acc) [] xs)"
    using assms by (intro sorted_foldl_sift) auto
  then show ?thesis by (simp add: sort_by_def sorted_wrt_rev)
qed

section \<open>dedup\<close>

fun dedup :: "('a \<Rightarrow> 'a \<Rightarrow> bool) \<Rightarrow> 'a list \<Rightarrow> 'a list" where
  "dedup eq (x # y # ys) = (if eq y x then dedup eq (x # ys) else x # dedup eq (y # ys))"
| "dedup eq xs = xs"

lemma set_dedup_subset: "set (dedup eq xs) \<subseteq> set xs"
  by (induction eq xs rule: dedup.induct) auto

lemma key_set_dedup:
  assumes "\<And>a b. a \<in> set xs \<Longrightarrow> b \<in> set xs \<Longrightarrow> eq a b \<longleftrightarrow> key a = (key b :: int)"
  shows "key ` set (dedup eq xs) = key ` set xs"
  using assms by (induction eq xs rule: dedup.induct) auto

lemma dedup_sorted:
  assumes "\<And>a b. a \<in> set xs \<Longrightarrow> b \<in> set xs \<Longrightarrow> eq a b \<longleftrightarrow> key a = (key b :: int)"
    and "sorted_wrt (\<lambda>a b. key a \<le> key b) xs"
  shows "sorted_wrt (\<lambda>a b. key a < key b) (dedup eq xs)"
  using assms
proof (induction eq xs rule: dedup.induct)
  case (1 eq x y ys)
  show ?case
  proof (cases "eq y x")
    case True
    have "sorted_wrt (\<lambda>a b. key a < key b) (dedup eq (x # ys))"
      using "1.prems" by (intro "1.IH"(1) [OF True]) auto
    with True show ?thesis by simp
  next
    case False
    then have "key x < key y" using "1.prems" by (force simp: less_le)
    moreover have "set (dedup eq (y # ys)) \<subseteq> set (y # ys)" by (rule set_dedup_subset)
    ultimately have "\<forall>z\<in>set (dedup eq (y # ys)). key x < key z"
      using "1.prems"(2) by fastforce
    with False 1 show ?thesis by simp
  qed
qed auto

section \<open>binary_search_by\<close>

text \<open>The branch-free loop; \<open>f i\<close> compares the element at \<open>i\<close> with the target.\<close>

function bs_loop :: "(nat \<Rightarrow> ordering) \<Rightarrow> nat \<Rightarrow> nat \<Rightarrow> nat" where
  "bs_loop f sz base =
     (if sz > 1 then
        let half = sz div 2; mid = base + half
        in bs_loop f (sz - half) (if f mid = Greater then base else mid)
      else base)"
  by pat_completeness auto
termination
  by (relation "measure (\<lambda>(f, sz, base). sz)") auto

declare bs_loop.simps [simp del]

text \<open>\<open>Inr i\<close> is \<open>Ok(i)\<close>, \<open>Inl i\<close> is \<open>Err(i)\<close>.\<close>

definition binary_search_by :: "('a \<Rightarrow> ordering) \<Rightarrow> 'a list \<Rightarrow> nat + nat" where
  "binary_search_by f xs =
     (if xs = [] then Inl 0
      else
        let base = bs_loop (\<lambda>i. f (xs ! i)) (length xs) 0
        in (case f (xs ! base) of
              Equal \<Rightarrow> Inr base
            | Less \<Rightarrow> Inl (base + 1)
            | Greater \<Rightarrow> Inl base))"

lemma bs_loop_spec:
  assumes "0 < sz"
    and "\<And>i j. i \<le> j \<Longrightarrow> j < n \<Longrightarrow> f i = Greater \<Longrightarrow> f j = Greater"
    and "base = 0 \<or> f base \<noteq> Greater"
    and "\<And>j. base + sz \<le> j \<Longrightarrow> j < n \<Longrightarrow> f j = Greater" and "base + sz \<le> n"
  shows "bs_loop f sz base < n \<and>
    (bs_loop f sz base = 0 \<or> f (bs_loop f sz base) \<noteq> Greater) \<and>
    (\<forall>j. bs_loop f sz base < j \<and> j < n \<longrightarrow> f j = Greater)"
  using assms
proof (induction f sz base rule: bs_loop.induct)
  case (1 f sz base)
  show ?case
  proof (cases "sz > 1")
    case False
    with "1.prems" show ?thesis by (auto simp: bs_loop.simps)
  next
    case True
    let ?half = "sz div 2"
    let ?mid = "base + ?half"
    let ?base = "if f ?mid = Greater then base else ?mid"
    have "bs_loop f (sz - ?half) ?base < n \<and>
      (bs_loop f (sz - ?half) ?base = 0 \<or> f (bs_loop f (sz - ?half) ?base) \<noteq> Greater) \<and>
      (\<forall>j. bs_loop f (sz - ?half) ?base < j \<and> j < n \<longrightarrow> f j = Greater)"
    proof (rule "1.IH" [OF True refl refl])
      show "0 < sz - ?half" using True by simp
      show "?base = 0 \<or> f ?base \<noteq> Greater" using "1.prems"(3) by auto
      show "?base + (sz - ?half) \<le> n" using "1.prems"(5) True by auto
      fix j assume "?base + (sz - ?half) \<le> j" and "j < n"
      then show "f j = Greater"
        using "1.prems"(2) [of ?mid j] "1.prems"(4) [of j] True by (auto split: if_splits)
    qed (use "1.prems"(2) in blast)
    moreover have step: "bs_loop f sz base = bs_loop f (sz - ?half) ?base"
      by (subst bs_loop.simps) (simp only: True Let_def if_True)
    ultimately show ?thesis unfolding step by blast
  qed
qed

text \<open>On a slice in strict key order the search finds the last key that is at most the target's,
  and says whether it is equal.\<close>

definition last_le :: "('a \<Rightarrow> int) \<Rightarrow> int \<Rightarrow> 'a list \<Rightarrow> nat" where
  "last_le key v xs = length (filter (\<lambda>x. key x \<le> v) xs)"

lemma last_le_eq:
  assumes "sorted_wrt (\<lambda>a b. key a < (key b :: int)) xs" and "m \<le> length xs"
    and "0 < m \<Longrightarrow> key (xs ! (m - 1)) \<le> v" and "m < length xs \<Longrightarrow> v < key (xs ! m)"
  shows "last_le key v xs = m"
proof -
  have lt: "key (xs ! i) < key (xs ! j)" if "i < j" "j < length xs" for i j
    using assms(1) that by (simp add: sorted_wrt_iff_nth_less)
  have "\<forall>x\<in>set (take m xs). key x \<le> v"
  proof
    fix x assume "x \<in> set (take m xs)"
    then obtain i where "i < m" "x = xs ! i" using assms(2) by (auto simp: in_set_conv_nth)
    moreover have "key (xs ! i) \<le> key (xs ! (m - 1))"
    proof (cases "i = m - 1")
      case False
      with \<open>i < m\<close> assms(2) have "i < m - 1" "m - 1 < length xs" by linarith+
      then show ?thesis using lt [of i "m - 1"] by simp
    qed simp
    ultimately show "key x \<le> v" using assms(3) by simp
  qed
  moreover have "\<forall>x\<in>set (drop m xs). \<not> key x \<le> v"
  proof
    fix x assume "x \<in> set (drop m xs)"
    then obtain i where "i < length xs - m" "x = xs ! (m + i)" by (auto simp: in_set_conv_nth)
    moreover from this have "m < length xs" "m + i < length xs" by linarith+
    ultimately show "\<not> key x \<le> v" using assms(4) lt [of m "m + i"] by (cases i) auto
  qed
  ultimately have "filter (\<lambda>x. key x \<le> v) (take m xs @ drop m xs) = take m xs"
    by (simp only: filter_append) simp
  with assms(2) show ?thesis by (simp add: last_le_def)
qed

lemma last_le_iff:
  assumes "sorted_wrt (\<lambda>a b. key a < (key b :: int)) xs" and "j < length xs"
  shows "key (xs ! j) \<le> v \<longleftrightarrow> j < last_le key v xs"
  using assms
proof (induction xs arbitrary: j)
  case (Cons x xs)
  show ?case
  proof (cases "key x \<le> v")
    case True
    with Cons show ?thesis by (cases j) (simp_all add: last_le_def)
  next
    case False
    with Cons.prems have "\<forall>y\<in>set (x # xs). \<not> key y \<le> v" by fastforce
    moreover from this have "last_le key v (x # xs) = 0" by (simp add: last_le_def filter_empty_conv)
    moreover have "(x # xs) ! j \<in> set (x # xs)" using Cons.prems(2) by (rule nth_mem)
    ultimately show ?thesis by (metis less_zeroE)
  qed
qed simp

lemma binary_search_by_spec:
  assumes "sorted_wrt (\<lambda>a b. key a < (key b :: int)) xs"
    and "\<And>x. x \<in> set xs \<Longrightarrow> f x = int_cmp (key x) v"
  shows "case binary_search_by f xs of
      Inr i \<Rightarrow> Suc i = last_le key v xs
    | Inl i \<Rightarrow> i = last_le key v xs"
proof (cases "xs = []")
  case True
  then show ?thesis by (simp add: binary_search_by_def last_le_def)
next
  case False
  let ?n = "length xs"
  define b where "b = bs_loop (\<lambda>i. f (xs ! i)) ?n 0"
  have cmp: "f (xs ! i) = int_cmp (key (xs ! i)) v" if "i < ?n" for i using assms(2) that by simp
  have mono: "key (xs ! i) \<le> key (xs ! j)" if "i \<le> j" "j < ?n" for i j
    using assms(1) that by (cases "i = j") (auto simp: sorted_wrt_iff_nth_less less_imp_le)
  have spec: "b < ?n \<and> (b = 0 \<or> f (xs ! b) \<noteq> Greater) \<and>
      (\<forall>j. b < j \<and> j < ?n \<longrightarrow> f (xs ! j) = Greater)"
    unfolding b_def
  proof (rule bs_loop_spec)
    fix i j assume "i \<le> j" and "j < ?n" and "f (xs ! i) = Greater"
    then show "f (xs ! j) = Greater"
      using mono [of i j] by (simp add: cmp)
  qed (use False in auto)
  then have b: "b < ?n" "b = 0 \<or> key (xs ! b) \<le> v" "\<And>j. b < j \<Longrightarrow> j < ?n \<Longrightarrow> v < key (xs ! j)"
    by (auto simp: cmp not_less)
  have r: "binary_search_by f xs = (case int_cmp (key (xs ! b)) v of
      Equal \<Rightarrow> Inr b | Less \<Rightarrow> Inl (b + 1) | Greater \<Rightarrow> Inl b)"
    using False b(1) by (simp add: binary_search_by_def b_def [symmetric] cmp)
  show ?thesis
  proof (cases "key (xs ! b) \<le> v")
    case True
    then have "last_le key v xs = Suc b" using b by (intro last_le_eq [OF assms(1)]) auto
    with True show ?thesis by (auto simp: r int_cmp_def)
  next
    case False
    then have "last_le key v xs = 0" using b by (intro last_le_eq [OF assms(1)]) auto
    with False b(2) show ?thesis by (auto simp: r int_cmp_def)
  qed
qed

end
