(* ===== verification/F64.thy ===== *)
theory F64
  imports Proto Rust_Slice
begin

text \<open>
  Rust's \<open>f64\<close> is IEEE 754 binary64.  A value is its 64 bits; comparison reads them as sign and
  magnitude, and addition is computed exactly, in multiples of \<open>2 ^ -1074\<close>, then rounded to nearest,
  ties to even.
\<close>

section \<open>Sign, magnitude, order\<close>

definition f64_neg_bit :: "f64 \<Rightarrow> bool" where
  "f64_neg_bit w \<longleftrightarrow> 2 ^ 63 \<le> uint w"

definition f64_mag :: "f64 \<Rightarrow> int" where
  "f64_mag w = uint w mod 2 ^ 63"

definition f64_of_mag :: "bool \<Rightarrow> int \<Rightarrow> f64" where
  "f64_of_mag neg m = word_of_int (if neg then 2 ^ 63 + m else m)"

definition inf_mag :: int where
  "inf_mag = 2047 * 2 ^ 52"

definition f64_is_nan :: "f64 \<Rightarrow> bool" where
  "f64_is_nan w \<longleftrightarrow> inf_mag < f64_mag w"

definition f64_is_inf :: "f64 \<Rightarrow> bool" where
  "f64_is_inf w \<longleftrightarrow> f64_mag w = inf_mag"

text \<open>The two zeros have the same key; otherwise the magnitudes are ordered like the values.\<close>

definition f64_key :: "f64 \<Rightarrow> int" where
  "f64_key w = (if f64_neg_bit w then - f64_mag w else f64_mag w)"

definition f64_partial_cmp :: "f64 \<Rightarrow> f64 \<Rightarrow> ordering option" where
  "f64_partial_cmp a b =
     (if f64_is_nan a \<or> f64_is_nan b then None else Some (int_cmp (f64_key a) (f64_key b)))"

definition f64_eq :: "f64 \<Rightarrow> f64 \<Rightarrow> bool" where
  "f64_eq a b \<longleftrightarrow> f64_partial_cmp a b = Some Equal"

section \<open>Addition and subtraction\<close>

definition scaled_mag :: "int \<Rightarrow> int" where
  "scaled_mag m =
     (let e = m div 2 ^ 52; f = m mod 2 ^ 52
      in if e = 0 then f else (2 ^ 52 + f) * 2 ^ nat (e - 1))"

definition f64_scaled :: "f64 \<Rightarrow> int" where
  "f64_scaled w = (if f64_neg_bit w then - scaled_mag (f64_mag w) else scaled_mag (f64_mag w))"

text \<open>How often a number must be halved to fit the 53 bits of the significand.\<close>

function halvings :: "int \<Rightarrow> nat" where
  "halvings n = (if n < 2 ^ 53 then 0 else Suc (halvings (n div 2)))"
  by pat_completeness auto
termination
  by (relation "measure nat") auto

declare halvings.simps [simp del]

definition round_mag :: "int \<Rightarrow> int" where
  "round_mag n =
     (let k = halvings n; p = 2 ^ k; q = n div p; r = n mod p;
          q' = (if p < 2 * r \<or> (2 * r = p \<and> odd q) then q + 1 else q)
      in min inf_mag (int k * 2 ^ 52 + q'))"

text \<open>The payload of a NaN result is not specified; this is the default one.\<close>

definition f64_nan :: f64 where
  "f64_nan = f64_of_mag False (inf_mag + 2 ^ 51)"

definition f64_add :: "f64 \<Rightarrow> f64 \<Rightarrow> f64" where
  "f64_add a b =
     (if f64_is_nan a \<or> f64_is_nan b then f64_nan
      else if f64_is_inf a \<and> f64_is_inf b then (if f64_neg_bit a = f64_neg_bit b then a else f64_nan)
      else if f64_is_inf a then a
      else if f64_is_inf b then b
      else
        let s = f64_scaled a + f64_scaled b
        in if s = 0 then f64_of_mag (f64_neg_bit a \<and> f64_neg_bit b) 0
           else f64_of_mag (s < 0) (round_mag \<bar>s\<bar>))"

definition f64_neg :: "f64 \<Rightarrow> f64" where
  "f64_neg w = f64_of_mag (\<not> f64_neg_bit w) (f64_mag w)"

definition f64_sub :: "f64 \<Rightarrow> f64 \<Rightarrow> f64" where
  "f64_sub a b = f64_add a (f64_neg b)"

text \<open>A whole number as a float, rounded if it must be.\<close>

definition f64_of_nat :: "nat \<Rightarrow> f64" where
  "f64_of_nat n = f64_of_mag False (round_mag (int n * 2 ^ 1074))"

section \<open>Whole numbers are exact\<close>

lemma f64_mag_nonneg [simp]: "0 \<le> f64_mag w"
  by (simp add: f64_mag_def)

lemma f64_of_mag_parts [simp]:
  assumes "0 \<le> m" and "m < 2 ^ 63"
  shows "f64_neg_bit (f64_of_mag neg m) = neg" and "f64_mag (f64_of_mag neg m) = m"
proof -
  have "uint (f64_of_mag neg m) = (if neg then 2 ^ 63 + m else m)"
    using assms by (simp add: f64_of_mag_def uint_word_of_int_eq take_bit_int_eq_self)
  with assms show "f64_neg_bit (f64_of_mag neg m) = neg" "f64_mag (f64_of_mag neg m) = m"
    by (simp_all add: f64_neg_bit_def f64_mag_def)
qed

lemma halvings_le: "n < 2 ^ 53 * 2 ^ k \<Longrightarrow> halvings n \<le> k"
proof (induction n arbitrary: k rule: halvings.induct)
  case (1 n)
  show ?case
  proof (cases "n < 2 ^ 53")
    case False
    with "1.prems" obtain j where k: "k = Suc j" by (cases k) auto
    with "1.prems" have "n div 2 < 2 ^ 53 * 2 ^ j" by simp
    with False "1.IH" [of j] k show ?thesis by (simp add: halvings.simps [of n])
  qed (simp add: halvings.simps)
qed

lemma halvings_Suc: "\<not> n < 2 ^ 53 \<Longrightarrow> n div 2 ^ halvings n = n div 2 div 2 ^ halvings (n div 2)"
  by (simp add: halvings.simps [of n] zdiv_zmult2_eq)

lemma halvings_fit: "n div 2 ^ halvings n < 2 ^ 53"
proof (induction n rule: halvings.induct)
  case (1 n)
  show ?case
  proof (cases "n < 2 ^ 53")
    case False
    with 1 show ?thesis unfolding halvings_Suc [OF False] by blast
  qed (simp add: halvings.simps)
qed

lemma halvings_full: "0 < halvings n \<Longrightarrow> 2 ^ 52 \<le> n div 2 ^ halvings n"
proof (induction n rule: halvings.induct)
  case (1 n)
  show ?case
  proof (cases "n < 2 ^ 53")
    case False
    then have "halvings (n div 2) = 0 \<Longrightarrow> 2 ^ 52 \<le> n div 2" by simp
    with 1 show ?thesis
      unfolding halvings_Suc [OF False] using False by (cases "halvings (n div 2) = 0") simp_all
  qed (use 1 in \<open>simp add: halvings.simps\<close>)
qed

text \<open>A number with at most 53 significant bits survives rounding.\<close>

lemma round_mag_exact:
  assumes "n = q * 2 ^ k" and "0 \<le> q" and "q < 2 ^ 53" and "k \<le> 2045"
  shows "scaled_mag (round_mag n) = n" and "0 \<le> round_mag n" and "round_mag n < inf_mag"
proof -
  let ?h = "halvings n"
  have h: "?h \<le> k" using assms by (intro halvings_le) simp
  then have "2 ^ ?h dvd n" using assms(1) by (simp add: le_imp_power_dvd)
  then have n: "n mod 2 ^ ?h = 0" "n div 2 ^ ?h * 2 ^ ?h = n" by simp_all
  let ?q = "n div 2 ^ ?h"
  have q: "?q < 2 ^ 53" "0 \<le> ?q"
    using halvings_fit assms(1,2) by (simp_all add: pos_imp_zdiv_nonneg_iff)
  have "int ?h * 2 ^ 52 \<le> 2045 * 2 ^ 52" using h assms(4) by (intro mult_right_mono) simp_all
  with q have small: "int ?h * 2 ^ 52 + ?q < inf_mag" by (simp add: inf_mag_def)
  have r: "round_mag n = int ?h * 2 ^ 52 + ?q"
    using small n(1) by (simp add: round_mag_def Let_def)
  with small q(2) show "round_mag n < inf_mag" "0 \<le> round_mag n" by simp_all
  show "scaled_mag (round_mag n) = n"
  proof (cases "?q < 2 ^ 52")
    case True
    then have "?h = 0" using halvings_full [of n] by (cases ?h) auto
    with True r q(2) show ?thesis by (simp add: scaled_mag_def)
  next
    case False
    define f where "f = ?q - 2 ^ 52"
    have f: "?q = 2 ^ 52 + f" "0 \<le> f" "f < 2 ^ 52" using False q by (simp_all add: f_def)
    have m: "round_mag n = (int ?h + 1) * 2 ^ 52 + f" unfolding r f(1) by simp
    have "round_mag n div 2 ^ 52 = int ?h + 1" "round_mag n mod 2 ^ 52 = f"
      unfolding m using f by (simp_all only: div_mult_self3 mod_mult_self3 div_pos_pos_trivial
          mod_pos_pos_trivial)
    then show ?thesis using n(2) f(1) by (simp add: scaled_mag_def)
  qed
qed

lemma f64_of_nat_exact:
  assumes "n < 2 ^ 53"
  shows "f64_scaled (f64_of_nat n) = int n * 2 ^ 1074"
    and "\<not> f64_neg_bit (f64_of_nat n)" and "f64_mag (f64_of_nat n) < inf_mag"
proof -
  have n: "int n < 2 ^ 53" using assms by simp
  have "0 \<le> round_mag (int n * 2 ^ 1074)" "round_mag (int n * 2 ^ 1074) < inf_mag"
    "scaled_mag (round_mag (int n * 2 ^ 1074)) = int n * 2 ^ 1074"
    using round_mag_exact [OF refl _ n, of 1074] by simp_all
  moreover have "inf_mag < 2 ^ 63" by (simp add: inf_mag_def)
  ultimately show "f64_scaled (f64_of_nat n) = int n * 2 ^ 1074"
    "\<not> f64_neg_bit (f64_of_nat n)" "f64_mag (f64_of_nat n) < inf_mag"
    by (simp_all add: f64_scaled_def f64_of_nat_def)
qed

lemma f64_of_nat_regular [simp]:
  assumes "n < 2 ^ 53"
  shows "\<not> f64_is_nan (f64_of_nat n)" and "\<not> f64_is_inf (f64_of_nat n)"
  using f64_of_nat_exact(3) [OF assms] by (simp_all add: f64_is_nan_def f64_is_inf_def)

lemma f64_of_nat_0: "f64_of_nat 0 = 0"
  by (simp add: f64_of_nat_def f64_of_mag_def round_mag_def halvings.simps inf_mag_def)

lemma scaled_pos:
  fixes j :: nat
  assumes "j \<noteq> 0"
  shows "int j * 2 ^ 1074 \<noteq> 0" and "\<not> int j * 2 ^ 1074 < 0"
    and "\<bar>int j * 2 ^ 1074\<bar> = int j * 2 ^ 1074"
  using assms by simp_all

lemma f64_add_of_nat:
  assumes "m + n < 2 ^ 53"
  shows "f64_add (f64_of_nat m) (f64_of_nat n) = f64_of_nat (m + n)"
proof -
  have lt: "m < 2 ^ 53" "n < 2 ^ 53" using assms by simp_all
  have s: "f64_scaled (f64_of_nat m) + f64_scaled (f64_of_nat n) = int (m + n) * 2 ^ 1074"
    using f64_of_nat_exact(1) [OF lt(1)] f64_of_nat_exact(1) [OF lt(2)] by (simp add: algebra_simps)
  show ?thesis
  proof (cases "m + n = 0")
    case True
    with s show ?thesis
      using f64_of_nat_exact(2) [OF lt(1)] f64_of_nat_regular [OF lt(1)]
      by (simp add: f64_add_def f64_of_nat_0 f64_of_mag_def)
  next
    case False
    from scaled_pos [OF this] show ?thesis
      unfolding f64_add_def s Let_def f64_of_nat_def [of "m + n"]
      using f64_of_nat_regular [OF lt(1)] f64_of_nat_regular [OF lt(2)]
      by (simp only: if_False simp_thms)
  qed
qed

lemma f64_sub_of_nat:
  assumes "n \<le> m" and "m < 2 ^ 53"
  shows "f64_sub (f64_of_nat m) (f64_of_nat n) = f64_of_nat (m - n)"
proof -
  have lt: "m < 2 ^ 53" "n < 2 ^ 53" using assms by simp_all
  have inf: "inf_mag < 2 ^ 63" by (simp add: inf_mag_def)
  have neg: "f64_neg_bit (f64_neg (f64_of_nat n))" "f64_mag (f64_neg (f64_of_nat n)) = f64_mag (f64_of_nat n)"
    using f64_of_nat_exact(2,3) [OF lt(2)] inf by (simp_all add: f64_neg_def)
  then have reg: "\<not> f64_is_nan (f64_neg (f64_of_nat n))" "\<not> f64_is_inf (f64_neg (f64_of_nat n))"
    using f64_of_nat_regular [OF lt(2)] by (simp_all add: f64_is_nan_def f64_is_inf_def)
  have "f64_scaled (f64_neg (f64_of_nat n)) = - f64_scaled (f64_of_nat n)"
    using neg f64_of_nat_exact(2) [OF lt(2)] by (simp add: f64_scaled_def)
  then have s: "f64_scaled (f64_of_nat m) + f64_scaled (f64_neg (f64_of_nat n)) = int (m - n) * 2 ^ 1074"
    using f64_of_nat_exact(1) [OF lt(1)] f64_of_nat_exact(1) [OF lt(2)] assms(1)
    by (simp add: of_nat_diff left_diff_distrib)
  show ?thesis
  proof (cases "m = n")
    case True
    with s reg show ?thesis
      using f64_of_nat_exact(2) [OF lt(1)] f64_of_nat_regular [OF lt(1)]
      by (simp add: f64_sub_def f64_add_def f64_of_nat_0 f64_of_mag_def)
  next
    case False
    with assms(1) have "m - n \<noteq> 0" by simp
    from scaled_pos [OF this] show ?thesis
      unfolding f64_sub_def f64_add_def s Let_def f64_of_nat_def [of "m - n"]
      using f64_of_nat_regular [OF lt(1)] reg
      by (simp only: if_False simp_thms)
  qed
qed

lemma f64_partial_cmp_key:
  "\<not> f64_is_nan a \<Longrightarrow> \<not> f64_is_nan b \<Longrightarrow> f64_partial_cmp a b = Some (int_cmp (f64_key a) (f64_key b))"
  by (simp add: f64_partial_cmp_def)

lemma f64_eq_key: "\<not> f64_is_nan a \<Longrightarrow> \<not> f64_is_nan b \<Longrightarrow> f64_eq a b \<longleftrightarrow> f64_key a = f64_key b"
  by (simp add: f64_eq_def f64_partial_cmp_key)

text \<open>The magnitudes are ordered like the values they stand for.\<close>

lemma scaled_mag_strict_mono:
  assumes "0 \<le> m" and "m < m'"
  shows "scaled_mag m < scaled_mag m'"
proof -
  let ?B = "2 ^ 52 :: int"
  define e f e' f' where "e = m div ?B" and "f = m mod ?B" and "e' = m' div ?B" and "f' = m' mod ?B"
  have m: "m = e * ?B + f" "m' = e' * ?B + f'"
    unfolding e_def f_def e'_def f'_def by (simp_all only: div_mult_mod_eq)
  have f: "0 \<le> f" "f < ?B" "0 \<le> f'" "f' < ?B" by (simp_all add: f_def f'_def)
  have e: "0 \<le> e" "e \<le> e'" using assms by (simp_all add: e_def e'_def zdiv_mono1 pos_imp_zdiv_nonneg_iff)
  have s: "scaled_mag m = (if e = 0 then f else (?B + f) * 2 ^ nat (e - 1))"
    "scaled_mag m' = (if e' = 0 then f' else (?B + f') * 2 ^ nat (e' - 1))"
    unfolding scaled_mag_def Let_def e_def f_def e'_def f'_def by (rule refl)+
  show ?thesis
  proof (cases "e = e'")
    case True
    then have "f < f'" using assms(2) m by simp
    with True s show ?thesis by simp
  next
    case False
    then have less: "e < e'" "0 < e'" using e by simp_all
    have "?B * 2 ^ nat (e' - 1) \<le> scaled_mag m'" using s(2) less f by (simp add: mult_right_mono)
    moreover have "scaled_mag m < ?B * 2 ^ nat (e' - 1)"
    proof (cases "e = 0")
      case True
      have "f < ?B * 1" using f(2) by simp
      also have "\<dots> \<le> ?B * 2 ^ nat (e' - 1)" by (intro mult_left_mono) simp_all
      finally show ?thesis using True s(1) by simp
    next
      case False
      then have "nat e = Suc (nat (e - 1))" using e by simp
      then have "(?B + f) * 2 ^ nat (e - 1) < ?B * 2 ^ nat e" using f by simp
      also have "\<dots> \<le> ?B * 2 ^ nat (e' - 1)" using less e by (intro mult_left_mono power_increasing) simp_all
      finally show ?thesis using False s(1) by simp
    qed
    ultimately show ?thesis by simp
  qed
qed

lemma f64_key_of_nat_less:
  assumes "m < n" and "n < 2 ^ 53"
  shows "f64_key (f64_of_nat m) < f64_key (f64_of_nat n)"
proof -
  have "\<not> f64_mag (f64_of_nat n) \<le> f64_mag (f64_of_nat m)"
  proof
    assume "f64_mag (f64_of_nat n) \<le> f64_mag (f64_of_nat m)"
    then have "f64_scaled (f64_of_nat n) \<le> f64_scaled (f64_of_nat m)"
      using scaled_mag_strict_mono [of "f64_mag (f64_of_nat n)" "f64_mag (f64_of_nat m)"] f64_of_nat_exact(2) [of m]
        f64_of_nat_exact(2) [of n] assms by (cases "f64_mag (f64_of_nat n) = f64_mag (f64_of_nat m)") (simp_all add: f64_scaled_def)
    with assms show False using f64_of_nat_exact(1) [of m] f64_of_nat_exact(1) [of n] by simp
  qed
  with assms show ?thesis using f64_of_nat_exact(2) [of m] f64_of_nat_exact(2) [of n] by (simp add: f64_key_def)
qed

text \<open>Whole numbers compare as floats as they do as integers.\<close>

lemma f64_partial_cmp_of_nat:
  assumes "m < 2 ^ 53" and "n < 2 ^ 53"
  shows "f64_partial_cmp (f64_of_nat m) (f64_of_nat n) = Some (int_cmp (int m) (int n))"
  using assms f64_key_of_nat_less [of m n] f64_key_of_nat_less [of n m]
  by (cases m n rule: linorder_cases) (simp_all add: f64_partial_cmp_key int_cmp_def)

end
