(* ===== verification/Meter.thy ===== *)
theory Meter
  imports F64 Common
begin

text \<open>
  \<^verbatim>\<open>src/src/metrics/meter.rs\<close>: counters, gauges and histograms.  The atomics are the fields of the
  records; an operation on a meter is one atomic step (\<open>transform\<close> of a rate counter is two, a load
  and a swap, with no other write to \<open>previous_count\<close> between them as only the metricer calls it).
  The metricer enters \<open>transform\<close> as its two names.
\<close>

section \<open>Data\<close>

datatype MeterType = CounterType | GaugeType | HistogramType

record MeterId =
  mid_name :: string
  mid_typ :: MeterType
  mid_labels :: "(string \<times> string) list"

datatype CounterMode = INCREMENT | RATE

record Counter =
  ctr_id :: MeterId
  ctr_mode :: CounterMode
  ctr_count :: f64
  ctr_previous_count :: f64

text \<open>The getter of a gauge reads the program around it, here the type \<open>'e\<close>.\<close>

record 'e Gauge =
  gg_id :: MeterId
  gg_getter :: "'e \<Rightarrow> f64"

record Bucket =
  bk_bucket :: f64
  bk_count :: i64

record Histogram =
  hg_id :: MeterId
  hg_buckets :: "Bucket list"

section \<open>MeterId\<close>

definition MeterId_add_label :: "string \<Rightarrow> string \<Rightarrow> MeterId \<Rightarrow> MeterId" where
  "MeterId_add_label key value i = i\<lparr>mid_labels := mid_labels i @ [(key, value)]\<rparr>"

definition MeterId_add_labels :: "(string \<times> string) list \<Rightarrow> MeterId \<Rightarrow> MeterId" where
  "MeterId_add_labels ls i = i\<lparr>mid_labels := mid_labels i @ ls\<rparr>"

definition meter_labels :: "MeterId \<Rightarrow> Label list" where
  "meter_labels i = map (\<lambda>(n, v). \<lparr>label_name = n, label_value = v\<rparr>) (mid_labels i)"

definition single_value :: "build \<Rightarrow> SystemTime \<Rightarrow> string \<Rightarrow> string \<Rightarrow> MeterId \<Rightarrow> f64 \<Rightarrow> MeterData" where
  "single_value cfg now srv inst i v =
     \<lparr>md_service = srv, md_service_instance = inst, md_timestamp = fetch_time cfg now PMetric,
      md_metric = Some (SingleValue (mid_name i) (meter_labels i) v)\<rparr>"

section \<open>Counter\<close>

definition Counter_new :: "string \<Rightarrow> Counter" where
  "Counter_new name =
     \<lparr>ctr_id = \<lparr>mid_name = name, mid_typ = CounterType, mid_labels = []\<rparr>,
      ctr_mode = INCREMENT, ctr_count = 0, ctr_previous_count = 0\<rparr>"

definition Counter_add_label :: "string \<Rightarrow> string \<Rightarrow> Counter \<Rightarrow> Counter" where
  "Counter_add_label key value c = c\<lparr>ctr_id := MeterId_add_label key value (ctr_id c)\<rparr>"

definition Counter_add_labels :: "(string \<times> string) list \<Rightarrow> Counter \<Rightarrow> Counter" where
  "Counter_add_labels ls c = c\<lparr>ctr_id := MeterId_add_labels ls (ctr_id c)\<rparr>"

definition Counter_set_mode :: "CounterMode \<Rightarrow> Counter \<Rightarrow> Counter" where
  "Counter_set_mode m c = c\<lparr>ctr_mode := m\<rparr>"

definition Counter_increment :: "f64 \<Rightarrow> Counter \<Rightarrow> Counter" where
  "Counter_increment v c = c\<lparr>ctr_count := f64_add (ctr_count c) v\<rparr>"

definition Counter_get :: "Counter \<Rightarrow> f64" where
  "Counter_get c = ctr_count c"

definition Counter_transform ::
  "build \<Rightarrow> SystemTime \<Rightarrow> string \<Rightarrow> string \<Rightarrow> Counter \<Rightarrow> Counter \<times> MeterData" where
  "Counter_transform cfg now srv inst c =
     (case ctr_mode c of
        INCREMENT \<Rightarrow> (c, single_value cfg now srv inst (ctr_id c) (Counter_get c))
      | RATE \<Rightarrow>
          (let current_count = Counter_get c;
               previous_count = ctr_previous_count c
           in (c\<lparr>ctr_previous_count := current_count\<rparr>,
               single_value cfg now srv inst (ctr_id c) (f64_sub current_count previous_count))))"

section \<open>Gauge\<close>

definition Gauge_new :: "string \<Rightarrow> ('e \<Rightarrow> f64) \<Rightarrow> 'e Gauge" where
  "Gauge_new name getter =
     \<lparr>gg_id = \<lparr>mid_name = name, mid_typ = GaugeType, mid_labels = []\<rparr>, gg_getter = getter\<rparr>"

definition Gauge_add_label :: "string \<Rightarrow> string \<Rightarrow> 'e Gauge \<Rightarrow> 'e Gauge" where
  "Gauge_add_label key value g = g\<lparr>gg_id := MeterId_add_label key value (gg_id g)\<rparr>"

definition Gauge_add_labels :: "(string \<times> string) list \<Rightarrow> 'e Gauge \<Rightarrow> 'e Gauge" where
  "Gauge_add_labels ls g = g\<lparr>gg_id := MeterId_add_labels ls (gg_id g)\<rparr>"

definition Gauge_get :: "'e \<Rightarrow> 'e Gauge \<Rightarrow> f64" where
  "Gauge_get env g = gg_getter g env"

definition Gauge_transform ::
  "build \<Rightarrow> SystemTime \<Rightarrow> 'e \<Rightarrow> string \<Rightarrow> string \<Rightarrow> 'e Gauge \<Rightarrow> MeterData" where
  "Gauge_transform cfg now env srv inst g = single_value cfg now srv inst (gg_id g) (Gauge_get env g)"

section \<open>Histogram\<close>

definition Bucket_new :: "f64 \<Rightarrow> Bucket" where
  "Bucket_new b = \<lparr>bk_bucket = b, bk_count = 0\<rparr>"

text \<open>\<open>a.partial_cmp(b).unwrap_or(Equal)\<close>.\<close>

definition cmp_or_equal :: "f64 \<Rightarrow> f64 \<Rightarrow> ordering" where
  "cmp_or_equal a b = (case f64_partial_cmp a b of Some c \<Rightarrow> c | None \<Rightarrow> Equal)"

definition Histogram_new :: "string \<Rightarrow> f64 list \<Rightarrow> Histogram" where
  "Histogram_new name steps =
     \<lparr>hg_id = \<lparr>mid_name = name, mid_typ = HistogramType, mid_labels = []\<rparr>,
      hg_buckets = map Bucket_new (dedup f64_eq (sort_by cmp_or_equal steps))\<rparr>"

definition Histogram_add_label :: "string \<Rightarrow> string \<Rightarrow> Histogram \<Rightarrow> Histogram" where
  "Histogram_add_label key value h = h\<lparr>hg_id := MeterId_add_label key value (hg_id h)\<rparr>"

definition Histogram_add_labels :: "(string \<times> string) list \<Rightarrow> Histogram \<Rightarrow> Histogram" where
  "Histogram_add_labels ls h = h\<lparr>hg_id := MeterId_add_labels ls (hg_id h)\<rparr>"

definition find_bucket :: "f64 \<Rightarrow> Histogram \<Rightarrow> nat option" where
  "find_bucket value h =
     (case binary_search_by (\<lambda>b. cmp_or_equal (bk_bucket b) value) (hg_buckets h) of
        Inr i \<Rightarrow> Some i
      | Inl i \<Rightarrow> if 1 \<le> i then Some (i - 1) else None)"

text \<open>\<open>fetch_add\<close> on an \<open>AtomicI64\<close> wraps around; indexing out of range would panic.\<close>

definition Histogram_add_value :: "f64 \<Rightarrow> Histogram \<Rightarrow> (Histogram, unit) outcome" where
  "Histogram_add_value value h =
     (case find_bucket value h of
        None \<Rightarrow> (h, Inr ())
      | Some i \<Rightarrow>
          if i < length (hg_buckets h) then
            (h\<lparr>hg_buckets := (hg_buckets h)[i := (hg_buckets h ! i)\<lparr>bk_count := bk_count (hg_buckets h ! i) + 1\<rparr>]\<rparr>,
             Inr ())
          else (h, Inl (Panic ''index out of bounds'')))"

definition bucket_value :: "Bucket \<Rightarrow> MeterBucketValue" where
  "bucket_value b = \<lparr>mbv_bucket = bk_bucket b, mbv_count = bk_count b, is_negative_infinity = False\<rparr>"

definition Histogram_transform ::
  "build \<Rightarrow> SystemTime \<Rightarrow> string \<Rightarrow> string \<Rightarrow> Histogram \<Rightarrow> MeterData" where
  "Histogram_transform cfg now srv inst h =
     \<lparr>md_service = srv, md_service_instance = inst, md_timestamp = fetch_time cfg now PMetric,
      md_metric = Some (HistogramValues (mid_name (hg_id h)) (meter_labels (hg_id h))
        (map bucket_value (hg_buckets h)))\<rparr>"

section \<open>Histograms count correctly\<close>

text \<open>Bucket \<open>i\<close> owns the values from its own bound up to, and without, the next one.\<close>

definition in_bucket :: "f64 list \<Rightarrow> nat \<Rightarrow> f64 \<Rightarrow> bool" where
  "in_bucket bs i v \<longleftrightarrow> f64_key (bs ! i) \<le> f64_key v \<and>
     (Suc i < length bs \<longrightarrow> f64_key v < f64_key (bs ! Suc i))"

abbreviation strictly_ascending :: "f64 list \<Rightarrow> bool" where
  "strictly_ascending \<equiv> sorted_wrt (\<lambda>a b. f64_key a < f64_key b)"

abbreviation no_nan :: "f64 list \<Rightarrow> bool" where
  "no_nan \<equiv> list_all (\<lambda>v. \<not> f64_is_nan v)"

definition bounds :: "Histogram \<Rightarrow> f64 list" where
  "bounds h = map bk_bucket (hg_buckets h)"

lemma cmp_or_equal_key:
  "\<not> f64_is_nan a \<Longrightarrow> \<not> f64_is_nan b \<Longrightarrow> cmp_or_equal a b = int_cmp (f64_key a) (f64_key b)"
  by (simp add: cmp_or_equal_def f64_partial_cmp_key)

lemma bounds_new: "bounds (Histogram_new name steps) = dedup f64_eq (sort_by cmp_or_equal steps)"
  by (simp add: bounds_def Histogram_new_def Bucket_new_def comp_def)

lemma bounds_new_sorted:
  assumes "no_nan steps"
  shows "strictly_ascending (bounds (Histogram_new name steps))"
    and "f64_key ` set (bounds (Histogram_new name steps)) = f64_key ` set steps"
    and "no_nan (bounds (Histogram_new name steps))"
proof -
  let ?s = "sort_by cmp_or_equal steps"
  have nn: "\<not> f64_is_nan a" if "a \<in> set ?s" for a using assms that by (simp add: list_all_iff)
  then have eq: "f64_eq a b \<longleftrightarrow> f64_key a = f64_key b" if "a \<in> set ?s" "b \<in> set ?s" for a b
    using that by (simp add: f64_eq_key)
  have "sorted_wrt (\<lambda>a b. f64_key a \<le> f64_key b) ?s"
    using nn by (intro sorted_sort_by) (simp add: cmp_or_equal_key)
  with eq show "strictly_ascending (bounds (Histogram_new name steps))"
    unfolding bounds_new by (intro dedup_sorted) auto
  show "f64_key ` set (bounds (Histogram_new name steps)) = f64_key ` set steps"
    unfolding bounds_new using key_set_dedup [of ?s f64_eq f64_key] eq by simp
  show "no_nan (bounds (Histogram_new name steps))"
    unfolding bounds_new list_all_iff using set_dedup_subset [of f64_eq ?s] nn by blast
qed

text \<open>The search against its specification: the last bucket whose bound is not above the value.\<close>

lemma find_bucket_last_le:
  assumes "strictly_ascending (bounds h)" and "no_nan (bounds h)" and "\<not> f64_is_nan v"
  shows "find_bucket v h =
    (let m = last_le f64_key (f64_key v) (bounds h) in if m = 0 then None else Some (m - 1))"
proof -
  let ?bs = "hg_buckets h"
  have m: "last_le (\<lambda>b. f64_key (bk_bucket b)) (f64_key v) ?bs = last_le f64_key (f64_key v) (bounds h)"
    by (simp add: last_le_def bounds_def filter_map comp_def)
  have "case binary_search_by (\<lambda>b. cmp_or_equal (bk_bucket b) v) ?bs of
      Inr i \<Rightarrow> Suc i = last_le (\<lambda>b. f64_key (bk_bucket b)) (f64_key v) ?bs
    | Inl i \<Rightarrow> i = last_le (\<lambda>b. f64_key (bk_bucket b)) (f64_key v) ?bs"
    using assms
    by (intro binary_search_by_spec) (auto simp: bounds_def sorted_wrt_map list_all_iff cmp_or_equal_key)
  then show ?thesis
    unfolding m by (auto simp: find_bucket_def Let_def split: sum.splits)
qed

lemma find_bucket_Some:
  assumes "strictly_ascending (bounds h)" and "no_nan (bounds h)" and "\<not> f64_is_nan v"
  shows "find_bucket v h = Some i \<longleftrightarrow> i < length (bounds h) \<and> in_bucket (bounds h) i v"
proof -
  let ?m = "last_le f64_key (f64_key v) (bounds h)"
  have le: "?m \<le> length (bounds h)" by (simp add: last_le_def)
  note iff = last_le_iff [OF assms(1), of _ "f64_key v"]
  have "in_bucket (bounds h) i v \<longleftrightarrow> ?m = Suc i" if "i < length (bounds h)"
  proof (cases "Suc i < length (bounds h)")
    case True
    with that iff [of i] iff [of "Suc i"] show ?thesis by (auto simp: in_bucket_def not_le [symmetric])
  next
    case False
    with that le iff [of i] show ?thesis by (auto simp: in_bucket_def)
  qed
  with le show ?thesis
    by (auto simp: find_bucket_last_le [OF assms] Let_def)
qed

lemma find_bucket_None:
  assumes "strictly_ascending (bounds h)" and "no_nan (bounds h)" and "\<not> f64_is_nan v"
  shows "find_bucket v h = None \<longleftrightarrow> (\<forall>b\<in>set (bounds h). f64_key v < f64_key b)"
  by (auto simp: find_bucket_last_le [OF assms] Let_def last_le_def filter_empty_conv not_le)

fun Histogram_add_values :: "f64 list \<Rightarrow> Histogram \<Rightarrow> (Histogram, unit) outcome" where
  "Histogram_add_values [] h = (h, Inr ())"
| "Histogram_add_values (v # vs) h =
     (case Histogram_add_value v h of
        (h', Inl p) \<Rightarrow> (h', Inl p)
      | (h', Inr _) \<Rightarrow> Histogram_add_values vs h')"

text \<open>One value: the counter of the bucket that owns it, and no other, goes up.\<close>

lemma add_value_step:
  assumes "strictly_ascending (bounds h)" and "no_nan (bounds h)" and "\<not> f64_is_nan v"
  shows "\<exists>h'. Histogram_add_value v h = (h', Inr ()) \<and> bounds h' = bounds h \<and>
    (\<forall>i < length (bounds h). bk_count (hg_buckets h' ! i) =
       bk_count (hg_buckets h ! i) + (if in_bucket (bounds h) i v then 1 else 0))"
proof (cases "find_bucket v h")
  case None
  then have "\<not> in_bucket (bounds h) i v" if "i < length (bounds h)" for i
    using find_bucket_Some [OF assms, of i] that by auto
  with None show ?thesis by (simp add: Histogram_add_value_def)
next
  case (Some k)
  then have k: "k < length (hg_buckets h)" using find_bucket_Some [OF assms, of k] by (simp add: bounds_def)
  let ?b = "(hg_buckets h ! k)\<lparr>bk_count := bk_count (hg_buckets h ! k) + 1\<rparr>"
  let ?h = "h\<lparr>hg_buckets := (hg_buckets h)[k := ?b]\<rparr>"
  have "bounds ?h = bounds h"
    using k by (intro nth_equalityI) (auto simp: bounds_def nth_list_update)
  moreover have "in_bucket (bounds h) i v \<longleftrightarrow> i = k" if "i < length (bounds h)" for i
    using Some find_bucket_Some [OF assms, of i] that by auto
  ultimately show ?thesis
    using Some k by (auto simp: Histogram_add_value_def bounds_def nth_list_update)
qed

lemma add_values_counts:
  assumes "strictly_ascending (bounds h)" and "no_nan (bounds h)" and "no_nan vs"
  shows "\<exists>h'. Histogram_add_values vs h = (h', Inr ()) \<and> bounds h' = bounds h \<and>
    (\<forall>i < length (bounds h). bk_count (hg_buckets h' ! i) =
       bk_count (hg_buckets h ! i) + of_nat (length (filter (in_bucket (bounds h) i) vs)))"
  using assms
proof (induction vs arbitrary: h)
  case (Cons v vs)
  from Cons.prems have nan: "\<not> f64_is_nan v" "no_nan vs" by simp_all
  obtain h1 where h1: "Histogram_add_value v h = (h1, Inr ())" "bounds h1 = bounds h"
    "\<forall>i < length (bounds h). bk_count (hg_buckets h1 ! i) =
       bk_count (hg_buckets h ! i) + (if in_bucket (bounds h) i v then 1 else 0)"
    using add_value_step [OF Cons.prems(1,2) nan(1)] by auto
  obtain h2 where "Histogram_add_values vs h1 = (h2, Inr ())" "bounds h2 = bounds h1"
    "\<forall>i < length (bounds h1). bk_count (hg_buckets h2 ! i) =
       bk_count (hg_buckets h1 ! i) + of_nat (length (filter (in_bucket (bounds h1) i) vs))"
    using Cons.IH [of h1] Cons.prems nan(2) h1(2) by auto
  with h1 show ?case by (simp add: algebra_simps)
qed simp

text \<open>C24. A histogram counts what it should: for steps and values without NaN, in any order and with
  any repetitions, the bucket bounds are the distinct steps in ascending order, no call panics, and
  the count of each bucket is the number of the values from its bound up to, and without, the next
  bound (modulo \<open>2 ^ 64\<close>, the wrap-around of the atomic).\<close>

theorem histogram_counts_each_value_in_its_bucket:
  assumes "no_nan steps" and "no_nan vs"
  shows "\<exists>h. Histogram_add_values vs (Histogram_new name steps) = (h, Inr ()) \<and>
    strictly_ascending (bounds h) \<and> f64_key ` set (bounds h) = f64_key ` set steps \<and>
    (\<forall>i < length (bounds h).
       bk_count (hg_buckets h ! i) = of_nat (length (filter (in_bucket (bounds h) i) vs)))"
proof -
  let ?h = "Histogram_new name steps"
  have "bk_count (hg_buckets ?h ! i) = 0" if "i < length (bounds ?h)" for i
    using that by (simp add: Histogram_new_def Bucket_new_def bounds_def)
  with add_values_counts [OF bounds_new_sorted(1) [OF assms(1), of name]
      bounds_new_sorted(3) [OF assms(1), of name] assms(2)]
    bounds_new_sorted(1,2) [OF assms(1), of name]
  show ?thesis by auto
qed

theorem histogram_counts_each_value_in_its_bucket_witness:
  "\<exists>h. Histogram_add_values [f64_of_nat 1, f64_of_nat 5, f64_of_nat 2, f64_of_nat 0]
      (Histogram_new ''latency'' [f64_of_nat 2, f64_of_nat 1, f64_of_nat 2]) = (h, Inr ()) \<and>
    strictly_ascending (bounds h) \<and>
    f64_key ` set (bounds h) = f64_key ` set [f64_of_nat 2, f64_of_nat 1, f64_of_nat 2] \<and>
    (\<forall>i < length (bounds h). bk_count (hg_buckets h ! i) =
       of_nat (length (filter (in_bucket (bounds h) i)
         [f64_of_nat 1, f64_of_nat 5, f64_of_nat 2, f64_of_nat 0])))"
  by (rule histogram_counts_each_value_in_its_bucket) (simp_all add: f64_of_nat_regular)

lemma bs_loop_all_equal:
  "0 < sz \<Longrightarrow> bs_loop (\<lambda>_. Equal) sz base = base + sz - 1"
proof (induction sz arbitrary: base rule: less_induct)
  case (less sz)
  show ?case
  proof (cases "sz > 1")
    case True
    then have "bs_loop (\<lambda>_. Equal) (sz - sz div 2) (base + sz div 2) =
        base + sz div 2 + (sz - sz div 2) - 1"
      by (intro less.IH) simp_all
    with True show ?thesis by (subst bs_loop.simps) (simp add: Let_def)
  next
    case False
    with less.prems show ?thesis by (simp add: bs_loop.simps)
  qed
qed

text \<open>C31. The binary search refines its specification: on the buckets of any histogram, \<open>find_bucket\<close>
  returns the number of bounds that are at most the value, less one, and nothing if there are none;
  a NaN, which no bucket owns, is nevertheless given to the last bucket.\<close>

theorem find_bucket_refines_counting:
  assumes "no_nan steps" and "steps \<noteq> []" and "no_nan vs"
    and "Histogram_add_values vs (Histogram_new name steps) = (h, r)"
  shows "find_bucket v h =
    (if f64_is_nan v then Some (length (bounds h) - 1)
     else let m = length (filter (\<lambda>b. f64_key b \<le> f64_key v) (bounds h))
          in if m = 0 then None else Some (m - 1))"
proof -
  let ?h0 = "Histogram_new name steps"
  note sorted = bounds_new_sorted(1) [OF assms(1), of name] bounds_new_sorted(3) [OF assms(1), of name]
  have b: "bounds h = bounds ?h0"
    using add_values_counts [OF sorted assms(3)] assms(4) by auto
  then have "hg_buckets h \<noteq> []"
    using bounds_new_sorted(2) [OF assms(1), of name] assms(2) by (auto simp: bounds_def)
  then have nan: "find_bucket v h = Some (length (bounds h) - 1)" if "f64_is_nan v"
    using that by (simp add: find_bucket_def binary_search_by_def cmp_or_equal_def
        f64_partial_cmp_def bs_loop_all_equal bounds_def Let_def)
  show ?thesis
    using nan find_bucket_last_le [of h v] sorted b by (auto simp: last_le_def)
qed

text \<open>1.0, 2.0 and 5.0 as bits, and a NaN.\<close>

definition latency_histogram :: Histogram where
  "latency_histogram = fst (Histogram_add_values [0x4014000000000000]
     (Histogram_new ''latency'' [0x4000000000000000, 0x3FF0000000000000]))"

theorem find_bucket_refines_counting_witness:
  "find_bucket 0x3FF0000000000000 latency_histogram = Some 0 \<and>
   find_bucket 0x7FF8000000000000 latency_histogram = Some 1 \<and>
   find_bucket 0x3FF0000000000000 latency_histogram =
    (if f64_is_nan 0x3FF0000000000000 then Some (length (bounds latency_histogram) - 1)
     else let m = length (filter (\<lambda>b. f64_key b \<le> f64_key 0x3FF0000000000000) (bounds latency_histogram))
          in if m = 0 then None else Some (m - 1))"
proof (intro conjI)
  show "find_bucket 0x3FF0000000000000 latency_histogram = Some 0" by code_simp
  show "find_bucket 0x7FF8000000000000 latency_histogram = Some 1" by code_simp
  show "find_bucket 0x3FF0000000000000 latency_histogram =
    (if f64_is_nan 0x3FF0000000000000 then Some (length (bounds latency_histogram) - 1)
     else let m = length (filter (\<lambda>b. f64_key b \<le> f64_key 0x3FF0000000000000) (bounds latency_histogram))
          in if m = 0 then None else Some (m - 1))"
    by (rule find_bucket_refines_counting [of "[0x4000000000000000, 0x3FF0000000000000]" "[0x4014000000000000]" "''latency''"
          _ "snd (Histogram_add_values [0x4014000000000000]
              (Histogram_new ''latency'' [0x4000000000000000, 0x3FF0000000000000]))"])
      (code_simp, simp, code_simp, simp add: latency_histogram_def)
qed

section \<open>Counters report exact totals and rates\<close>

text \<open>What happens to a counter: the program adds, the metricer collects.\<close>

datatype counter_op = CtrIncrement f64 | CtrCollect SystemTime

fun counter_run ::
  "build \<Rightarrow> string \<Rightarrow> string \<Rightarrow> counter_op list \<Rightarrow> Counter \<Rightarrow> Counter \<times> MeterData list" where
  "counter_run cfg srv inst [] c = (c, [])"
| "counter_run cfg srv inst (CtrIncrement v # ops) c = counter_run cfg srv inst ops (Counter_increment v c)"
| "counter_run cfg srv inst (CtrCollect now # ops) c =
     (case Counter_transform cfg now srv inst c of
        (c', md) \<Rightarrow> (case counter_run cfg srv inst ops c' of (c'', mds) \<Rightarrow> (c'', md # mds)))"

text \<open>The same history in whole numbers, and what it should report: in rate mode what was added
  since the previous collection, otherwise all that was added.\<close>

datatype count_op = Added nat | Collected SystemTime

fun as_counter_op :: "count_op \<Rightarrow> counter_op" where
  "as_counter_op (Added n) = CtrIncrement (f64_of_nat n)"
| "as_counter_op (Collected t) = CtrCollect t"

fun expected_counts :: "CounterMode \<Rightarrow> nat \<Rightarrow> count_op list \<Rightarrow> (SystemTime \<times> nat) list" where
  "expected_counts m acc [] = []"
| "expected_counts m acc (Added n # ops) = expected_counts m (acc + n) ops"
| "expected_counts m acc (Collected t # ops) =
     (t, acc) # expected_counts m (case m of INCREMENT \<Rightarrow> acc | RATE \<Rightarrow> 0) ops"

fun added :: "count_op \<Rightarrow> nat" where
  "added (Added n) = n"
| "added (Collected t) = 0"

lemma counter_run_expected:
  assumes "ctr_count c = f64_of_nat tot" and "ctr_previous_count c = f64_of_nat prev" and "prev \<le> tot"
    and "tot + sum_list (map added ops) < 2 ^ 53" and "ctr_mode c = INCREMENT \<Longrightarrow> prev = 0"
  shows "snd (counter_run cfg srv inst (map as_counter_op ops) c) =
    map (\<lambda>(t, n). single_value cfg t srv inst (ctr_id c) (f64_of_nat n))
      (expected_counts (ctr_mode c) (tot - prev) ops)"
  using assms
proof (induction ops arbitrary: c tot prev)
  case (Cons op ops)
  show ?case
  proof (cases op)
    case (Added n)
    let ?c = "Counter_increment (f64_of_nat n) c"
    have "ctr_count ?c = f64_of_nat (tot + n)"
      using Cons.prems Added f64_add_of_nat [of tot n] by (simp add: Counter_increment_def)
    with Cons.IH [of ?c "tot + n" prev] Cons.prems Added show ?thesis
      by (simp add: Counter_increment_def)
  next
    case (Collected t)
    have sub: "f64_sub (f64_of_nat tot) (f64_of_nat prev) = f64_of_nat (tot - prev)"
      using Cons.prems by (intro f64_sub_of_nat) simp_all
    show ?thesis
    proof (cases "ctr_mode c")
      case INCREMENT
      with Cons.IH [of c tot prev] Cons.prems Collected show ?thesis
        by (simp add: Counter_transform_def Counter_get_def case_prod_beta)
    next
      case RATE
      let ?c = "c\<lparr>ctr_previous_count := f64_of_nat tot\<rparr>"
      have "snd (counter_run cfg srv inst (map as_counter_op ops) ?c) =
          map (\<lambda>(t, n). single_value cfg t srv inst (ctr_id ?c) (f64_of_nat n))
            (expected_counts (ctr_mode ?c) (tot - tot) ops)"
        using Cons.prems Collected RATE by (intro Cons.IH) simp_all
      with RATE Cons.prems Collected sub show ?thesis
        by (simp add: Counter_transform_def Counter_get_def Let_def case_prod_beta)
    qed
  qed
qed simp

lemma expected_rates_sum:
  "sum_list (map snd (expected_counts RATE acc (ops @ [Collected t]))) = acc + sum_list (map added ops)"
proof (induction ops arbitrary: acc)
  case (Cons op ops)
  then show ?case by (cases op) simp_all
qed simp

text \<open>C30. A counter that is given whole numbers (fewer than \<open>2 ^ 53\<close> in all, where floating point is
  exact) reports exactly: in mode INCREMENT each collection reports the total so far, in mode RATE
  what was added since the previous collection; and the rates reported up to a final collection add
  up to the total, so that nothing is lost or reported twice.\<close>

theorem counter_reports_exact_totals_and_rates:
  assumes "sum_list (map added ops) < 2 ^ 53"
  shows "snd (counter_run cfg srv inst (map as_counter_op ops) (Counter_set_mode m (Counter_new name))) =
      map (\<lambda>(t, n). single_value cfg t srv inst (ctr_id (Counter_new name)) (f64_of_nat n))
        (expected_counts m 0 ops) \<and>
    sum_list (map snd (expected_counts RATE 0 (ops @ [Collected t]))) = sum_list (map added ops)"
  using counter_run_expected [of "Counter_set_mode m (Counter_new name)" 0 0 ops cfg srv inst] assms
    expected_rates_sum [of 0 ops t]
  by (simp add: Counter_set_mode_def Counter_new_def f64_of_nat_0)

theorem counter_reports_exact_totals_and_rates_witness:
  "expected_counts RATE 0 [Added 2, Collected 7, Added 3, Added 4, Collected 9] = [(7, 2), (9, 7)] \<and>
   snd (counter_run \<lparr>overflow_checks = True, mock = False\<rparr> ''s'' ''i''
       (map as_counter_op [Added 2, Collected 7, Added 3, Added 4, Collected 9])
       (Counter_set_mode RATE (Counter_new ''n''))) =
     map (\<lambda>(t, n). single_value \<lparr>overflow_checks = True, mock = False\<rparr> t ''s'' ''i''
         (ctr_id (Counter_new ''n'')) (f64_of_nat n))
       (expected_counts RATE 0 [Added 2, Collected 7, Added 3, Added 4, Collected 9])"
  using counter_reports_exact_totals_and_rates
    [of "[Added 2, Collected 7, Added 3, Added 4, Collected 9]"]
  by simp

end
