(* ===== verification/Metricer.thy ===== *)
theory Metricer
  imports Meter Print_Reporter Errors
begin

text \<open>
  \<^verbatim>\<open>src/src/metrics/metricer.rs\<close>: the registry of meters and the background task that collects
  them.  The \<open>Arc\<close>s the program keeps of its meters are addresses into a list of meters; the task
  is a machine whose steps interleave with the program's own updates of the meters.
\<close>

section \<open>The registry\<close>

text \<open>The implementations of \<open>Transform\<close> the crate has.\<close>

datatype 'e meter = MCounter Counter | MGauge "'e Gauge" | MHistogram Histogram

fun meter_id :: "'e meter \<Rightarrow> MeterId" where
  "meter_id (MCounter c) = ctr_id c"
| "meter_id (MGauge g) = gg_id g"
| "meter_id (MHistogram h) = hg_id h"

fun meter_transform ::
  "build \<Rightarrow> SystemTime \<Rightarrow> 'e \<Rightarrow> string \<Rightarrow> string \<Rightarrow> 'e meter \<Rightarrow> 'e meter \<times> MeterData" where
  "meter_transform cfg now env srv inst (MCounter c) =
     (case Counter_transform cfg now srv inst c of (c', md) \<Rightarrow> (MCounter c', md))"
| "meter_transform cfg now env srv inst (MGauge g) = (MGauge g, Gauge_transform cfg now env srv inst g)"
| "meter_transform cfg now env srv inst (MHistogram h) =
     (MHistogram h, Histogram_transform cfg now srv inst h)"

text \<open>\<open>report_interval\<close> in nanoseconds.\<close>

record Metricer =
  mt_service_name :: string
  mt_instance_name :: string
  meter_map :: "MeterId \<rightharpoonup> nat"
  report_interval :: nat

definition Metricer_new :: "string \<Rightarrow> string \<Rightarrow> Metricer" where
  "Metricer_new srv inst =
     \<lparr>mt_service_name = srv, mt_instance_name = inst, meter_map = Map.empty, report_interval = 20000000000\<rparr>"

definition set_report_interval :: "nat \<Rightarrow> Metricer \<Rightarrow> Metricer" where
  "set_report_interval d mt = mt\<lparr>report_interval := d\<rparr>"

text \<open>\<open>insert\<close> replaces the meter registered under an equal id.\<close>

definition register :: "'e meter \<Rightarrow> Metricer \<times> 'e meter list \<Rightarrow> (Metricer \<times> 'e meter list) \<times> nat" where
  "register m s =
     (case s of (mt, heap) \<Rightarrow>
        ((mt\<lparr>meter_map := (meter_map mt)(meter_id m \<mapsto> length heap)\<rparr>, heap @ [m]), length heap))"

section \<open>The background task\<close>

text \<open>
  One turn of the loop of \<open>boot\<close>: the meters are collected in the order \<open>values()\<close> enumerates the
  map, on a blocking thread whose panic is ignored; then the task waits for the ticker or the
  shutdown message.  \<open>ShutdownRecv\<close> also stands for the closed channel: \<open>recv\<close> returns at once when the
  handle that \<open>boot\<close> returned has been dropped.  \<open>BeginPass\<close> fixes the enumeration of one pass.
  \<open>Crashed\<close>: the task has panicked, which \<open>interval\<close> does when the period is zero.
\<close>

datatype boot_phase = Starting | Collecting "MeterId list" | Selecting | Stopped | Crashed

record ('e, 'r) Boot =
  bt_metricer :: Metricer
  bt_heap :: "'e meter list"
  bt_reporter :: 'r
  bt_phase :: boot_phase

definition Metricer_boot :: "Metricer \<Rightarrow> 'e meter list \<Rightarrow> 'r \<Rightarrow> ('e, 'r) Boot" where
  "Metricer_boot mt heap r =
     \<lparr>bt_metricer = mt, bt_heap = heap, bt_reporter = r,
      bt_phase = (if report_interval mt = 0 then Crashed else Starting)\<rparr>"

datatype meter_op = AddCount f64 | AddValue f64

fun meter_update :: "meter_op \<Rightarrow> 'e meter \<Rightarrow> 'e meter" where
  "meter_update (AddCount v) (MCounter c) = MCounter (Counter_increment v c)"
| "meter_update (AddValue v) (MHistogram h) = MHistogram (fst (Histogram_add_value v h))"
| "meter_update _ m = m"

datatype 'e boot_event =
    BeginPass "MeterId list"
  | CollectOne SystemTime 'e
  | EndPass
  | Tick
  | ShutdownRecv
  | AppUpdate nat meter_op

definition enumerates :: "MeterId list \<Rightarrow> (MeterId \<rightharpoonup> nat) \<Rightarrow> bool" where
  "enumerates order mm \<longleftrightarrow> distinct order \<and> set order = dom mm"

fun boot_step ::
  "'r report_fn \<Rightarrow> build \<Rightarrow> 'e boot_event \<Rightarrow> ('e, 'r) Boot \<Rightarrow> ('e, 'r) Boot option" where
  "boot_step report cfg (BeginPass order) b =
     (if bt_phase b = Starting \<and> enumerates order (meter_map (bt_metricer b))
      then Some (b\<lparr>bt_phase := Collecting order\<rparr>) else None)"
| "boot_step report cfg (CollectOne now env) b =
     (case bt_phase b of
        Collecting (i # ids) \<Rightarrow>
          (case meter_map (bt_metricer b) i of
             None \<Rightarrow> None
           | Some a \<Rightarrow>
               (case meter_transform cfg now env (mt_service_name (bt_metricer b))
                       (mt_instance_name (bt_metricer b)) (bt_heap b ! a) of
                  (m', md) \<Rightarrow>
                    (case report (Meter md) (bt_reporter b) of
                       (r', res) \<Rightarrow>
                         Some (b\<lparr>bt_heap := (bt_heap b)[a := m'], bt_reporter := r',
                                 bt_phase := (case res of Inl _ \<Rightarrow> Selecting | Inr _ \<Rightarrow> Collecting ids)\<rparr>))))
      | _ \<Rightarrow> None)"
| "boot_step report cfg EndPass b =
     (if bt_phase b = Collecting [] then Some (b\<lparr>bt_phase := Selecting\<rparr>) else None)"
| "boot_step report cfg Tick b =
     (if bt_phase b = Selecting then Some (b\<lparr>bt_phase := Starting\<rparr>) else None)"
| "boot_step report cfg ShutdownRecv b =
     (if bt_phase b = Selecting then Some (b\<lparr>bt_phase := Stopped\<rparr>) else None)"
| "boot_step report cfg (AppUpdate a op) b =
     (if a < length (bt_heap b)
      then Some (b\<lparr>bt_heap := (bt_heap b)[a := meter_update op (bt_heap b ! a)]\<rparr>) else None)"

fun boot_run ::
  "'r report_fn \<Rightarrow> build \<Rightarrow> 'e boot_event list \<Rightarrow> ('e, 'r) Boot \<Rightarrow> ('e, 'r) Boot option" where
  "boot_run report cfg [] b = Some b"
| "boot_run report cfg (ev # evs) b =
     (case boot_step report cfg ev b of None \<Rightarrow> None | Some b' \<Rightarrow> boot_run report cfg evs b')"

text \<open>Awaiting the handle that \<open>boot\<close> returns, with the panic of the task as the \<open>JoinError\<close>; the task owns
  the receiver of the shutdown message.\<close>

definition Booting_poll :: "('e, 'r) Boot \<Rightarrow> (panic + unit) poll" where
  "Booting_poll b =
     (case bt_phase b of
        Stopped \<Rightarrow> Ready (Inr ())
      | Crashed \<Rightarrow> Ready (Inl zero_period_panic)
      | _ \<Rightarrow> Pending)"

definition shutdown_receiver_alive :: "('e, 'r) Boot \<Rightarrow> bool" where
  "shutdown_receiver_alive b \<longleftrightarrow> Booting_poll b = Pending"

text \<open>\<open>Booting::shutdown\<close>: the message is sent, then the task is awaited; sending fails when the
  task has already gone.\<close>

definition Booting_shutdown :: "bool \<Rightarrow> string + unit \<Rightarrow> unit sw_result res" where
  "Booting_shutdown receiver_alive joined =
     (if receiver_alive then Inr (map_sum TokioJoin id joined)
      else Inl (Panic ''called `Result::unwrap()` on an `Err` value: SendError { .. }''))"

section \<open>Lemmas\<close>

lemma meter_transform_id [simp]: "meter_id (fst (meter_transform cfg now env srv inst m)) = meter_id m"
  by (cases m) (simp_all add: Counter_transform_def Let_def split: CounterMode.splits prod.splits)

lemma meter_update_id [simp]: "meter_id (meter_update op m) = meter_id m"
  by (cases op; cases m)
    (simp_all add: Counter_increment_def Histogram_add_value_def split: option.splits)

text \<open>Name and labels identify what a report is about.\<close>

fun item_key :: "CollectItem \<Rightarrow> (string \<times> Label list) option" where
  "item_key (Meter md) =
     (case md_metric md of
        Some (SingleValue n ls v) \<Rightarrow> Some (n, ls)
      | Some (HistogramValues n ls vs) \<Rightarrow> Some (n, ls)
      | None \<Rightarrow> None)"
| "item_key _ = None"

definition id_key :: "MeterId \<Rightarrow> (string \<times> Label list) option" where
  "id_key i = Some (mid_name i, meter_labels i)"

declare item_key.simps(1) [simp del]

lemma item_key_transform [simp]:
  "item_key (Meter (snd (meter_transform cfg now env srv inst m))) = id_key (meter_id m)"
  by (cases m) (simp_all add: Counter_transform_def Gauge_transform_def Histogram_transform_def
      single_value_def id_key_def item_key.simps(1) Let_def split: CounterMode.splits)

text \<open>Every registered id leads to a meter with that id.\<close>

definition registry_ok :: "(MeterId \<rightharpoonup> nat) \<Rightarrow> 'e meter list \<Rightarrow> bool" where
  "registry_ok mm heap \<longleftrightarrow>
     (\<forall>i a. mm i = Some a \<longrightarrow> a < length heap \<and> meter_id (heap ! a) = i)"

lemma registry_ok_new: "registry_ok (meter_map (Metricer_new srv inst)) []"
  by (simp add: registry_ok_def Metricer_new_def)

lemma registry_ok_register:
  assumes "registry_ok (meter_map mt) heap" and "register m (mt, heap) = ((mt', heap'), a)"
  shows "registry_ok (meter_map mt') heap' \<and> meter_map mt' (meter_id m) = Some a \<and> heap' ! a = m \<and>
    (\<forall>i. i \<noteq> meter_id m \<longrightarrow> meter_map mt' i = meter_map mt i)"
proof -
  have eqs: "mt' = mt\<lparr>meter_map := (meter_map mt)(meter_id m \<mapsto> length heap)\<rparr>"
    "heap' = heap @ [m]" "a = length heap"
    using assms(2) by (auto simp: register_def)
  have "registry_ok (meter_map mt') heap'"
    unfolding registry_ok_def eqs
  proof (intro allI impI)
    fix i b assume "meter_map (mt\<lparr>meter_map := (meter_map mt)(meter_id m \<mapsto> length heap)\<rparr>) i = Some b"
    then show "b < length (heap @ [m]) \<and> meter_id ((heap @ [m]) ! b) = i"
      using assms(1) by (cases "i = meter_id m") (auto simp: registry_ok_def nth_append less_Suc_eq)
  qed
  then show ?thesis by (simp add: eqs)
qed

lemma registry_ok_update:
  assumes "registry_ok mm heap" and "meter_id m = meter_id (heap ! a)"
  shows "registry_ok mm (heap[a := m])"
  using assms
  by (cases "a < length heap") (auto simp: registry_ok_def nth_list_update list_update_beyond not_less)

section \<open>Every pass reports every meter once\<close>

fun pass_orders :: "'e boot_event list \<Rightarrow> MeterId list" where
  "pass_orders [] = []"
| "pass_orders (BeginPass order # evs) = order @ pass_orders evs"
| "pass_orders (ev # evs) = pass_orders evs"

lemma pass_orders_append: "pass_orders (xs @ ys) = pass_orders xs @ pass_orders ys"
  by (induction xs rule: pass_orders.induct) auto

fun to_collect :: "boot_phase \<Rightarrow> MeterId list" where
  "to_collect (Collecting ids) = ids"
| "to_collect _ = []"

text \<open>The invariant: what the reporter has received, and what the running pass still owes, is what
  the passes begun so far have enumerated.\<close>

definition boot_inv ::
  "('r \<Rightarrow> CollectItem list) \<Rightarrow> ('r \<Rightarrow> bool) \<Rightarrow> (MeterId \<rightharpoonup> nat) \<Rightarrow> CollectItem list \<Rightarrow> MeterId list \<Rightarrow>
   ('e, 'r) Boot \<Rightarrow> bool" where
  "boot_inv delivered accepting mm before orders b \<longleftrightarrow>
     meter_map (bt_metricer b) = mm \<and> registry_ok mm (bt_heap b) \<and> accepting (bt_reporter b) \<and>
     set (to_collect (bt_phase b)) \<subseteq> dom mm \<and>
     (\<exists>new. delivered (bt_reporter b) = before @ new \<and>
        map item_key new @ map id_key (to_collect (bt_phase b)) = map id_key orders)"

context reporter
begin

lemma boot_step_inv:
  assumes "boot_inv delivered accepting mm before orders b" and "boot_step report cfg ev b = Some b'"
  shows "boot_inv delivered accepting mm before (orders @ pass_orders [ev]) b'"
proof (cases ev)
  case (BeginPass order)
  with assms show ?thesis
    by (auto simp: boot_inv_def enumerates_def split: if_splits)
next
  case (CollectOne now env)
  with assms(2) obtain i ids a where
    ph: "bt_phase b = Collecting (i # ids)" and a: "meter_map (bt_metricer b) i = Some a"
    by (auto split: boot_phase.splits list.splits option.splits)
  let ?m = "meter_transform cfg now env (mt_service_name (bt_metricer b))
    (mt_instance_name (bt_metricer b)) (bt_heap b ! a)"
  have acc: "accepting (bt_reporter b)" and reg: "registry_ok mm (bt_heap b)"
    and mm: "meter_map (bt_metricer b) = mm" using assms(1) by (simp_all add: boot_inv_def)
  obtain r' where r': "report (Meter (snd ?m)) (bt_reporter b) = (r', Inr ())"
    "delivered r' = delivered (bt_reporter b) @ [Meter (snd ?m)]" "accepting r'"
    using report_accepting [OF acc] by blast
  have id: "meter_id (bt_heap b ! a) = i" using reg a mm by (auto simp: registry_ok_def)
  have b': "b' = b\<lparr>bt_heap := (bt_heap b)[a := fst ?m], bt_reporter := r', bt_phase := Collecting ids\<rparr>"
    using assms(2) CollectOne ph a r'(1) by (simp add: case_prod_beta)
  have "registry_ok mm ((bt_heap b)[a := fst ?m])"
    using reg by (rule registry_ok_update) simp
  with assms(1) CollectOne ph r'(2,3) id show ?thesis
    unfolding b' by (auto simp: boot_inv_def)
next
  case (AppUpdate a op)
  have "registry_ok mm ((bt_heap b)[a := meter_update op (bt_heap b ! a)])"
    using assms(1) by (intro registry_ok_update) (simp_all add: boot_inv_def)
  with AppUpdate assms show ?thesis
    by (auto simp: boot_inv_def split: if_splits)
qed (use assms in \<open>auto simp: boot_inv_def split: if_splits\<close>)

lemma boot_run_inv:
  "boot_inv delivered accepting mm before orders b \<Longrightarrow> boot_run report cfg evs b = Some b' \<Longrightarrow>
   boot_inv delivered accepting mm before (orders @ pass_orders evs) b'"
proof (induction evs arbitrary: b orders)
  case (Cons ev evs)
  then obtain b1 where b1: "boot_step report cfg ev b = Some b1" "boot_run report cfg evs b1 = Some b'"
    by (auto split: option.splits)
  from Cons.IH [OF boot_step_inv [OF Cons.prems(1) b1(1)] b1(2)] show ?case
    using pass_orders_append [of "[ev]" evs] by simp
qed simp

end

fun passes :: "'e boot_event list \<Rightarrow> nat" where
  "passes [] = 0"
| "passes (BeginPass order # evs) = Suc (passes evs)"
| "passes (ev # evs) = passes evs"

lemma boot_step_map:
  "boot_step report cfg ev b = Some b' \<Longrightarrow> meter_map (bt_metricer b') = meter_map (bt_metricer b)"
  by (cases ev) (auto split: if_splits boot_phase.splits list.splits option.splits prod.splits)

lemma count_list_enumerates:
  "enumerates order mm \<Longrightarrow> count_list order i = (if i \<in> dom mm then 1 else 0)"
  by (simp add: enumerates_def count_list_0_iff distinct_count_atmost_1 flip: count_mset)

lemma boot_run_counts:
  "boot_run report cfg evs b = Some b' \<Longrightarrow>
   count_list (pass_orders evs) i = (if i \<in> dom (meter_map (bt_metricer b)) then passes evs else 0)"
proof (induction evs arbitrary: b)
  case (Cons ev evs)
  then obtain b1 where b1: "boot_step report cfg ev b = Some b1" "boot_run report cfg evs b1 = Some b'"
    by (auto split: option.splits)
  from Cons.IH [OF b1(2)] boot_step_map [OF b1(1)] b1(1) show ?case
    by (cases ev) (auto split: if_splits simp: count_list_enumerates)
qed simp

lemma boot_run_passes:
  "boot_run report cfg evs b = Some b' \<Longrightarrow> bt_phase b = Starting \<Longrightarrow> bt_phase b' \<noteq> Starting \<Longrightarrow>
   1 \<le> passes evs"
proof (induction evs arbitrary: b)
  case (Cons ev evs)
  then obtain b1 where b1: "boot_step report cfg ev b = Some b1" "boot_run report cfg evs b1 = Some b'"
    by (auto split: option.splits)
  with Cons show ?case by (cases ev) (auto split: if_splits)
qed simp

lemma Booting_pending: "Booting_poll b = Pending \<longleftrightarrow> bt_phase b \<noteq> Stopped \<and> bt_phase b \<noteq> Crashed"
  by (simp add: Booting_poll_def split: boot_phase.splits)

lemma crashed_run:
  "boot_run report cfg evs b = Some b' \<Longrightarrow> bt_phase b = Crashed \<Longrightarrow>
   bt_phase b' = Crashed \<and> bt_reporter b' = bt_reporter b"
proof (induction evs arbitrary: b)
  case (Cons ev evs)
  then obtain b1 where b1: "boot_step report cfg ev b = Some b1" "boot_run report cfg evs b1 = Some b'"
    by (auto split: option.splits)
  with Cons.prems(2) have "bt_phase b1 = Crashed \<and> bt_reporter b1 = bt_reporter b" by (cases ev) (auto split: if_splits)
  with Cons.IH [OF b1(2)] show ?case by simp
qed simp

text \<open>C29. The metricer reports every meter in every pass: whatever the program does to its meters
  meanwhile and in whatever order the map enumerates them, when the task is between two passes or
  has stopped, an accepting reporter has received, per pass begun, exactly one item for every
  registered meter and nothing else, and a task that has stopped has made at least one pass.\<close>

theorem metricer_reports_every_meter_in_every_pass:
  assumes "reporter report delivered accepting" and "accepting r" and "registry_ok (meter_map mt) heap"
    and "boot_run report cfg evs (Metricer_boot mt heap r) = Some b" and "to_collect (bt_phase b) = []"
  shows "\<exists>new order. delivered (bt_reporter b) = delivered r @ new \<and> map item_key new = map id_key order \<and>
    (\<forall>i. count_list order i = (if i \<in> dom (meter_map mt) then passes evs else 0)) \<and>
    (bt_phase b = Stopped \<longrightarrow> 1 \<le> passes evs)"
proof -
  have "boot_inv delivered accepting (meter_map mt) (delivered r) [] (Metricer_boot mt heap r)"
    using assms(2,3) by (simp add: boot_inv_def Metricer_boot_def)
  from reporter.boot_run_inv [OF assms(1) this assms(4)] obtain new where
    "delivered (bt_reporter b) = delivered r @ new" "map item_key new = map id_key (pass_orders evs)"
    using assms(5) by (auto simp: boot_inv_def)
  moreover have "count_list (pass_orders evs) i = (if i \<in> dom (meter_map mt) then passes evs else 0)" for i
    using boot_run_counts [OF assms(4)] by (simp add: Metricer_boot_def)
  moreover have "bt_phase b = Stopped \<longrightarrow> 1 \<le> passes evs"
    using boot_run_passes [OF assms(4)] crashed_run [OF assms(4)]
    by (cases "report_interval mt = 0") (auto simp: Metricer_boot_def)
  ultimately show ?thesis by blast
qed

text \<open>A counter and a gauge over two passes, with an increment in the middle of the first.\<close>

definition sample_setup :: "(Metricer \<times> int meter list) \<times> nat" where
  "sample_setup =
     register (MGauge (Gauge_new ''g'' (\<lambda>env. if env = 0 then 0 else 0x3FF0000000000000)))
       (fst (register (MCounter (Counter_new ''c'')) (Metricer_new ''s'' ''i'', [])))"

definition sample_ids :: "MeterId list" where
  "sample_ids = [\<lparr>mid_name = ''g'', mid_typ = GaugeType, mid_labels = []\<rparr>,
     \<lparr>mid_name = ''c'', mid_typ = CounterType, mid_labels = []\<rparr>]"

definition sample_events :: "int boot_event list" where
  "sample_events = [BeginPass sample_ids, CollectOne 0 0, AppUpdate 0 (AddCount 0), CollectOne 0 1,
     EndPass, Tick, BeginPass (rev sample_ids), CollectOne 0 1, CollectOne 0 1, EndPass, ShutdownRecv]"

definition sample_console :: "PrintReporter \<times> console" where
  "sample_console = (PrintReporter_new, \<lparr>stdout_lines = [], stderr_lines = []\<rparr>)"

definition sample_boot :: "(int, PrintReporter \<times> console) Boot" where
  "sample_boot = Metricer_boot (fst (fst sample_setup)) (snd (fst sample_setup)) sample_console"

lemma sample_registry:
  "registry_ok (meter_map (fst (fst sample_setup))) (snd (fst sample_setup))"
  by (auto simp: sample_setup_def register_def registry_ok_def Metricer_new_def nth_append
      Counter_new_def Gauge_new_def)

lemma sample_interval: "report_interval (fst (fst sample_setup)) \<noteq> 0"
  by (simp add: sample_setup_def register_def Metricer_new_def)

lemma sample_enumerates:
  "enumerates sample_ids (meter_map (fst (fst sample_setup)))"
  "enumerates (rev sample_ids) (meter_map (fst (fst sample_setup)))"
  by (auto simp: enumerates_def sample_ids_def sample_setup_def register_def Metricer_new_def
      Counter_new_def Gauge_new_def)

lemma sample_boot_runs:
  "\<exists>b. boot_run PrintReporter_report \<lparr>overflow_checks = True, mock = True\<rparr> sample_events sample_boot = Some b \<and>
     bt_phase b = Stopped"
  using sample_enumerates
  by (simp add: sample_events_def sample_boot_def Metricer_boot_def sample_ids_def sample_setup_def
      register_def Metricer_new_def Counter_new_def Gauge_new_def sample_console_def
      PrintReporter_report_def PrintReporter_new_def Counter_transform_def Gauge_transform_def
      Counter_increment_def)

theorem metricer_reports_every_meter_in_every_pass_witness:
  "\<exists>b new order.
    boot_run PrintReporter_report \<lparr>overflow_checks = True, mock = True\<rparr> sample_events sample_boot = Some b \<and>
    printed (bt_reporter b) = printed sample_console @ new \<and> map item_key new = map id_key order \<and>
    (\<forall>i. count_list order i = (if i \<in> dom (meter_map (fst (fst sample_setup))) then 2 else 0))"
proof -
  obtain b where b: "boot_run PrintReporter_report \<lparr>overflow_checks = True, mock = True\<rparr>
      sample_events sample_boot = Some b" "bt_phase b = Stopped"
    using sample_boot_runs by blast
  have p: "passes sample_events = 2" by (simp add: sample_events_def)
  obtain new order where n: "printed (bt_reporter b) = printed sample_console @ new"
    "map item_key new = map id_key order"
    "\<forall>i. count_list order i = (if i \<in> dom (meter_map (fst (fst sample_setup))) then passes sample_events else 0)"
    using metricer_reports_every_meter_in_every_pass
        [OF print.reporter_axioms TrueI sample_registry b(1) [unfolded sample_boot_def]] b(2)
    by auto
  show ?thesis using b(1) n(1,2) n(3) [unfolded p] by blast
qed

text \<open>What holds of the task with any reporter.\<close>

definition boot_ok :: "('e, 'r) Boot \<Rightarrow> bool" where
  "boot_ok b \<longleftrightarrow> registry_ok (meter_map (bt_metricer b)) (bt_heap b) \<and>
     set (to_collect (bt_phase b)) \<subseteq> dom (meter_map (bt_metricer b)) \<and>
     finite (dom (meter_map (bt_metricer b)))"

lemma boot_step_ok:
  assumes "boot_ok b" and "boot_step report cfg ev b = Some b'"
  shows "boot_ok b'"
proof (cases ev)
  case (CollectOne now env)
  with assms(2) obtain i ids a where
    ph: "bt_phase b = Collecting (i # ids)" and a: "meter_map (bt_metricer b) i = Some a"
    by (auto split: boot_phase.splits list.splits option.splits)
  let ?m = "meter_transform cfg now env (mt_service_name (bt_metricer b))
    (mt_instance_name (bt_metricer b)) (bt_heap b ! a)"
  have "registry_ok (meter_map (bt_metricer b)) ((bt_heap b)[a := fst ?m])"
    using assms(1) by (intro registry_ok_update) (simp_all add: boot_ok_def)
  with assms CollectOne ph a show ?thesis
    by (auto simp: boot_ok_def case_prod_beta split: sum.splits)
next
  case (AppUpdate a op)
  have "registry_ok (meter_map (bt_metricer b)) ((bt_heap b)[a := meter_update op (bt_heap b ! a)])"
    using assms(1) by (intro registry_ok_update) (simp_all add: boot_ok_def)
  with AppUpdate assms show ?thesis by (auto simp: boot_ok_def split: if_splits)
qed (use assms in \<open>auto simp: boot_ok_def enumerates_def split: if_splits\<close>)

lemma boot_run_ok: "boot_ok b \<Longrightarrow> boot_run report cfg evs b = Some b' \<Longrightarrow> boot_ok b'"
  by (induction evs arbitrary: b) (auto split: option.splits dest: boot_step_ok)

lemma boot_run_append:
  "boot_run report cfg (xs @ ys) b = Option.bind (boot_run report cfg xs b) (boot_run report cfg ys)"
  by (induction xs arbitrary: b) (auto split: option.splits)

lemma pass_can_finish:
  assumes "boot_ok b" and "bt_phase b = Collecting ids"
  shows "\<exists>evs b'. boot_run report cfg evs b = Some b' \<and> bt_phase b' = Selecting \<and>
    length evs \<le> length ids + 1"
  using assms
proof (induction ids arbitrary: b)
  case Nil
  then have "boot_run report cfg [EndPass] b = Some (b\<lparr>bt_phase := Selecting\<rparr>)" by simp
  then show ?case by fastforce
next
  case (Cons i ids)
  then have "i \<in> dom (meter_map (bt_metricer b))" by (auto simp: boot_ok_def)
  then obtain b1 where b1: "boot_step report cfg (CollectOne 0 undefined) b = Some b1"
    "bt_phase b1 = Selecting \<or> bt_phase b1 = Collecting ids"
    using Cons.prems(2) by (auto simp: case_prod_beta split: sum.splits)
  from b1(2) show ?case
  proof
    assume "bt_phase b1 = Selecting"
    with b1(1) have "boot_run report cfg [CollectOne 0 undefined] b = Some b1 \<and> bt_phase b1 = Selecting" by simp
    then show ?thesis by fastforce
  next
    assume "bt_phase b1 = Collecting ids"
    from Cons.IH [OF boot_step_ok [OF Cons.prems(1) b1(1)] this] obtain evs b2 where
      "boot_run report cfg evs b1 = Some b2" "bt_phase b2 = Selecting" "length evs \<le> length ids + 1" by blast
    with b1(1) have "boot_run report cfg (CollectOne 0 undefined # evs) b = Some b2 \<and>
        bt_phase b2 = Selecting \<and> length (CollectOne 0 undefined # evs) \<le> length (i # ids) + 1" by simp
    then show ?thesis by blast
  qed
qed

lemma reaches_selecting:
  assumes "boot_ok b" and "bt_phase b \<noteq> Stopped" and "bt_phase b \<noteq> Crashed"
  shows "\<exists>evs b'. boot_run report cfg evs b = Some b' \<and> bt_phase b' = Selecting \<and>
    length evs \<le> card (dom (meter_map (bt_metricer b))) + length (to_collect (bt_phase b)) + 2"
proof (cases "bt_phase b")
  case Starting
  obtain order where order: "enumerates order (meter_map (bt_metricer b))"
    using assms(1) finite_distinct_list [of "dom (meter_map (bt_metricer b))"]
    by (auto simp: boot_ok_def enumerates_def)
  let ?b = "b\<lparr>bt_phase := Collecting order\<rparr>"
  have step: "boot_step report cfg (BeginPass order) b = Some ?b" using Starting order by simp
  obtain evs b' where "boot_run report cfg evs ?b = Some b'" "bt_phase b' = Selecting"
    "length evs \<le> length order + 1"
    using pass_can_finish [OF boot_step_ok [OF assms(1) step], of order report cfg] by auto
  moreover have "length order = card (dom (meter_map (bt_metricer b)))"
    using order by (metis distinct_card enumerates_def)
  ultimately have "boot_run report cfg (BeginPass order # evs) b = Some b' \<and> bt_phase b' = Selecting \<and>
      length (BeginPass order # evs) \<le> card (dom (meter_map (bt_metricer b))) + 2"
    using step by simp
  with Starting show ?thesis by fastforce
next
  case (Collecting ids)
  from pass_can_finish [OF assms(1) this] obtain evs b' where
    "boot_run report cfg evs b = Some b'" "bt_phase b' = Selecting" "length evs \<le> length ids + 1"
    by blast
  with Collecting show ?thesis by fastforce
next
  case Selecting
  then have "boot_run report cfg [] b = Some b \<and> bt_phase b = Selecting" by simp
  then show ?thesis by fastforce
qed (use assms(2,3) in simp_all)

lemma boot_step_crash:
  "boot_step report cfg ev b = Some b' \<Longrightarrow> bt_phase b \<noteq> Crashed \<Longrightarrow> bt_phase b' \<noteq> Crashed"
  by (cases ev) (auto split: if_splits boot_phase.splits list.splits option.splits prod.splits sum.splits)

lemma boot_run_crash: "boot_run report cfg evs b = Some b' \<Longrightarrow> bt_phase b \<noteq> Crashed \<Longrightarrow> bt_phase b' \<noteq> Crashed"
  by (induction evs arbitrary: b) (auto split: option.splits dest: boot_step_crash)

text \<open>Shutdown is always possible and no reporter can prevent it: with a period that is not zero, from
  every state the task can be in, with any reporter, one that panics included, finishing the running pass (at most one
  collection per meter) brings it to the point where it takes the shutdown message and stops.\<close>

theorem metricer_can_always_be_shut_down:
  assumes "registry_ok (meter_map mt) heap" and "finite (dom (meter_map mt))"
    and "report_interval mt \<noteq> 0" and "boot_run report cfg evs (Metricer_boot mt heap r) = Some b" and "bt_phase b \<noteq> Stopped"
  shows "\<exists>evs' b'. boot_run report cfg (evs' @ [ShutdownRecv]) b = Some b' \<and> bt_phase b' = Stopped \<and>
    length evs' \<le> card (dom (meter_map (bt_metricer b))) + length (to_collect (bt_phase b)) + 2"
proof -
  have "boot_ok (Metricer_boot mt heap r)" using assms(1,2) by (simp add: boot_ok_def Metricer_boot_def)
  moreover have "bt_phase b \<noteq> Crashed" using boot_run_crash [OF assms(4)] assms(3) by (simp add: Metricer_boot_def)
  ultimately obtain evs' b1 where
    "boot_run report cfg evs' b = Some b1" "bt_phase b1 = Selecting"
    "length evs' \<le> card (dom (meter_map (bt_metricer b))) + length (to_collect (bt_phase b)) + 2"
    using reaches_selecting [OF boot_run_ok [OF _ assms(4)] assms(5), of report cfg] by blast
  then have "boot_run report cfg (evs' @ [ShutdownRecv]) b = Some (b1\<lparr>bt_phase := Stopped\<rparr>) \<and>
      bt_phase (b1\<lparr>bt_phase := Stopped\<rparr>) = Stopped \<and>
      length evs' \<le> card (dom (meter_map (bt_metricer b))) + length (to_collect (bt_phase b)) + 2"
    by (simp add: boot_run_append)
  then show ?thesis by blast
qed

text \<open>A reporter that panics on every item.\<close>

definition panicking_report :: "unit report_fn" where
  "panicking_report item r = (r, Inl (Panic ''reporter''))"

theorem metricer_can_always_be_shut_down_witness:
  "\<exists>evs' b'. boot_run panicking_report \<lparr>overflow_checks = True, mock = True\<rparr> (evs' @ [ShutdownRecv])
      ((Metricer_boot (fst (fst sample_setup)) (snd (fst sample_setup)) ())\<lparr>bt_phase := Collecting sample_ids\<rparr>) =
      Some b' \<and> bt_phase b' = Stopped"
proof -
  let ?b0 = "Metricer_boot (fst (fst sample_setup)) (snd (fst sample_setup)) ()"
  have run: "boot_run panicking_report \<lparr>overflow_checks = True, mock = True\<rparr> [BeginPass sample_ids] ?b0 =
      Some (?b0\<lparr>bt_phase := Collecting sample_ids\<rparr>)"
    using sample_enumerates sample_interval by (simp add: Metricer_boot_def)
  have "finite (dom (meter_map (fst (fst sample_setup))))"
    using sample_enumerates(1) by (metis List.finite_set enumerates_def)
  from metricer_can_always_be_shut_down [OF sample_registry this sample_interval run]
  show ?thesis by (auto simp: Metricer_boot_def)
qed

text \<open>A period of zero, which \<open>set_report_interval\<close> accepts, is the end of the metrics: the task that \<open>boot\<close>
  starts panics before its first pass, so that no reporter ever receives anything, awaiting the
  handle gives that panic, and \<open>shutdown\<close>, whose message nobody receives any more, panics itself.\<close>

theorem zero_interval_crashes_the_metricer:
  assumes "boot_run report cfg evs (Metricer_boot (set_report_interval 0 mt) heap r) = Some b"
  shows "bt_reporter b = r \<and> Booting_poll b = Ready (Inl zero_period_panic) \<and>
    (\<exists>p. Booting_shutdown (shutdown_receiver_alive b) joined = Inl p)"
proof -
  have "bt_phase b = Crashed \<and> bt_reporter b = r"
    using crashed_run [OF assms] by (simp add: Metricer_boot_def set_report_interval_def)
  then show ?thesis by (simp add: Booting_poll_def shutdown_receiver_alive_def Booting_shutdown_def)
qed

theorem zero_interval_crashes_the_metricer_witness:
  "\<exists>b. boot_run PrintReporter_report \<lparr>overflow_checks = True, mock = True\<rparr> [AppUpdate 0 (AddCount 0)]
      (Metricer_boot (set_report_interval 0 (fst (fst sample_setup))) (snd (fst sample_setup)) sample_console) = Some b \<and>
    bt_reporter b = sample_console \<and> Booting_poll b = Ready (Inl zero_period_panic)"
proof -
  obtain b where b: "boot_run PrintReporter_report \<lparr>overflow_checks = True, mock = True\<rparr> [AppUpdate 0 (AddCount 0)]
      (Metricer_boot (set_report_interval 0 (fst (fst sample_setup))) (snd (fst sample_setup)) sample_console) = Some b"
    by (simp add: Metricer_boot_def sample_setup_def register_def)
  from zero_interval_crashes_the_metricer [OF b] b show ?thesis by blast
qed

text \<open>Registering one meter after the other.\<close>

fun register_all :: "'e meter list \<Rightarrow> Metricer \<times> 'e meter list \<Rightarrow> Metricer \<times> 'e meter list" where
  "register_all [] s = s"
| "register_all (m # ms) s = register_all ms (fst (register m s))"

lemma register_all_append: "register_all (ms @ [m]) s = fst (register m (register_all ms s))"
  by (induction ms arbitrary: s) auto

text \<open>Of the meters registered under equal ids (same type, name and labels) the last one is the
  one that is reported; every registered id is reported and no other.\<close>

theorem last_registered_meter_wins:
  "case register_all ms (Metricer_new srv inst, []) of (mt, heap) \<Rightarrow>
     registry_ok (meter_map mt) heap \<and> heap = ms \<and> finite (dom (meter_map mt)) \<and>
     (\<forall>i. map_option ((!) heap) (meter_map mt i) = last_opt (filter (\<lambda>m. meter_id m = i) ms))"
proof (induction ms rule: rev_induct)
  case Nil
  show ?case by (simp add: registry_ok_def Metricer_new_def)
next
  case (snoc m ms)
  obtain mt heap where s: "register_all ms (Metricer_new srv inst, []) = (mt, heap)" by fastforce
  with snoc have IH: "registry_ok (meter_map mt) heap" "heap = ms" "finite (dom (meter_map mt))"
    "\<And>i. map_option ((!) heap) (meter_map mt i) = last_opt (filter (\<lambda>m. meter_id m = i) ms)" by auto
  let ?mt = "mt\<lparr>meter_map := (meter_map mt)(meter_id m \<mapsto> length heap)\<rparr>"
  have r: "register m (mt, heap) = ((?mt, heap @ [m]), length heap)" by (simp add: register_def)
  have "map_option ((!) (heap @ [m])) (meter_map ?mt i) = last_opt (filter (\<lambda>m. meter_id m = i) (ms @ [m]))" for i
  proof (cases "i = meter_id m")
    case False
    then have "map_option ((!) (heap @ [m])) (meter_map mt i) = map_option ((!) heap) (meter_map mt i)"
      using IH(1) by (cases "meter_map mt i") (auto simp: registry_ok_def nth_append)
    with False IH(4) show ?thesis by simp
  qed simp
  moreover have "register_all (ms @ [m]) (Metricer_new srv inst, []) = (?mt, heap @ [m])"
    by (simp add: register_all_append s r)
  ultimately show ?case
    using registry_ok_register [OF IH(1) r] IH(2,3) by (simp del: filter_append)
qed

end
