(* ===== verification/Management.thy ===== *)
theory Management
  imports Print_Reporter Errors
begin

text \<open>
  \<^verbatim>\<open>src/src/management/instance.rs\<close> and \<^verbatim>\<open>manager.rs\<close>: the properties of the service instance and the
  manager that reports them and keeps the instance alive.
\<close>

section \<open>Properties\<close>

text \<open>A \<open>HashMap\<close> enumerates its keys in an order of its own: the argument \<open>order\<close> where it matters.\<close>

type_synonym Properties = "string \<rightharpoonup> string list"

definition KEY_HOST_NAME :: string where "KEY_HOST_NAME = ''hostname''"
definition KEY_IPV4 :: string where "KEY_IPV4 = ''ipv4''"
definition KEY_LANGUAGE :: string where "KEY_LANGUAGE = ''language''"
definition KEY_OS_NAME :: string where "KEY_OS_NAME = ''OS Name''"
definition KEY_PROCESS_NO :: string where "KEY_PROCESS_NO = ''Process No.''"

definition Properties_new :: Properties where
  "Properties_new = Map.empty"

definition Properties_insert :: "string \<Rightarrow> string \<Rightarrow> Properties \<Rightarrow> Properties" where
  "Properties_insert key value ps =
     ps(key \<mapsto> (case ps key of Some vs \<Rightarrow> vs | None \<Rightarrow> []) @ [value])"

definition Properties_update :: "string \<Rightarrow> string \<Rightarrow> Properties \<Rightarrow> Properties" where
  "Properties_update key value ps = (case ps key of Some vs \<Rightarrow> ps(key \<mapsto> [value]) | None \<Rightarrow> ps)"

definition Properties_remove :: "string \<Rightarrow> Properties \<Rightarrow> Properties" where
  "Properties_remove key ps = ps(key := None)"

text \<open>What the operating system says of itself: the target, the host name, the network interfaces
  (\<open>systemstat\<close> may fail), the process id.\<close>

datatype target_os = Linux | Windows | Macos | OtherOs

datatype ip_addr = V4 string | NotV4

record network =
  net_name :: string
  net_addrs :: "ip_addr list"

record os_facts =
  os_target :: target_os
  os_hostname :: "string option"
  os_networks :: "network list option"
  os_process_id :: nat

fun OS_NAME :: "target_os \<Rightarrow> string option" where
  "OS_NAME Linux = Some ''Linux''"
| "OS_NAME Windows = Some ''Windows''"
| "OS_NAME Macos = Some ''Mac OS X''"
| "OS_NAME OtherOs = None"

definition starts_with :: "string \<Rightarrow> string \<Rightarrow> bool" where
  "starts_with s p \<longleftrightarrow> take (length p) s = p"

definition reported_network :: "network \<Rightarrow> bool" where
  "reported_network n \<longleftrightarrow> net_name n \<noteq> ''lo'' \<and> \<not> starts_with (net_name n) ''docker'' \<and>
     \<not> starts_with (net_name n) ''br-''"

definition v4_addrs :: "network \<Rightarrow> string list" where
  "v4_addrs n = List.map_filter (\<lambda>a. case a of V4 s \<Rightarrow> Some s | NotV4 \<Rightarrow> None) (net_addrs n)"

definition IPS :: "network list option \<Rightarrow> string list" where
  "IPS nets =
     (case nets of None \<Rightarrow> [] | Some ns \<Rightarrow> concat (map v4_addrs (filter reported_network ns)))"

definition build_os_info :: "os_facts \<Rightarrow> (string \<times> string) list" where
  "build_os_info os =
     (case OS_NAME (os_target os) of Some n \<Rightarrow> [(KEY_OS_NAME, n)] | None \<Rightarrow> []) @
     (case os_hostname os of Some h \<Rightarrow> [(KEY_HOST_NAME, h)] | None \<Rightarrow> []) @
     map (\<lambda>ip. (KEY_IPV4, ip)) (IPS (os_networks os)) @
     [(KEY_PROCESS_NO, show_nat (os_process_id os)), (KEY_LANGUAGE, ''rust'')]"

definition insert_os_info :: "os_facts \<Rightarrow> Properties \<Rightarrow> Properties" where
  "insert_os_info os ps = foldl (\<lambda>p (key, value). Properties_insert key value p) ps (build_os_info os)"

definition convert_to_instance_properties ::
  "string list \<Rightarrow> string \<Rightarrow> string \<Rightarrow> Properties \<Rightarrow> InstanceProperties" where
  "convert_to_instance_properties order srv inst ps =
     \<lparr>ip_service = srv, ip_service_instance = inst,
      ip_properties = concat (map (\<lambda>k. case ps k of
          Some vs \<Rightarrow> map (\<lambda>v. \<lparr>kv_key = k, kv_value = v\<rparr>) vs | None \<Rightarrow> []) order),
      ip_layer = []\<rparr>"

section \<open>Manager\<close>

record Manager =
  mg_service_name :: string
  mg_instance_name :: string

definition Manager_new :: "string \<Rightarrow> string \<Rightarrow> Manager" where
  "Manager_new srv inst = \<lparr>mg_service_name = srv, mg_instance_name = inst\<rparr>"

text \<open>The properties come with the order in which their map enumerates its keys.\<close>

definition report_properties ::
  "'r report_fn \<Rightarrow> Manager \<Rightarrow> string list \<times> Properties \<Rightarrow> 'r \<Rightarrow> ('r, unit) outcome" where
  "report_properties report mg ps =
     report (Instance (convert_to_instance_properties (fst ps) (mg_service_name mg)
       (mg_instance_name mg) (snd ps)))"

definition keep_alive :: "'r report_fn \<Rightarrow> Manager \<Rightarrow> 'r \<Rightarrow> ('r, unit) outcome" where
  "keep_alive report mg =
     report (Ping \<lparr>ping_service = mg_service_name mg, ping_service_instance = mg_instance_name mg,
                   ping_layer = []\<rparr>)"

text \<open>One turn of the loop of \<open>report_and_keep_alive\<close>; \<open>props\<close> is what the closure returns this time.
  A panic ends the task.\<close>

definition keep_alive_turn ::
  "'r report_fn \<Rightarrow> build \<Rightarrow> Manager \<Rightarrow> usize \<Rightarrow> string list \<times> Properties \<Rightarrow> usize \<times> 'r \<Rightarrow>
   (usize \<times> 'r, unit) outcome" where
  "keep_alive_turn report cfg mg factor props s =
     (case s of (counter, r) \<Rightarrow>
        (case (if counter = 0 then report_properties report mg props r else keep_alive report mg r) of
           (r', Inl p) \<Rightarrow> ((counter, r'), Inl p)
         | (r', Inr _) \<Rightarrow>
             (case add_usize cfg counter 1 of
                Inl p \<Rightarrow> ((counter, r'), Inl p)
              | Inr c \<Rightarrow> ((if factor \<le> c then 0 else c, r'), Inr ()))))"

fun keep_alive_loop ::
  "'r report_fn \<Rightarrow> build \<Rightarrow> Manager \<Rightarrow> usize \<Rightarrow> (string list \<times> Properties) list \<Rightarrow> usize \<times> 'r \<Rightarrow>
   (usize \<times> 'r, unit) outcome" where
  "keep_alive_loop report cfg mg factor [] s = (s, Inr ())"
| "keep_alive_loop report cfg mg factor (p # ps) s =
     (case keep_alive_turn report cfg mg factor p s of
        (s', Inl e) \<Rightarrow> (s', Inl e)
      | (s', Inr _) \<Rightarrow> keep_alive_loop report cfg mg factor ps s')"

text \<open>The task with all its turns so far; the period is in nanoseconds.  The handle, which is all the caller
  has of the task, resolves only when the task has panicked.\<close>

definition report_and_keep_alive ::
  "'r report_fn \<Rightarrow> build \<Rightarrow> Manager \<Rightarrow> nat \<Rightarrow> usize \<Rightarrow> (string list \<times> Properties) list \<Rightarrow> 'r \<Rightarrow>
   (usize \<times> 'r, unit) outcome" where
  "report_and_keep_alive report cfg mg heartbeat_period factor turns r =
     (if heartbeat_period = 0 then ((0, r), Inl zero_period_panic)
      else keep_alive_loop report cfg mg factor turns (0, r))"

definition ReportAndKeepAlive_poll :: "(usize \<times> 'r, unit) outcome \<Rightarrow> (panic + unit) poll" where
  "ReportAndKeepAlive_poll task = (case snd task of Inl p \<Rightarrow> Ready (Inl p) | Inr _ \<Rightarrow> Pending)"

section \<open>Properties are a multimap\<close>

text \<open>The specification keeps the pairs in one list.\<close>

datatype prop_op = PInsert string string | PUpdate string string | PRemove string | POsInfo os_facts

fun apply_prop_op :: "prop_op \<Rightarrow> Properties \<Rightarrow> Properties" where
  "apply_prop_op (PInsert k v) ps = Properties_insert k v ps"
| "apply_prop_op (PUpdate k v) ps = Properties_update k v ps"
| "apply_prop_op (PRemove k) ps = Properties_remove k ps"
| "apply_prop_op (POsInfo os) ps = insert_os_info os ps"

fun spec_prop_op :: "prop_op \<Rightarrow> (string \<times> string) list \<Rightarrow> (string \<times> string) list" where
  "spec_prop_op (PInsert k v) l = l @ [(k, v)]"
| "spec_prop_op (PUpdate k v) l =
     (if k \<in> fst ` set l then filter (\<lambda>x. fst x \<noteq> k) l @ [(k, v)] else l)"
| "spec_prop_op (PRemove k) l = filter (\<lambda>x. fst x \<noteq> k) l"
| "spec_prop_op (POsInfo os) l = l @ build_os_info os"

text \<open>The map holds, per key, the values of that key in the list; no key without values.\<close>

definition values_of :: "string \<Rightarrow> (string \<times> string) list \<Rightarrow> string list" where
  "values_of k l = map snd (filter (\<lambda>x. fst x = k) l)"

definition props_rel :: "Properties \<Rightarrow> (string \<times> string) list \<Rightarrow> bool" where
  "props_rel ps l \<longleftrightarrow> (\<forall>k. ps k = (if values_of k l = [] then None else Some (values_of k l)))"

lemma values_of_append [simp]: "values_of k (l @ l') = values_of k l @ values_of k l'"
  by (simp add: values_of_def)

lemma values_of_Nil [simp]: "values_of k [] = []"
  by (simp add: values_of_def)

lemma values_of_single [simp]: "values_of k [(k', v)] = (if k = k' then [v] else [])"
  by (simp add: values_of_def)

lemma values_of_filter [simp]:
  "values_of k (filter (\<lambda>x. fst x \<noteq> k') l) = (if k = k' then [] else values_of k l)"
  by (auto simp: values_of_def intro: arg_cong [where f = "map snd"] filter_cong)

lemma values_of_eq_Nil: "values_of k l = [] \<longleftrightarrow> k \<notin> fst ` set l"
  by (auto simp: values_of_def filter_empty_conv)

lemma props_rel_insert: "props_rel ps l \<Longrightarrow> props_rel (Properties_insert k v ps) (l @ [(k, v)])"
  by (auto simp: props_rel_def Properties_insert_def)

lemma props_rel_inserts:
  "props_rel ps l \<Longrightarrow>
   props_rel (foldl (\<lambda>p (key, value). Properties_insert key value p) ps kvs) (l @ kvs)"
proof (induction kvs arbitrary: ps l)
  case (Cons kv kvs)
  obtain k v where "kv = (k, v)" by fastforce
  with Cons.IH [OF props_rel_insert [OF Cons.prems], of k v] show ?case by simp
qed simp

lemma props_rel_op:
  assumes "props_rel ps l"
  shows "props_rel (apply_prop_op op ps) (spec_prop_op op l)"
proof (cases op)
  case (PUpdate k v)
  with assms show ?thesis
    by (auto simp: props_rel_def Properties_update_def values_of_eq_Nil split: if_splits)
next
  case (PRemove k)
  with assms show ?thesis by (auto simp: props_rel_def Properties_remove_def)
qed (use assms in \<open>simp_all add: props_rel_insert props_rel_inserts insert_os_info_def\<close>)

lemma props_rel_ops:
  "props_rel ps l \<Longrightarrow>
   props_rel (foldl (\<lambda>p op. apply_prop_op op p) ps ops) (foldl (\<lambda>l op. spec_prop_op op l) l ops)"
  by (induction ops arbitrary: ps l) (auto intro: props_rel_op)

definition run_prop_ops :: "prop_op list \<Rightarrow> Properties" where
  "run_prop_ops ops = foldl (\<lambda>p op. apply_prop_op op p) Properties_new ops"

definition spec_prop_ops :: "prop_op list \<Rightarrow> (string \<times> string) list" where
  "spec_prop_ops ops = foldl (\<lambda>l op. spec_prop_op op l) [] ops"

lemma run_prop_ops_rel: "props_rel (run_prop_ops ops) (spec_prop_ops ops)"
  unfolding run_prop_ops_def spec_prop_ops_def
  by (rule props_rel_ops) (simp add: props_rel_def Properties_new_def)

definition ip_pairs :: "InstanceProperties \<Rightarrow> (string \<times> string) list" where
  "ip_pairs ip = map (\<lambda>kv. (kv_key kv, kv_value kv)) (ip_properties ip)"

lemma values_of_concat:
  assumes "distinct ks"
  shows "values_of k (concat (map (\<lambda>k'. map (\<lambda>v. (k', v)) (f k')) ks)) = (if k \<in> set ks then f k else [])"
  using assms
proof (induction ks)
  case (Cons k' ks)
  have "values_of k (map (\<lambda>v. (k', v)) (f k')) = (if k = k' then f k' else [])"
    by (simp add: values_of_def filter_map comp_def)
  with Cons show ?case by auto
qed simp

lemma mset_of_values:
  assumes "\<And>k. values_of k l = values_of k l'"
  shows "mset l = mset l'"
proof (rule multiset_eqI)
  fix kv :: "string \<times> string"
  have "count (mset l) kv = count_list (values_of (fst kv) l) (snd kv)" for l
    by (induction l) (auto simp: values_of_def)
  with assms show "count (mset l) kv = count (mset l') kv" by simp
qed

lemma ip_pairs_convert:
  "ip_pairs (convert_to_instance_properties order srv inst ps) =
   concat (map (\<lambda>k. map (\<lambda>v. (k, v)) (case ps k of Some vs \<Rightarrow> vs | None \<Rightarrow> [])) order)"
  by (auto simp: ip_pairs_def convert_to_instance_properties_def map_concat comp_def
      intro!: arg_cong [where f = concat] split: option.splits)

text \<open>C34. Instance properties are a multimap: after any calls of insert, update, remove and
  \<open>insert_os_info\<close>, and in whatever order the map enumerates its keys, the message that is sent holds
  exactly the pairs a plain list of pairs would hold under the same calls, each as often, and the
  values of one key in the order they were inserted.\<close>

theorem properties_message_is_the_multimap:
  assumes "distinct order" and "set order = dom (run_prop_ops ops)"
  shows "mset (ip_pairs (convert_to_instance_properties order srv inst (run_prop_ops ops))) =
      mset (spec_prop_ops ops) \<and>
    (\<forall>k. values_of k (ip_pairs (convert_to_instance_properties order srv inst (run_prop_ops ops))) =
      values_of k (spec_prop_ops ops))"
proof -
  have v: "values_of k (ip_pairs (convert_to_instance_properties order srv inst (run_prop_ops ops))) =
      values_of k (spec_prop_ops ops)" for k
  proof -
    have "run_prop_ops ops k = (if values_of k (spec_prop_ops ops) = [] then None
        else Some (values_of k (spec_prop_ops ops)))"
      using run_prop_ops_rel [of ops] by (simp add: props_rel_def)
    with assms show ?thesis
      by (auto simp: ip_pairs_convert values_of_concat split: if_splits)
  qed
  then show ?thesis using mset_of_values by blast
qed

theorem properties_message_is_the_multimap_witness:
  "let ops = [PInsert ''a'' ''1'', PInsert ''b'' ''2'', PInsert ''a'' ''3'', PRemove ''b'', PUpdate ''c'' ''4''] in
   spec_prop_ops ops = [(''a'', ''1''), (''a'', ''3'')] \<and>
   mset (ip_pairs (convert_to_instance_properties [''a''] ''s'' ''i'' (run_prop_ops ops))) = mset (spec_prop_ops ops)"
proof -
  let ?ops = "[PInsert ''a'' ''1'', PInsert ''b'' ''2'', PInsert ''a'' ''3'', PRemove ''b'', PUpdate ''c'' ''4'']"
  have spec: "spec_prop_ops ?ops = [(''a'', ''1''), (''a'', ''3'')]" by (simp add: spec_prop_ops_def)
  have dom: "set [''a''] = dom (run_prop_ops ?ops)"
    by (auto simp: run_prop_ops_def Properties_insert_def Properties_remove_def Properties_update_def
        Properties_new_def split: if_splits)
  show ?thesis
    using properties_message_is_the_multimap [OF _ dom] spec by simp
qed

lemma set_v4_addrs: "set (v4_addrs n) = {a. V4 a \<in> set (net_addrs n)}"
proof -
  have "set (List.map_filter (\<lambda>a. case a of V4 s \<Rightarrow> Some s | NotV4 \<Rightarrow> None) xs) = {a. V4 a \<in> set xs}" for xs
    by (induction xs) (auto simp: List.map_filter_def split: ip_addr.splits)
  then show ?thesis by (simp add: v4_addrs_def)
qed

text \<open>What \<open>insert_os_info\<close> adds to empty properties: the language is always \<open>rust\<close> and the process
  number is there; the IPv4 addresses are exactly those of the interfaces that are neither \<open>lo\<close> nor
  named \<open>docker...\<close> or \<open>br-...\<close>; the OS and host name appear when they are known.\<close>

theorem os_info_properties:
  "insert_os_info os Properties_new KEY_LANGUAGE = Some [''rust''] \<and>
   insert_os_info os Properties_new KEY_PROCESS_NO = Some [show_nat (os_process_id os)] \<and>
   insert_os_info os Properties_new KEY_OS_NAME = map_option (\<lambda>n. [n]) (OS_NAME (os_target os)) \<and>
   insert_os_info os Properties_new KEY_HOST_NAME = map_option (\<lambda>h. [h]) (os_hostname os) \<and>
   insert_os_info os Properties_new KEY_IPV4 =
     (if IPS (os_networks os) = [] then None else Some (IPS (os_networks os))) \<and>
   set (IPS (os_networks os)) =
     {a. \<exists>ns n. os_networks os = Some ns \<and> n \<in> set ns \<and> V4 a \<in> set (net_addrs n) \<and>
         reported_network n}"
proof -
  note keys = KEY_HOST_NAME_def KEY_IPV4_def KEY_LANGUAGE_def KEY_OS_NAME_def KEY_PROCESS_NO_def
  have rel: "props_rel (insert_os_info os Properties_new) (build_os_info os)"
    using props_rel_inserts [of Properties_new "[]" "build_os_info os"]
    by (simp add: insert_os_info_def props_rel_def Properties_new_def)
  have vals: "values_of k (build_os_info os) =
      (if k = KEY_OS_NAME then (case OS_NAME (os_target os) of Some n \<Rightarrow> [n] | None \<Rightarrow> []) else []) @
      (if k = KEY_HOST_NAME then (case os_hostname os of Some h \<Rightarrow> [h] | None \<Rightarrow> []) else []) @
      (if k = KEY_IPV4 then IPS (os_networks os) else []) @
      (if k = KEY_PROCESS_NO then [show_nat (os_process_id os)] else []) @
      (if k = KEY_LANGUAGE then [''rust''] else [])" for k
  proof -
    have "values_of k (map (\<lambda>ip. (KEY_IPV4, ip)) xs) = (if k = KEY_IPV4 then xs else [])" for xs
      by (auto simp: values_of_def filter_map comp_def)
    moreover have "values_of k [(KEY_PROCESS_NO, v), (KEY_LANGUAGE, w)] =
        (if k = KEY_PROCESS_NO then [v] else []) @ (if k = KEY_LANGUAGE then [w] else [])" for v w
      by (simp add: values_of_def)
    ultimately show ?thesis
      unfolding build_os_info_def by (auto split: option.splits)
  qed
  have ips: "set (IPS (os_networks os)) =
     {a. \<exists>ns n. os_networks os = Some ns \<and> n \<in> set ns \<and> V4 a \<in> set (net_addrs n) \<and> reported_network n}"
    by (cases "os_networks os") (auto simp: IPS_def set_v4_addrs)
  have look: "insert_os_info os Properties_new k =
      (if values_of k (build_os_info os) = [] then None else Some (values_of k (build_os_info os)))" for k
    using rel by (simp add: props_rel_def)
  show ?thesis
    unfolding look vals by (intro conjI ips) (simp_all add: keys split: option.splits)
qed

section \<open>The heartbeat\<close>

text \<open>What the task should send at each turn: the properties at every \<open>factor\<close>-th turn, the first
  included, a ping otherwise.\<close>

definition heartbeat_item :: "Manager \<Rightarrow> nat \<Rightarrow> nat \<Rightarrow> string list \<times> Properties \<Rightarrow> CollectItem" where
  "heartbeat_item mg factor n props =
     (if n mod max 1 factor = 0
      then Instance (convert_to_instance_properties (fst props) (mg_service_name mg) (mg_instance_name mg) (snd props))
      else Ping \<lparr>ping_service = mg_service_name mg, ping_service_instance = mg_instance_name mg, ping_layer = []\<rparr>)"

fun heartbeat :: "Manager \<Rightarrow> nat \<Rightarrow> nat \<Rightarrow> (string list \<times> Properties) list \<Rightarrow> CollectItem list" where
  "heartbeat mg factor n [] = []"
| "heartbeat mg factor n (p # ps) = heartbeat_item mg factor n p # heartbeat mg factor (Suc n) ps"

lemma mod_step: "0 < m \<Longrightarrow> Suc n mod m = (if Suc (n mod m) = m then 0 else Suc (n mod (m :: nat)))"
  by (simp add: mod_Suc)

context reporter
begin

lemma keep_alive_turn_step:
  assumes "accepting r" and "counter = of_nat (n mod max 1 (unat factor))"
  shows "\<exists>r'. keep_alive_turn report cfg mg factor p (counter, r) =
      ((of_nat (Suc n mod max 1 (unat factor)), r'), Inr ()) \<and> accepting r' \<and>
    delivered r' = delivered r @ [heartbeat_item mg (unat factor) n p]"
proof -
  let ?m = "max 1 (unat factor)"
  let ?c = "n mod ?m"
  have m: "?m < 2 ^ 64" using unsigned_less [of factor, where ?'a = nat] by simp
  then have c: "?c < ?m" "?c < 2 ^ 64" "Suc ?c < 2 ^ 64"
    using mod_less_divisor [of ?m n] by (simp, linarith, linarith)
  have zero: "counter = 0 \<longleftrightarrow> ?c = 0" using assms(2) of_nat_usize_eq_0 [OF c(2)] by simp
  obtain r' where r': "(if counter = 0 then report_properties report mg p r else keep_alive report mg r) =
      (r', Inr ())" "accepting r'" "delivered r' = delivered r @ [heartbeat_item mg (unat factor) n p]"
    using report_accepting [OF assms(1)] zero
    by (cases "?c = 0") (auto simp: heartbeat_item_def report_properties_def keep_alive_def)
  have s: "counter + 1 = of_nat (Suc ?c)" using assms(2) by simp
  have "unat (counter + 1) = Suc ?c" "unat counter = ?c"
    unfolding s using assms(2) c by (simp_all only: unat_of_nat_usize)
  then have add: "add_usize cfg counter 1 = Inr (of_nat (Suc ?c))"
    unfolding add_usize_def s [symmetric] by simp
  have "factor \<le> of_nat (Suc ?c) \<longleftrightarrow> unat factor \<le> Suc ?c"
    unfolding word_le_nat_alt unat_of_nat_usize [OF c(3)] ..
  moreover have "unat factor \<le> Suc ?c \<longleftrightarrow> Suc ?c = ?m" using c(1) by linarith
  ultimately show ?thesis
    using r' add mod_step [of ?m n] by (simp add: keep_alive_turn_def)
qed

lemma heartbeat_run:
  "accepting r \<Longrightarrow> counter = of_nat (n mod max 1 (unat factor)) \<Longrightarrow>
   \<exists>c r'. keep_alive_loop report cfg mg factor ps (counter, r) = ((c, r'), Inr ()) \<and>
     accepting r' \<and> delivered r' = delivered r @ heartbeat mg (unat factor) n ps"
proof (induction ps arbitrary: n counter r)
  case (Cons p ps)
  obtain r1 where r1: "keep_alive_turn report cfg mg factor p (counter, r) =
      ((of_nat (Suc n mod max 1 (unat factor)), r1), Inr ())" "accepting r1"
    "delivered r1 = delivered r @ [heartbeat_item mg (unat factor) n p]"
    using keep_alive_turn_step [OF Cons.prems] by blast
  with Cons.IH [OF r1(2) refl] show ?case by fastforce
qed simp

end

text \<open>C33. The manager's schedule, for every period that is not zero, every factor (0 counts as 1) and with overflow checks on
  or off: over any number of turns with an accepting reporter the task never panics (its handle stays pending), and sends the
  instance properties at turns 0, \<open>factor\<close>, 2 \<open>factor\<close>, ... and a keep-alive ping at every other
  turn, each of them once and in this order.\<close>

theorem manager_heartbeat_schedule:
  assumes "reporter report delivered accepting" and "accepting r" and "0 < period"
  shows "\<exists>c r'. report_and_keep_alive report cfg mg period factor ps r = ((c, r'), Inr ()) \<and>
    ReportAndKeepAlive_poll ((c, r'), Inr ()) = Pending \<and>
    accepting r' \<and> delivered r' = delivered r @ heartbeat mg (unat factor) 0 ps"
  using reporter.heartbeat_run [OF assms(1,2), of 0 0 factor] assms(3)
  by (simp add: report_and_keep_alive_def ReportAndKeepAlive_poll_def)

theorem manager_heartbeat_schedule_witness:
  "let pc = (PrintReporter_new, \<lparr>stdout_lines = [], stderr_lines = []\<rparr>); mg = Manager_new ''s'' ''i'' in
   \<exists>c r'. report_and_keep_alive PrintReporter_report \<lparr>overflow_checks = True, mock = False\<rparr> mg 30000000000 3
       (replicate 5 ([], Properties_new)) pc = ((c, r'), Inr ()) \<and>
     ReportAndKeepAlive_poll ((c, r'), Inr ()) = Pending \<and> True \<and>
     printed r' = printed pc @ heartbeat mg (unat (3 :: usize)) 0 (replicate 5 ([], Properties_new))"
  unfolding Let_def by (rule manager_heartbeat_schedule [OF print.reporter_axioms TrueI]) simp

end
