(* ===== verification/Logging.thy ===== *)
theory Logging
  imports Tracing_Context Print_Reporter
begin

text \<open>
  \<^verbatim>\<open>src/src/logging/record.rs\<close> and \<^verbatim>\<open>logger.rs\<close>: the builder of log records, their conversion to
  \<open>LogData\<close>, the logger and the process-wide logger.
\<close>

section \<open>Log records\<close>

datatype RecordType = TextType | JsonType | YamlType

record LogRecord =
  lr_time :: "SystemTime option"
  lr_is_ignore_time :: bool
  lr_endpoint :: string
  lr_tags :: "(string \<times> string) list"
  lr_trace_id :: "string option"
  lr_trace_segment_id :: "string option"
  lr_span_id :: "i32 option"
  lr_record_type :: RecordType
  lr_content :: string

definition LogRecord_new :: LogRecord where
  "LogRecord_new =
     \<lparr>lr_time = None, lr_is_ignore_time = False, lr_endpoint = [], lr_tags = [], lr_trace_id = None,
      lr_trace_segment_id = None, lr_span_id = None, lr_record_type = TextType, lr_content = []\<rparr>"

definition custom_time :: "SystemTime \<Rightarrow> LogRecord \<Rightarrow> LogRecord" where
  "custom_time t r = r\<lparr>lr_time := Some t\<rparr>"

definition ignore_time :: "LogRecord \<Rightarrow> LogRecord" where
  "ignore_time r = r\<lparr>lr_is_ignore_time := True\<rparr>"

definition LogRecord_endpoint :: "string \<Rightarrow> LogRecord \<Rightarrow> LogRecord" where
  "LogRecord_endpoint e r = r\<lparr>lr_endpoint := e\<rparr>"

definition LogRecord_add_tag :: "string \<Rightarrow> string \<Rightarrow> LogRecord \<Rightarrow> LogRecord" where
  "LogRecord_add_tag key value r = r\<lparr>lr_tags := lr_tags r @ [(key, value)]\<rparr>"

definition LogRecord_add_tags :: "(string \<times> string) list \<Rightarrow> LogRecord \<Rightarrow> LogRecord" where
  "LogRecord_add_tags kvs r = r\<lparr>lr_tags := lr_tags r @ kvs\<rparr>"

definition with_tracing_context :: "TracingContext \<Rightarrow> LogRecord \<Rightarrow> LogRecord" where
  "with_tracing_context tc r =
     r\<lparr>lr_trace_id := Some (tc_trace_id tc), lr_trace_segment_id := Some (tc_trace_segment_id tc)\<rparr>"

definition with_span :: "Span \<Rightarrow> LogRecord \<Rightarrow> LogRecord res" where
  "with_span sp r =
     (case handle_span_id (sp_obj sp) of
        Inl p \<Rightarrow> Inl p
      | Inr i \<Rightarrow> Inr (r\<lparr>lr_span_id := Some i\<rparr>))"

definition LogRecord_record_type :: "RecordType \<Rightarrow> LogRecord \<Rightarrow> LogRecord" where
  "LogRecord_record_type t r = r\<lparr>lr_record_type := t\<rparr>"

definition LogRecord_content :: "string \<Rightarrow> LogRecord \<Rightarrow> LogRecord" where
  "LogRecord_content c r = r\<lparr>lr_content := c\<rparr>"

definition convert_to_log_data ::
  "build \<Rightarrow> SystemTime \<Rightarrow> string \<Rightarrow> string \<Rightarrow> LogRecord \<Rightarrow> LogData" where
  "convert_to_log_data cfg now srv inst r =
     (let timestamp =
            (if lr_is_ignore_time r then 0
             else (case lr_time r of
                     Some t \<Rightarrow> millis_i64 t
                   | None \<Rightarrow> fetch_time cfg now PLog));
          trace_context =
            (case (lr_trace_id r, lr_trace_segment_id r, lr_span_id r) of
               (Some tid, Some seg, Some sid) \<Rightarrow>
                 Some \<lparr>tctx_trace_id = tid, tctx_trace_segment_id = seg, tctx_span_id = sid\<rparr>
             | _ \<Rightarrow> None);
          kvs = (if lr_tags r = [] then None else Some (map kv_pair (lr_tags r)))
      in \<lparr>ld_timestamp = timestamp, ld_service = srv, ld_service_instance = inst,
          ld_endpoint = lr_endpoint r,
          ld_body = Some \<lparr>body_type = [],
            body_content =
              (case lr_record_type r of
                 TextType \<Rightarrow> Some (Text (lr_content r))
               | JsonType \<Rightarrow> Some (Json (lr_content r))
               | YamlType \<Rightarrow> Some (Yaml (lr_content r)))\<rparr>,
          ld_trace_context = trace_context, ld_tags = kvs, ld_layer = []\<rparr>)"

section \<open>Logger\<close>

record Logger =
  lg_service_name :: string
  lg_instance_name :: string

definition Logger_new :: "string \<Rightarrow> string \<Rightarrow> Logger" where
  "Logger_new srv inst = \<lparr>lg_service_name = srv, lg_instance_name = inst\<rparr>"

definition Logger_log ::
  "'r report_fn \<Rightarrow> build \<Rightarrow> SystemTime \<Rightarrow> Logger \<Rightarrow> LogRecord \<Rightarrow> 'r \<Rightarrow> ('r, unit) outcome" where
  "Logger_log report cfg now lg r =
     report (Log (convert_to_log_data cfg now (lg_service_name lg) (lg_instance_name lg) r))"

definition set_global_logger :: "Logger \<Rightarrow> Logger option \<Rightarrow> (Logger option, unit) outcome" where
  "set_global_logger lg cell =
     (case cell of
        None \<Rightarrow> (Some lg, Inr ())
      | Some l0 \<Rightarrow> (cell, Inl (Panic ''global logger has set'')))"

definition global_logger :: "Logger option \<Rightarrow> Logger res" where
  "global_logger cell =
     (case cell of Some l \<Rightarrow> Inr l | None \<Rightarrow> Inl (Panic ''global logger haven't set''))"

definition global_log ::
  "'r report_fn \<Rightarrow> build \<Rightarrow> SystemTime \<Rightarrow> Logger option \<Rightarrow> LogRecord \<Rightarrow> 'r \<Rightarrow> ('r, unit) outcome" where
  "global_log report cfg now cell r rep =
     (case global_logger cell of
        Inl p \<Rightarrow> (rep, Inl p)
      | Inr lg \<Rightarrow> Logger_log report cfg now lg r rep)"

section \<open>What a chain of builder calls amounts to\<close>

datatype record_op =
    RTime SystemTime | RIgnoreTime | REndpoint string | RTag string string
  | RTags "(string \<times> string) list" | RContext TracingContext | RSpan SpanObject
  | RType RecordType | RContent string

fun apply_record_op :: "record_op \<Rightarrow> LogRecord \<Rightarrow> LogRecord" where
  "apply_record_op (RTime t) r = custom_time t r"
| "apply_record_op RIgnoreTime r = ignore_time r"
| "apply_record_op (REndpoint e) r = LogRecord_endpoint e r"
| "apply_record_op (RTag k v) r = LogRecord_add_tag k v r"
| "apply_record_op (RTags kvs) r = LogRecord_add_tags kvs r"
| "apply_record_op (RContext tc) r = with_tracing_context tc r"
| "apply_record_op (RSpan ob) r =
     (case with_span \<lparr>sp_uid = 0, sp_obj = Some ob\<rparr> r of Inl _ \<Rightarrow> r | Inr r' \<Rightarrow> r')"
| "apply_record_op (RType t) r = LogRecord_record_type t r"
| "apply_record_op (RContent c) r = LogRecord_content c r"

definition build_record :: "record_op list \<Rightarrow> LogRecord" where
  "build_record ops = foldl (\<lambda>r op. apply_record_op op r) LogRecord_new ops"

fun op_time :: "record_op \<Rightarrow> SystemTime option" where
  "op_time (RTime t) = Some t" | "op_time _ = None"

fun op_context :: "record_op \<Rightarrow> TracingContext option" where
  "op_context (RContext tc) = Some tc" | "op_context _ = None"

fun op_span :: "record_op \<Rightarrow> SpanObject option" where
  "op_span (RSpan ob) = Some ob" | "op_span _ = None"

fun op_tags :: "record_op \<Rightarrow> (string \<times> string) list" where
  "op_tags (RTag k v) = [(k, v)]" | "op_tags (RTags kvs) = kvs" | "op_tags _ = []"

text \<open>The last call of a kind, if there was one.\<close>

definition last_some :: "('a \<Rightarrow> 'b option) \<Rightarrow> 'a list \<Rightarrow> 'b option" where
  "last_some f xs = last_opt (List.map_filter f xs)"

lemma last_some_Nil [simp]: "last_some f [] = None"
  by (simp add: last_some_def List.map_filter_def)

lemma last_some_snoc [simp]:
  "last_some f (xs @ [x]) = (case f x of Some y \<Rightarrow> Some y | None \<Rightarrow> last_some f xs)"
  by (auto simp: last_some_def List.map_filter_def split: option.splits)

lemma build_record_snoc: "build_record (ops @ [op]) = apply_record_op op (build_record ops)"
  by (simp add: build_record_def)

lemmas record_defs =
  custom_time_def ignore_time_def LogRecord_endpoint_def LogRecord_add_tag_def
  LogRecord_add_tags_def with_tracing_context_def with_span_def LogRecord_record_type_def
  LogRecord_content_def handle_span_id_def span_object_def

lemma build_record_fields:
  "lr_time (build_record ops) = last_some op_time ops"
  "lr_is_ignore_time (build_record ops) = (RIgnoreTime \<in> set ops)"
  "lr_tags (build_record ops) = concat (map op_tags ops)"
  "lr_trace_id (build_record ops) = map_option tc_trace_id (last_some op_context ops)"
  "lr_trace_segment_id (build_record ops) = map_option tc_trace_segment_id (last_some op_context ops)"
  "lr_span_id (build_record ops) = map_option span_id (last_some op_span ops)"
proof (induction ops rule: rev_induct)
  case Nil
  { case 1 show ?case by (simp add: build_record_def LogRecord_new_def) }
  { case 2 show ?case by (simp add: build_record_def LogRecord_new_def) }
  { case 3 show ?case by (simp add: build_record_def LogRecord_new_def) }
  { case 4 show ?case by (simp add: build_record_def LogRecord_new_def) }
  { case 5 show ?case by (simp add: build_record_def LogRecord_new_def) }
  { case 6 show ?case by (simp add: build_record_def LogRecord_new_def) }
next
  case (snoc op ops)
  { case 1 from snoc(1) show ?case by (cases op) (simp_all add: build_record_snoc record_defs) }
  { case 2 from snoc(2) show ?case by (cases op) (simp_all add: build_record_snoc record_defs) }
  { case 3 from snoc(3) show ?case by (cases op) (simp_all add: build_record_snoc record_defs) }
  { case 4 from snoc(4) show ?case by (cases op) (simp_all add: build_record_snoc record_defs) }
  { case 5 from snoc(5) show ?case by (cases op) (simp_all add: build_record_snoc record_defs) }
  { case 6 from snoc(6) show ?case by (cases op) (simp_all add: build_record_snoc record_defs) }
qed

text \<open>C35. A log record names its span only when it can: for any chain of builder calls, the log data
  carries a trace context exactly when both a tracing context and a span were given, in either
  order, and then it is the trace and segment id of the last context and the id of the last span;
  the tags are all tags given, in order; the timestamp is 0 when time is to be ignored, the custom
  time if one was given (0 if it lies before the epoch), and the clock otherwise.\<close>

theorem log_data_of_builder_calls:
  "ld_trace_context (convert_to_log_data cfg now srv inst (build_record ops)) =
     (case (last_some op_context ops, last_some op_span ops) of
        (Some tc, Some ob) \<Rightarrow> Some \<lparr>tctx_trace_id = tc_trace_id tc,
          tctx_trace_segment_id = tc_trace_segment_id tc, tctx_span_id = span_id ob\<rparr>
      | _ \<Rightarrow> None) \<and>
   (case ld_tags (convert_to_log_data cfg now srv inst (build_record ops)) of
      None \<Rightarrow> [] | Some kvs \<Rightarrow> kvs) = map kv_pair (concat (map op_tags ops)) \<and>
   ld_timestamp (convert_to_log_data cfg now srv inst (build_record ops)) =
     (if RIgnoreTime \<in> set ops then 0
      else case last_some op_time ops of Some t \<Rightarrow> millis_i64 t | None \<Rightarrow> fetch_time cfg now PLog)"
proof (intro conjI)
  show "ld_trace_context (convert_to_log_data cfg now srv inst (build_record ops)) =
     (case (last_some op_context ops, last_some op_span ops) of
        (Some tc, Some ob) \<Rightarrow> Some \<lparr>tctx_trace_id = tc_trace_id tc,
          tctx_trace_segment_id = tc_trace_segment_id tc, tctx_span_id = span_id ob\<rparr>
      | _ \<Rightarrow> None)"
    by (simp add: convert_to_log_data_def build_record_fields Let_def split: option.splits)
  show "(case ld_tags (convert_to_log_data cfg now srv inst (build_record ops)) of
      None \<Rightarrow> [] | Some kvs \<Rightarrow> kvs) = map kv_pair (concat (map op_tags ops))"
    by (cases "concat (map op_tags ops)")
      (simp_all add: convert_to_log_data_def build_record_fields Let_def del: concat_eq_Nil_conv)
  show "ld_timestamp (convert_to_log_data cfg now srv inst (build_record ops)) =
     (if RIgnoreTime \<in> set ops then 0
      else case last_some op_time ops of Some t \<Rightarrow> millis_i64 t | None \<Rightarrow> fetch_time cfg now PLog)"
    by (simp add: convert_to_log_data_def build_record_fields Let_def)
qed

text \<open>Logging delivers: with an accepting reporter behind it, a logger (and the process-wide one
  once it is set) turns each record into exactly one \<open>Log\<close> item under its service and instance;
  before the global logger is set, \<open>log\<close> panics and reports nothing, and it can be set only once.\<close>

theorem logger_reports_each_record_once:
  assumes "reporter report delivered accepting" and "accepting r"
  shows "(\<exists>r'. global_log report cfg now (fst (set_global_logger lg None)) rec r = (r', Inr ()) \<and>
      accepting r' \<and>
      delivered r' = delivered r @
        [Log (convert_to_log_data cfg now (lg_service_name lg) (lg_instance_name lg) rec)]) \<and>
    global_log report cfg now None rec r = (r, Inl (Panic ''global logger haven't set'')) \<and>
    set_global_logger lg' (fst (set_global_logger lg None)) =
      (Some lg, Inl (Panic ''global logger has set''))"
  using reporter.report_accepting [OF assms]
  by (auto simp: global_log_def global_logger_def set_global_logger_def Logger_log_def)

theorem logger_reports_each_record_once_witness:
  "let pc = (PrintReporter_new, \<lparr>stdout_lines = [], stderr_lines = []\<rparr>);
       lg = Logger_new ''s'' ''i''; cfg = \<lparr>overflow_checks = True, mock = True\<rparr> in
   (\<exists>r'. global_log PrintReporter_report cfg 0 (fst (set_global_logger lg None)) LogRecord_new pc =
       (r', Inr ()) \<and>
     printed r' = printed pc @ [Log (convert_to_log_data cfg 0 (lg_service_name lg) (lg_instance_name lg) LogRecord_new)])"
  unfolding Let_def using logger_reports_each_record_once [OF print.reporter_axioms TrueI] by blast

end
