(* ===== verification/Channel.thy ===== *)
theory Channel
  imports Reporter Errors
begin

text \<open>
  The channels between the agent's threads and its background tasks.  \<open>tokio::sync::mpsc\<close> is not
  part of the repository: a channel is a record of its operations on a state of any type, and the
  locale \<open>mpsc_channel\<close> states what its documentation says of them.  A queue kept as a list is an
  instance.  On top of it are the traits \<open>CollectItemProduce\<close> and \<open>CollectItemConsume\<close> of
  \<^verbatim>\<open>src/src/reporter/mod.rs\<close> with their implementations for \<open>()\<close> and the two kinds of channel ends.
\<close>

section \<open>The interface of tokio's mpsc\<close>

datatype try_send_result = SendOk | SendFull | SendClosed

datatype 'i try_recv_result = RecvItem 'i | RecvEmpty | RecvDisconnected

text \<open>\<open>mp_send\<close> is \<open>UnboundedSender::send\<close>; \<open>mp_blocking_send\<close> gives \<open>None\<close> while it blocks; \<open>mp_poll_recv\<close>
  is what awaiting \<open>recv()\<close> polls.\<close>

record ('q, 'i) mpsc =
  mp_send :: "'i \<Rightarrow> 'q \<Rightarrow> 'q \<times> bool"
  mp_blocking_send :: "'i \<Rightarrow> 'q \<Rightarrow> 'q \<times> bool option"
  mp_try_send :: "'i \<Rightarrow> 'q \<Rightarrow> 'q \<times> try_send_result"
  mp_try_recv :: "'q \<Rightarrow> 'q \<times> 'i try_recv_result"
  mp_poll_recv :: "'q \<Rightarrow> 'q \<times> 'i option poll"
  mp_drop_rx :: "'q \<Rightarrow> 'q"
  mp_drop_tx :: "'q \<Rightarrow> 'q"

locale mpsc_channel =
  fixes ch :: "('q, 'i) mpsc"
    and contents :: "'q \<Rightarrow> 'i list"
    and rx_alive :: "'q \<Rightarrow> bool"
    and tx_alive :: "'q \<Rightarrow> bool"
    and room :: "'q \<Rightarrow> bool"
  assumes send_result: "snd (mp_send ch x q) = rx_alive q"
    and send_contents: "contents (fst (mp_send ch x q)) = contents q @ (if rx_alive q then [x] else [])"
    and send_alive: "rx_alive (fst (mp_send ch x q)) = rx_alive q" "tx_alive (fst (mp_send ch x q)) = tx_alive q"
    and blocking_send_result:
      "snd (mp_blocking_send ch x q) = (if \<not> rx_alive q then Some False else if room q then Some True else None)"
    and blocking_send_contents:
      "contents (fst (mp_blocking_send ch x q)) = contents q @ (if rx_alive q \<and> room q then [x] else [])"
    and try_send_result:
      "snd (mp_try_send ch x q) = (if \<not> rx_alive q then SendClosed else if room q then SendOk else SendFull)"
    and try_send_contents:
      "contents (fst (mp_try_send ch x q)) = contents q @ (if rx_alive q \<and> room q then [x] else [])"
    and try_send_alive:
      "rx_alive (fst (mp_try_send ch x q)) = rx_alive q" "tx_alive (fst (mp_try_send ch x q)) = tx_alive q"
    and try_recv_result:
      "snd (mp_try_recv ch q) =
        (case contents q of x # xs \<Rightarrow> RecvItem x | [] \<Rightarrow> if tx_alive q then RecvEmpty else RecvDisconnected)"
    and try_recv_contents: "contents (fst (mp_try_recv ch q)) = tl (contents q)"
    and try_recv_alive:
      "rx_alive (fst (mp_try_recv ch q)) = rx_alive q" "tx_alive (fst (mp_try_recv ch q)) = tx_alive q"
    and poll_recv_result:
      "snd (mp_poll_recv ch q) =
        (case contents q of x # xs \<Rightarrow> Ready (Some x) | [] \<Rightarrow> if tx_alive q then Pending else Ready None)"
    and poll_recv_contents: "contents (fst (mp_poll_recv ch q)) = tl (contents q)"
    and poll_recv_alive:
      "rx_alive (fst (mp_poll_recv ch q)) = rx_alive q" "tx_alive (fst (mp_poll_recv ch q)) = tx_alive q"
    and drop_rx: "contents (mp_drop_rx ch q) = []" "\<not> rx_alive (mp_drop_rx ch q)"
      "tx_alive (mp_drop_rx ch q) = tx_alive q"
    and drop_tx: "contents (mp_drop_tx ch q) = contents q" "rx_alive (mp_drop_tx ch q) = rx_alive q"
      "\<not> tx_alive (mp_drop_tx ch q)"
begin

lemmas laws [chan_simps] =
  send_result send_contents send_alive blocking_send_result blocking_send_contents try_send_result
  try_send_contents try_send_alive try_recv_result try_recv_contents try_recv_alive
  poll_recv_result poll_recv_contents poll_recv_alive drop_rx drop_tx

end

section \<open>A channel as a list\<close>

record 'i list_chan =
  lc_items :: "'i list"
  lc_capacity :: "nat option"
  lc_rx :: bool
  lc_tx :: bool

definition lc_room :: "'i list_chan \<Rightarrow> bool" where
  "lc_room q \<longleftrightarrow> (case lc_capacity q of None \<Rightarrow> True | Some n \<Rightarrow> length (lc_items q) < n)"

definition lc_push :: "'i \<Rightarrow> 'i list_chan \<Rightarrow> 'i list_chan" where
  "lc_push x q = q\<lparr>lc_items := lc_items q @ [x]\<rparr>"

definition list_mpsc :: "('i list_chan, 'i) mpsc" where
  "list_mpsc =
     \<lparr>mp_send = (\<lambda>x q. if lc_rx q then (lc_push x q, True) else (q, False)),
      mp_blocking_send = (\<lambda>x q. if \<not> lc_rx q then (q, Some False)
         else if lc_room q then (lc_push x q, Some True) else (q, None)),
      mp_try_send = (\<lambda>x q. if \<not> lc_rx q then (q, SendClosed)
         else if lc_room q then (lc_push x q, SendOk) else (q, SendFull)),
      mp_try_recv = (\<lambda>q. case lc_items q of
         x # xs \<Rightarrow> (q\<lparr>lc_items := xs\<rparr>, RecvItem x)
       | [] \<Rightarrow> (q, if lc_tx q then RecvEmpty else RecvDisconnected)),
      mp_poll_recv = (\<lambda>q. case lc_items q of
         x # xs \<Rightarrow> (q\<lparr>lc_items := xs\<rparr>, Ready (Some x))
       | [] \<Rightarrow> (q, if lc_tx q then Pending else Ready None)),
      mp_drop_rx = (\<lambda>q. q\<lparr>lc_items := [], lc_rx := False\<rparr>),
      mp_drop_tx = (\<lambda>q. q\<lparr>lc_tx := False\<rparr>)\<rparr>"

definition channel_new :: "nat option \<Rightarrow> 'i list_chan" where
  "channel_new cap = \<lparr>lc_items = [], lc_capacity = cap, lc_rx = True, lc_tx = True\<rparr>"

interpretation lc: mpsc_channel list_mpsc lc_items lc_rx lc_tx lc_room
  by unfold_locales (simp_all add: list_mpsc_def lc_push_def split: list.splits)

section \<open>CollectItemProduce and CollectItemConsume\<close>

type_synonym 'q produce_fn = "CollectItem \<Rightarrow> 'q \<Rightarrow> ('q, string + unit) outcome"

type_synonym ConsumeResult = "string + CollectItem option"

text \<open>\<open>cs_drop\<close> drops the consumer, \<open>cs_disconnect\<close> the last producer.\<close>

record 'q consume_ops =
  cs_consume :: "'q \<Rightarrow> 'q \<times> ConsumeResult poll"
  cs_try_consume :: "'q \<Rightarrow> 'q \<times> ConsumeResult"
  cs_drop :: "'q \<Rightarrow> 'q"
  cs_disconnect :: "'q \<Rightarrow> 'q"

definition unit_produce :: "'q produce_fn" where
  "unit_produce item q = (q, Inr (Inr ()))"

text \<open>\<open>CollectItemProduce for mpsc::UnboundedSender\<close>.\<close>

definition UnboundedSender_produce :: "('q, CollectItem) mpsc \<Rightarrow> 'q produce_fn" where
  "UnboundedSender_produce ch item q =
     (case mp_send ch item q of (q', ok) \<Rightarrow>
        (q', Inr (if ok then Inr () else Inl ''channel closed'')))"

text \<open>\<open>CollectItemProduce for mpsc::Sender\<close>: \<open>blocking_send\<close> panics on a thread that runs an
  asynchronous task, and otherwise blocks while the channel is full: \<open>None\<close> is a call that has not
  returned yet.\<close>

definition Sender_produce ::
  "bool \<Rightarrow> ('q, CollectItem) mpsc \<Rightarrow> CollectItem \<Rightarrow> 'q \<Rightarrow> ('q, string + unit) outcome option" where
  "Sender_produce in_async ch item q =
     (if in_async then
        Some (q, Inl (Panic ''Cannot block the current thread from within a runtime.''))
      else
        (case mp_blocking_send ch item q of
           (q', None) \<Rightarrow> None
         | (q', Some ok) \<Rightarrow> Some (q', Inr (if ok then Inr () else Inl ''channel closed''))))"

definition unit_consume :: "'q consume_ops" where
  "unit_consume =
     \<lparr>cs_consume = (\<lambda>q. (q, Ready (Inr None))), cs_try_consume = (\<lambda>q. (q, Inr None)), cs_drop = id,
      cs_disconnect = id\<rparr>"

definition Receiver_consume :: "('q, CollectItem) mpsc \<Rightarrow> 'q \<Rightarrow> 'q \<times> ConsumeResult poll" where
  "Receiver_consume ch q =
     (case mp_poll_recv ch q of
        (q', Pending) \<Rightarrow> (q', Pending)
      | (q', Ready i) \<Rightarrow> (q', Ready (Inr i)))"

definition Receiver_try_consume :: "('q, CollectItem) mpsc \<Rightarrow> 'q \<Rightarrow> 'q \<times> ConsumeResult" where
  "Receiver_try_consume ch q =
     (case mp_try_recv ch q of
        (q', RecvItem item) \<Rightarrow> (q', Inr (Some item))
      | (q', RecvEmpty) \<Rightarrow> (q', Inr None)
      | (q', RecvDisconnected) \<Rightarrow> (q', Inl ''receiving on a closed channel''))"

text \<open>\<open>CollectItemConsume\<close> for \<open>mpsc::Receiver\<close> and, with the same text, \<open>mpsc::UnboundedReceiver\<close>.\<close>

definition Receiver_ops :: "('q, CollectItem) mpsc \<Rightarrow> 'q consume_ops" where
  "Receiver_ops ch =
     \<lparr>cs_consume = Receiver_consume ch, cs_try_consume = Receiver_try_consume ch, cs_drop = mp_drop_rx ch,
      cs_disconnect = mp_drop_tx ch\<rparr>"

text \<open>
  What the background task of a reporter relies on: an abstract queue, from which \<open>consume\<close> and
  \<open>try_consume\<close> take the oldest item, and to which a \<open>produce\<close> that returns \<open>Ok\<close> has added its item.
\<close>

locale collect_queue =
  fixes produce :: "'q produce_fn"
    and ops :: "'q consume_ops"
    and items :: "'q \<Rightarrow> CollectItem list"
    and attached :: "'q \<Rightarrow> bool"
    and connected :: "'q \<Rightarrow> bool"
  assumes produce_result:
      "snd (produce x q) = Inr (if attached q then Inr () else Inl ''channel closed'')"
    and produce_items: "items (fst (produce x q)) = items q @ (if attached q then [x] else [])"
    and produce_flags: "attached (fst (produce x q)) = attached q" "connected (fst (produce x q)) = connected q"
    and consume_result:
      "snd (cs_consume ops q) =
        (case items q of x # xs \<Rightarrow> Ready (Inr (Some x))
         | [] \<Rightarrow> if connected q then Pending else Ready (Inr None))"
    and consume_items: "items (fst (cs_consume ops q)) = tl (items q)"
    and consume_flags: "attached (fst (cs_consume ops q)) = attached q"
      "connected (fst (cs_consume ops q)) = connected q"
    and try_consume_result:
      "snd (cs_try_consume ops q) =
        (case items q of x # xs \<Rightarrow> Inr (Some x)
         | [] \<Rightarrow> if connected q then Inr None else Inl ''receiving on a closed channel'')"
    and try_consume_items: "items (fst (cs_try_consume ops q)) = tl (items q)"
    and try_consume_flags: "attached (fst (cs_try_consume ops q)) = attached q"
      "connected (fst (cs_try_consume ops q)) = connected q"
    and drop_items: "items (cs_drop ops q) = []"
    and drop_flags: "\<not> attached (cs_drop ops q)" "connected (cs_drop ops q) = connected q"
    and disconnect_items: "items (cs_disconnect ops q) = items q"
    and disconnect_flags: "attached (cs_disconnect ops q) = attached q" "\<not> connected (cs_disconnect ops q)"
begin

lemmas queue_laws [chan_simps] =
  produce_result produce_items produce_flags consume_result consume_items consume_flags
  try_consume_result try_consume_items try_consume_flags drop_items drop_flags disconnect_items disconnect_flags

lemma produce_cases:
  obtains q' where "produce x q = (q', Inr (if attached q then Inr () else Inl ''channel closed''))"
    and "items q' = items q @ (if attached q then [x] else [])"
    and "attached q' = attached q" and "connected q' = connected q"
  by (metis prod.collapse produce_flags produce_items produce_result)

lemma produce_attached:
  assumes "attached q"
  shows "\<exists>q'. produce x q = (q', Inr (Inr ())) \<and> items q' = items q @ [x] \<and> attached q' \<and> connected q' = connected q"
  by (rule produce_cases [of x q]) (use assms in simp)

end

text \<open>The unbounded channel gives such a queue.\<close>

lemma unbounded_collect_queue:
  assumes "mpsc_channel ch contents rx_alive tx_alive room"
  shows "collect_queue (UnboundedSender_produce ch) (Receiver_ops ch) contents rx_alive tx_alive"
proof -
  note laws = mpsc_channel.laws [OF assms]
  show ?thesis
    by unfold_locales
      (simp_all add: UnboundedSender_produce_def Receiver_ops_def Receiver_consume_def
        Receiver_try_consume_def laws case_prod_beta split: list.splits)
qed

interpretation uq: collect_queue "UnboundedSender_produce list_mpsc" "Receiver_ops list_mpsc"
    lc_items lc_rx lc_tx
  by (rule unbounded_collect_queue) (rule lc.mpsc_channel_axioms)

end
