(* ===== verification/Report_Loop.thy ===== *)
theory Report_Loop
  imports Channel
begin

text \<open>
  The part the gRPC and the Kafka reporter have in common: application threads call \<open>report\<close>, which
  looks at the closing flag and then produces into a queue; a background task consumes the queue
  and dispatches the items until a shutdown signal comes or the queue ends, then sets the flag and
  flushes.  One step of the machine is one such action of one thread; the steps of all threads
  interleave freely.
\<close>

section \<open>The machine\<close>

text \<open>
  \<open>Ending\<close>: the work future is about to return, its queue end not dropped yet.  \<open>Signalled\<close>: the
  shutdown future has completed.  \<open>lp_calls\<close> are the calls of \<open>report\<close> that have found the flag unset
  and have not produced yet; \<open>lp_reporters\<close>: a clone of the reporter is still alive.
\<close>

datatype work_phase = Working | Flushing | Ending "unit sw_result" | WorkDone "unit sw_result"

datatype signal_phase = AwaitingSignal | Signalled "unit sw_result"

record ('q, 'd) Loop =
  lp_queue :: 'q
  lp_sink :: 'd
  lp_closing :: bool
  lp_phase :: work_phase
  lp_signal :: signal_phase
  lp_calls :: "CollectItem list"
  lp_err_calls :: "(string \<times> string) list"
  lp_reporters :: bool

text \<open>\<open>dispatch\<close> hands one item on; what it meets outside (a gRPC call, the Kafka client) is decided by
  the \<open>string + unit\<close> of the event: \<open>Inl\<close> is an error.\<close>

datatype loop_event =
    ReportCheck CollectItem
  | ReportProduce nat
  | Consume "string + unit"
  | RecvShutdown
  | Flush "string + unit"
  | DropConsumer
  | ShutdownSignal
  | DropReporters

text \<open>What an outside observer sees.\<close>

datatype loop_out = Refused CollectItem | Accepted CollectItem | Failed CollectItem | Dispatched CollectItem

type_synonym ('q, 'd) loop_next = "(('q, 'd) Loop \<times> loop_out list) option"

definition report_check :: "CollectItem \<Rightarrow> ('q, 'd) Loop \<Rightarrow> ('q, 'd) loop_next" where
  "report_check item s =
     (if lp_reporters s
      then Some (if lp_closing s then (s, [Refused item]) else (s\<lparr>lp_calls := lp_calls s @ [item]\<rparr>, []))
      else None)"

definition report_produce :: "'q produce_fn \<Rightarrow> nat \<Rightarrow> ('q, 'd) Loop \<Rightarrow> ('q, 'd) loop_next" where
  "report_produce produce i s =
     (if i < length (lp_calls s) then
        let item = lp_calls s ! i; s1 = s\<lparr>lp_calls := remove_nth i (lp_calls s)\<rparr> in
        (case produce item (lp_queue s) of
           (q', Inr (Inr _)) \<Rightarrow> Some (s1\<lparr>lp_queue := q'\<rparr>, [Accepted item])
         | (q', Inr (Inl e)) \<Rightarrow>
             Some (s1\<lparr>lp_queue := q', lp_err_calls := lp_err_calls s @ [(''report collect item failed'', e)]\<rparr>,
                   [Failed item])
         | (q', Inl p) \<Rightarrow> Some (s1\<lparr>lp_queue := q'\<rparr>, [Failed item]))
      else None)"

text \<open>The last clone of the reporter is dropped, and with it the producer; a call of \<open>report\<close> borrows its
  reporter, so that none is under way.\<close>

definition drop_reporters :: "'q consume_ops \<Rightarrow> ('q, 'd) Loop \<Rightarrow> ('q, 'd) loop_next" where
  "drop_reporters ops s =
     (if lp_reporters s \<and> lp_calls s = []
      then Some (s\<lparr>lp_queue := cs_disconnect ops (lp_queue s), lp_reporters := False\<rparr>, []) else None)"

text \<open>The first loop: \<open>select!\<close> between the queue and the shutdown message.\<close>

definition work_consume ::
  "((string + unit) \<Rightarrow> CollectItem \<Rightarrow> 'd \<Rightarrow> 'd) \<Rightarrow> 'q consume_ops \<Rightarrow> (string + unit) \<Rightarrow>
   ('q, 'd) Loop \<Rightarrow> ('q, 'd) loop_next" where
  "work_consume dispatch ops net s =
     (if lp_phase s = Working then
        (case cs_consume ops (lp_queue s) of
           (q', Pending) \<Rightarrow> None
         | (q', Ready (Inr (Some item))) \<Rightarrow>
             Some (s\<lparr>lp_queue := q', lp_sink := dispatch net item (lp_sink s)\<rparr>, [Dispatched item])
         | (q', Ready (Inr None)) \<Rightarrow>
             Some (s\<lparr>lp_queue := q', lp_closing := True, lp_phase := Flushing\<rparr>, [])
         | (q', Ready (Inl e)) \<Rightarrow> Some (s\<lparr>lp_queue := q', lp_phase := Ending (Inl (Other e))\<rparr>, []))
      else None)"

definition work_shutdown :: "('q, 'd) Loop \<Rightarrow> ('q, 'd) loop_next" where
  "work_shutdown s =
     (if lp_phase s = Working \<and> lp_signal s = Signalled (Inr ())
      then Some (s\<lparr>lp_closing := True, lp_phase := Flushing\<rparr>, []) else None)"

text \<open>The second loop.\<close>

definition work_flush ::
  "((string + unit) \<Rightarrow> CollectItem \<Rightarrow> 'd \<Rightarrow> 'd) \<Rightarrow> 'q consume_ops \<Rightarrow> (string + unit) \<Rightarrow>
   ('q, 'd) Loop \<Rightarrow> ('q, 'd) loop_next" where
  "work_flush dispatch ops net s =
     (if lp_phase s = Flushing then
        (case cs_try_consume ops (lp_queue s) of
           (q', Inr (Some item)) \<Rightarrow>
             Some (s\<lparr>lp_queue := q', lp_sink := dispatch net item (lp_sink s)\<rparr>, [Dispatched item])
         | (q', Inr None) \<Rightarrow> Some (s\<lparr>lp_queue := q', lp_phase := Ending (Inr ())\<rparr>, [])
         | (q', Inl e) \<Rightarrow> Some (s\<lparr>lp_queue := q', lp_phase := Ending (Inl (Other e))\<rparr>, []))
      else None)"

definition work_end :: "'q consume_ops \<Rightarrow> ('q, 'd) Loop \<Rightarrow> ('q, 'd) loop_next" where
  "work_end ops s =
     (case lp_phase s of
        Ending r \<Rightarrow> Some (s\<lparr>lp_queue := cs_drop ops (lp_queue s), lp_phase := WorkDone r\<rparr>, [])
      | _ \<Rightarrow> None)"

text \<open>The result of \<open>try_join!\<close>: the first error, or \<open>Ok\<close> when both futures have returned.\<close>

definition loop_result :: "('q, 'd) Loop \<Rightarrow> unit sw_result option" where
  "loop_result s =
     (case (lp_phase s, lp_signal s) of
        (WorkDone (Inl e), _) \<Rightarrow> Some (Inl e)
      | (_, Signalled (Inl e)) \<Rightarrow> Some (Inl e)
      | (WorkDone (Inr _), Signalled (Inr _)) \<Rightarrow> Some (Inr ())
      | _ \<Rightarrow> None)"

text \<open>The shutdown future: once the signal is there, a message goes to the work future, whose receiver
  is gone when that future has returned.\<close>

definition shutdown_signal :: "('q, 'd) Loop \<Rightarrow> ('q, 'd) loop_next" where
  "shutdown_signal s =
     (if lp_signal s = AwaitingSignal \<and> loop_result s = None then
        Some (s\<lparr>lp_signal := Signalled (case lp_phase s of
                  WorkDone _ \<Rightarrow> Inl (Other ''channel closed'') | _ \<Rightarrow> Inr ())\<rparr>, [])
      else None)"

fun loop_step ::
  "'q produce_fn \<Rightarrow> 'q consume_ops \<Rightarrow> ((string + unit) \<Rightarrow> CollectItem \<Rightarrow> 'd \<Rightarrow> 'd) \<Rightarrow> loop_event \<Rightarrow>
   ('q, 'd) Loop \<Rightarrow> ('q, 'd) loop_next" where
  "loop_step produce ops dispatch (ReportCheck item) s = report_check item s"
| "loop_step produce ops dispatch (ReportProduce i) s = report_produce produce i s"
| "loop_step produce ops dispatch (Consume net) s = work_consume dispatch ops net s"
| "loop_step produce ops dispatch RecvShutdown s = work_shutdown s"
| "loop_step produce ops dispatch (Flush net) s = work_flush dispatch ops net s"
| "loop_step produce ops dispatch DropConsumer s = work_end ops s"
| "loop_step produce ops dispatch ShutdownSignal s = shutdown_signal s"
| "loop_step produce ops dispatch DropReporters s = drop_reporters ops s"

fun loop_run ::
  "'q produce_fn \<Rightarrow> 'q consume_ops \<Rightarrow> ((string + unit) \<Rightarrow> CollectItem \<Rightarrow> 'd \<Rightarrow> 'd) \<Rightarrow> loop_event list \<Rightarrow>
   ('q, 'd) Loop \<Rightarrow> ('q, 'd) loop_next" where
  "loop_run produce ops dispatch [] s = Some (s, [])"
| "loop_run produce ops dispatch (ev # evs) s =
     (case loop_step produce ops dispatch ev s of
        None \<Rightarrow> None
      | Some (s1, out1) \<Rightarrow>
          (case loop_run produce ops dispatch evs s1 of
             None \<Rightarrow> None
           | Some (s2, out2) \<Rightarrow> Some (s2, out1 @ out2)))"

definition loop_start :: "'q \<Rightarrow> 'd \<Rightarrow> ('q, 'd) Loop" where
  "loop_start q d =
     \<lparr>lp_queue = q, lp_sink = d, lp_closing = False, lp_phase = Working, lp_signal = AwaitingSignal,
      lp_calls = [], lp_err_calls = [], lp_reporters = True\<rparr>"

section \<open>Observations\<close>

definition accepted :: "loop_out list \<Rightarrow> CollectItem list" where
  "accepted outs = concat (map (\<lambda>out. case out of Accepted x \<Rightarrow> [x] | _ \<Rightarrow> []) outs)"

definition dispatched :: "loop_out list \<Rightarrow> CollectItem list" where
  "dispatched outs = concat (map (\<lambda>out. case out of Dispatched x \<Rightarrow> [x] | _ \<Rightarrow> []) outs)"

definition failed :: "loop_out list \<Rightarrow> CollectItem list" where
  "failed outs = concat (map (\<lambda>out. case out of Failed x \<Rightarrow> [x] | _ \<Rightarrow> []) outs)"

lemma observe_append [simp]:
  "accepted (xs @ ys) = accepted xs @ accepted ys"
  "dispatched (xs @ ys) = dispatched xs @ dispatched ys"
  "failed (xs @ ys) = failed xs @ failed ys"
  by (simp_all add: accepted_def dispatched_def failed_def)

lemma observe_simps [simp]:
  "accepted [] = []" "dispatched [] = []" "failed [] = []"
  "accepted [Accepted x] = [x]" "accepted [Dispatched x] = []" "accepted [Refused x] = []" "accepted [Failed x] = []"
  "dispatched [Accepted x] = []" "dispatched [Dispatched x] = [x]" "dispatched [Refused x] = []" "dispatched [Failed x] = []"
  "failed [Accepted x] = []" "failed [Dispatched x] = []" "failed [Refused x] = []" "failed [Failed x] = [x]"
  by (simp_all add: accepted_def dispatched_def failed_def)

lemma loop_run_append:
  "loop_run produce ops dispatch (xs @ ys) s =
   (case loop_run produce ops dispatch xs s of
      None \<Rightarrow> None
    | Some (s1, o1) \<Rightarrow>
        (case loop_run produce ops dispatch ys s1 of None \<Rightarrow> None | Some (s2, o2) \<Rightarrow> Some (s2, o1 @ o2)))"
  by (induction xs arbitrary: s) (auto split: option.splits prod.splits)

definition is_done :: "work_phase \<Rightarrow> bool" where
  "is_done ph \<longleftrightarrow> (case ph of WorkDone _ \<Rightarrow> True | _ \<Rightarrow> False)"

definition is_ending :: "work_phase \<Rightarrow> bool" where
  "is_ending ph \<longleftrightarrow> (case ph of Ending _ \<Rightarrow> True | WorkDone _ \<Rightarrow> True | _ \<Rightarrow> False)"

lemma phase_tests [simp]:
  "\<not> is_done Working" "\<not> is_done Flushing" "\<not> is_done (Ending r)" "is_done (WorkDone r)"
  "\<not> is_ending Working" "\<not> is_ending Flushing" "is_ending (Ending r)" "is_ending (WorkDone r)"
  by (simp_all add: is_done_def is_ending_def)

text \<open>
  The flush loop is over in \<open>s\<close>, and \<open>outs'\<close> is what was seen since: everything accepted until then had been
  dispatched, nothing is dispatched any more, and what is still accepted comes from calls of \<open>report\<close> that
  had found the flag unset and not yet produced.
\<close>

definition flushed :: "CollectItem list \<Rightarrow> ('q, 'd) Loop \<Rightarrow> loop_out list \<Rightarrow> loop_out list \<Rightarrow> bool" where
  "flushed before s outs outs' \<longleftrightarrow> is_ending (lp_phase s) \<and> lp_closing s \<and> before @ accepted outs = dispatched outs \<and>
     dispatched outs' = [] \<and> mset (accepted outs') \<subseteq># mset (lp_calls s)"

section \<open>Invariants\<close>

text \<open>
  \<open>before\<close> is what the queue held at the start.  Until the work future drops its end of the queue,
  what was accepted is what was dispatched followed by what is queued; afterwards a rest may be
  missing.  Every item that could not be queued has been reported to the error handler.
\<close>

context collect_queue
begin

definition loop_inv :: "CollectItem list \<Rightarrow> loop_out list \<Rightarrow> ('q, 'd) Loop \<Rightarrow> bool" where
  "loop_inv before outs s \<longleftrightarrow>
     attached (lp_queue s) = (\<not> is_done (lp_phase s)) \<and>
     lp_closing s = (lp_phase s \<noteq> Working) \<and>
     length (lp_err_calls s) = length (failed outs) \<and>
     (\<not> is_done (lp_phase s) \<longrightarrow> before @ accepted outs = dispatched outs @ items (lp_queue s)) \<and>
     (\<exists>rest. before @ accepted outs = dispatched outs @ rest)"

lemma work_consume_cases:
  assumes "work_consume dispatch ops net s = Some (s', out)"
  shows "lp_phase s = Working \<and>
    ((\<exists>x xs. items (lp_queue s) = x # xs \<and> out = [Dispatched x] \<and>
        s' = s\<lparr>lp_queue := fst (cs_consume ops (lp_queue s)), lp_sink := dispatch net x (lp_sink s)\<rparr>) \<or>
     (items (lp_queue s) = [] \<and> \<not> connected (lp_queue s) \<and> out = [] \<and>
        s' = s\<lparr>lp_queue := fst (cs_consume ops (lp_queue s)), lp_closing := True, lp_phase := Flushing\<rparr>))"
  using assms consume_result [of "lp_queue s"]
  by (cases "cs_consume ops (lp_queue s)")
    (auto simp: work_consume_def split: if_splits list.splits)

lemma work_flush_cases:
  assumes "work_flush dispatch ops net s = Some (s', out)"
  shows "lp_phase s = Flushing \<and>
    ((\<exists>x xs. items (lp_queue s) = x # xs \<and> out = [Dispatched x] \<and>
        s' = s\<lparr>lp_queue := fst (cs_try_consume ops (lp_queue s)), lp_sink := dispatch net x (lp_sink s)\<rparr>) \<or>
     (items (lp_queue s) = [] \<and> out = [] \<and>
        s' = s\<lparr>lp_queue := fst (cs_try_consume ops (lp_queue s)),
               lp_phase := Ending (if connected (lp_queue s) then Inr ()
                 else Inl (Other ''receiving on a closed channel''))\<rparr>))"
  using assms try_consume_result [of "lp_queue s"]
  by (cases "cs_try_consume ops (lp_queue s)")
    (auto simp: work_flush_def split: if_splits list.splits)

lemma report_produce_cases:
  assumes "report_produce produce i s = Some (s', out)"
  shows "i < length (lp_calls s) \<and>
    (if attached (lp_queue s)
     then out = [Accepted (lp_calls s ! i)] \<and>
       s' = s\<lparr>lp_calls := remove_nth i (lp_calls s), lp_queue := fst (produce (lp_calls s ! i) (lp_queue s))\<rparr>
     else out = [Failed (lp_calls s ! i)] \<and>
       s' = s\<lparr>lp_calls := remove_nth i (lp_calls s), lp_queue := fst (produce (lp_calls s ! i) (lp_queue s)),
              lp_err_calls := lp_err_calls s @ [(''report collect item failed'', ''channel closed'')]\<rparr>)"
  using assms produce_result [of "lp_calls s ! i" "lp_queue s"]
  by (cases "produce (lp_calls s ! i) (lp_queue s)")
    (auto simp: report_produce_def Let_def split: if_splits)

lemma loop_step_inv:
  assumes "loop_inv before outs s" and "loop_step produce ops dispatch ev s = Some (s', out)"
  shows "loop_inv before (outs @ out) s'"
proof (cases ev)
  case (ReportCheck item)
  with assms show ?thesis by (auto simp: report_check_def loop_inv_def split: if_splits)
next
  case (ReportProduce i)
  with assms(2) have "report_produce produce i s = Some (s', out)" by simp
  note cases = report_produce_cases [OF this]
  show ?thesis
  proof (cases "attached (lp_queue s)")
    case True
    with assms(1) have "before @ accepted outs @ [lp_calls s ! i] =
        dispatched outs @ items (lp_queue s) @ [lp_calls s ! i]" by (simp add: loop_inv_def flip: append_assoc)
    moreover from this have "\<exists>rest. before @ accepted outs @ [lp_calls s ! i] = dispatched outs @ rest"
      by blast
    ultimately show ?thesis
      using True cases assms(1) by (simp add: loop_inv_def produce_items produce_flags)
  next
    case False
    with cases assms(1) show ?thesis by (auto simp: loop_inv_def produce_items produce_flags)
  qed
next
  case (Consume net)
  with assms(2) have "work_consume dispatch ops net s = Some (s', out)" by simp
  from work_consume_cases [OF this] assms(1) show ?thesis
    by (auto simp: loop_inv_def consume_items consume_flags)
next
  case (Flush net)
  with assms(2) have "work_flush dispatch ops net s = Some (s', out)" by simp
  from work_flush_cases [OF this] assms(1) show ?thesis
    by (auto simp: loop_inv_def try_consume_items try_consume_flags)
next
  case DropConsumer
  with assms show ?thesis
    by (auto simp: work_end_def loop_inv_def drop_flags split: work_phase.splits)
qed (use assms in \<open>auto simp: work_shutdown_def shutdown_signal_def drop_reporters_def loop_inv_def
    disconnect_items disconnect_flags split: if_splits\<close>)

lemma loop_run_inv:
  "loop_inv before outs s \<Longrightarrow> loop_run produce ops dispatch evs s = Some (s', outs') \<Longrightarrow>
   loop_inv before (outs @ outs') s'"
proof (induction evs arbitrary: s outs outs')
  case (Cons ev evs)
  then obtain s1 o1 o2 where s1: "loop_step produce ops dispatch ev s = Some (s1, o1)"
    "loop_run produce ops dispatch evs s1 = Some (s', o2)" "outs' = o1 @ o2"
    by (auto split: option.splits prod.splits)
  from Cons.IH [OF loop_step_inv [OF Cons.prems(1) s1(1)] s1(2)] s1(3) show ?case by simp
qed simp

lemma loop_start_inv: "attached q \<Longrightarrow> loop_inv (items q) [] (loop_start q d)"
  by (simp add: loop_inv_def loop_start_def)

lemma loop_fifo:
  assumes "attached q" and "loop_run produce ops dispatch evs (loop_start q d) = Some (s, outs)"
  shows "(\<exists>rest. items q @ accepted outs = dispatched outs @ rest) \<and>
    (\<not> is_done (lp_phase s) \<longrightarrow> items q @ accepted outs = dispatched outs @ items (lp_queue s)) \<and>
    length (failed outs) = length (lp_err_calls s)"
  using loop_run_inv [OF loop_start_inv [OF assms(1)] assms(2)] by (simp add: loop_inv_def)

lemma flush_is_complete:
  assumes "attached q" and "loop_run produce ops dispatch (evs @ [Flush net]) (loop_start q d) = Some (s, outs)"
    and "lp_phase s = Ending r"
  shows "items q @ accepted outs = dispatched outs \<and> lp_closing s \<and>
    (lp_reporters s \<longrightarrow> report_check x s = Some (s, [Refused x]))"
proof -
  obtain s1 o1 o2 where s1: "loop_run produce ops dispatch evs (loop_start q d) = Some (s1, o1)"
    "work_flush dispatch ops net s1 = Some (s, o2)" "outs = o1 @ o2"
    using assms(2) by (auto simp: loop_run_append split: option.splits prod.splits)
  have inv: "loop_inv (items q) outs s" using loop_run_inv [OF loop_start_inv [OF assms(1)] assms(2)] by simp
  have "items (lp_queue s) = []"
    using work_flush_cases [OF s1(2)] assms(3) by (auto simp: try_consume_items)
  with inv assms(3) show ?thesis by (simp add: loop_inv_def report_check_def)
qed

text \<open>The flush loop ends only on an empty queue; from then on nothing is dispatched and only calls that are
  under way can still be accepted.\<close>

lemma step_into_ending:
  assumes "loop_step produce ops dispatch ev s = Some (s', out)" and "\<not> is_ending (lp_phase s)" and "is_ending (lp_phase s')"
  shows "items (lp_queue s') = [] \<and> \<not> is_done (lp_phase s')"
proof (cases ev)
  case (Flush net)
  with assms(1) have "work_flush dispatch ops net s = Some (s', out)" by simp
  from work_flush_cases [OF this] assms(2,3) show ?thesis by (auto simp: try_consume_items)
next
  case (Consume net)
  with assms(1) have "work_consume dispatch ops net s = Some (s', out)" by simp
  from work_consume_cases [OF this] assms(2,3) show ?thesis by auto
next
  case (ReportProduce i)
  with assms(1) have "report_produce produce i s = Some (s', out)" by simp
  from report_produce_cases [OF this] assms(2,3) show ?thesis by (auto split: if_splits)
qed (use assms in \<open>auto simp: report_check_def work_shutdown_def work_end_def shutdown_signal_def
    drop_reporters_def split: if_splits work_phase.splits\<close>)

lemma step_when_ending:
  assumes "loop_step produce ops dispatch ev s = Some (s', out)" and "is_ending (lp_phase s)" and "lp_closing s"
  shows "is_ending (lp_phase s') \<and> lp_closing s' \<and> dispatched out = [] \<and>
    mset (accepted out) + mset (lp_calls s') \<subseteq># mset (lp_calls s)"
proof (cases ev)
  case (Flush net)
  with assms(1) have "work_flush dispatch ops net s = Some (s', out)" by simp
  from work_flush_cases [OF this] assms(2,3) show ?thesis by auto
next
  case (Consume net)
  with assms(1) have "work_consume dispatch ops net s = Some (s', out)" by simp
  from work_consume_cases [OF this] assms(2,3) show ?thesis by auto
next
  case (ReportProduce i)
  with assms(1) have "report_produce produce i s = Some (s', out)" by simp
  from report_produce_cases [OF this] assms(2,3) show ?thesis by (auto simp: mset_remove_nth split: if_splits)
qed (use assms in \<open>auto simp: report_check_def work_shutdown_def work_end_def shutdown_signal_def
    drop_reporters_def split: if_splits work_phase.splits\<close>)

lemma run_when_ending:
  "is_ending (lp_phase s) \<Longrightarrow> lp_closing s \<Longrightarrow> loop_run produce ops dispatch evs s = Some (s', outs) \<Longrightarrow>
   dispatched outs = [] \<and> mset (accepted outs) \<subseteq># mset (lp_calls s)"
proof (induction evs arbitrary: s outs)
  case (Cons ev evs)
  then obtain s1 o1 o2 where s1: "loop_step produce ops dispatch ev s = Some (s1, o1)"
    "loop_run produce ops dispatch evs s1 = Some (s', o2)" "outs = o1 @ o2"
    by (auto split: option.splits prod.splits)
  note step = step_when_ending [OF s1(1) Cons.prems(1,2)]
  with Cons.IH [of s1 o2] s1(2) have "dispatched o2 = []" "mset (accepted o2) \<subseteq># mset (lp_calls s1)" by blast+
  then have "mset (accepted o1) + mset (accepted o2) \<subseteq># mset (accepted o1) + mset (lp_calls s1)" by simp
  also have "\<dots> \<subseteq># mset (lp_calls s)" using step by blast
  finally show ?case using step s1(3) \<open>dispatched o2 = []\<close> by simp
qed simp

text \<open>A run that is past the flush loop has left it at some point.\<close>

lemma run_leaves_flush:
  "\<not> is_ending (lp_phase s) \<Longrightarrow> loop_run produce ops dispatch evs s = Some (s', outs) \<Longrightarrow> is_ending (lp_phase s') \<Longrightarrow>
   \<exists>evs1 evs2 s1 o1 o2. evs = evs1 @ evs2 \<and> loop_run produce ops dispatch evs1 s = Some (s1, o1) \<and>
     loop_run produce ops dispatch evs2 s1 = Some (s', o2) \<and> outs = o1 @ o2 \<and> is_ending (lp_phase s1) \<and>
     \<not> is_done (lp_phase s1) \<and> items (lp_queue s1) = []"
proof (induction evs arbitrary: s outs)
  case (Cons ev evs)
  then obtain sa oa ob where sa: "loop_step produce ops dispatch ev s = Some (sa, oa)"
    "loop_run produce ops dispatch evs sa = Some (s', ob)" "outs = oa @ ob"
    by (auto split: option.splits prod.splits)
  show ?case
  proof (cases "is_ending (lp_phase sa)")
    case True
    with step_into_ending [OF sa(1) Cons.prems(1)] sa show ?thesis
      by (intro exI [of _ "[ev]"] exI [of _ evs] exI [of _ sa] exI [of _ oa] exI [of _ ob]) simp
  next
    case False
    from Cons.IH [OF this sa(2) Cons.prems(3)] obtain evs1 evs2 s1 o1 o2 where
      "evs = evs1 @ evs2" "loop_run produce ops dispatch evs1 sa = Some (s1, o1)"
      "loop_run produce ops dispatch evs2 s1 = Some (s', o2)" "ob = o1 @ o2" "is_ending (lp_phase s1)"
      "\<not> is_done (lp_phase s1)" "items (lp_queue s1) = []" by blast
    with sa show ?thesis
      by (intro exI [of _ "ev # evs1"] exI [of _ evs2] exI [of _ s1] exI [of _ "oa @ o1"] exI [of _ o2]) simp
  qed
qed simp

text \<open>Nothing is lost but what overtakes the end of the flush loop.\<close>

lemma loop_accounts:
  assumes "attached q" and run: "loop_run produce ops dispatch evs (loop_start q d) = Some (s, outs)"
  shows "(\<not> is_done (lp_phase s) \<longrightarrow> items q @ accepted outs = dispatched outs @ items (lp_queue s)) \<and>
    (is_ending (lp_phase s) \<longrightarrow> (\<exists>evs1 evs2 s1 o1 o2. evs = evs1 @ evs2 \<and> outs = o1 @ o2 \<and>
       loop_run produce ops dispatch evs1 (loop_start q d) = Some (s1, o1) \<and>
       loop_run produce ops dispatch evs2 s1 = Some (s, o2) \<and> flushed (items q) s1 o1 o2)) \<and>
    length (failed outs) = length (lp_err_calls s)"
proof -
  have "\<exists>evs1 evs2 s1 o1 o2. evs = evs1 @ evs2 \<and> outs = o1 @ o2 \<and>
       loop_run produce ops dispatch evs1 (loop_start q d) = Some (s1, o1) \<and>
       loop_run produce ops dispatch evs2 s1 = Some (s, o2) \<and> flushed (items q) s1 o1 o2" if "is_ending (lp_phase s)"
  proof -
    from run_leaves_flush [OF _ run that] obtain evs1 evs2 s1 o1 o2 where split: "evs = evs1 @ evs2" "outs = o1 @ o2"
      "loop_run produce ops dispatch evs1 (loop_start q d) = Some (s1, o1)"
      "loop_run produce ops dispatch evs2 s1 = Some (s, o2)" "is_ending (lp_phase s1)" "\<not> is_done (lp_phase s1)"
      "items (lp_queue s1) = []" by (auto simp: loop_start_def)
    from loop_run_inv [OF loop_start_inv [OF assms(1)] split(3)] split(5-7)
    have "items q @ accepted o1 = dispatched o1" "lp_closing s1" by (auto simp: loop_inv_def)
    with run_when_ending [OF split(5) _ split(4)] split(5) have "flushed (items q) s1 o1 o2" by (simp add: flushed_def)
    with split(1-4) show ?thesis by blast
  qed
  with loop_fifo [OF assms] show ?thesis by blast
qed

text \<open>Once closing with no call under way, nothing is accepted any more.\<close>

lemma closed_run_accepts_nothing:
  "lp_closing s \<Longrightarrow> lp_calls s = [] \<Longrightarrow> loop_run produce ops dispatch evs s = Some (s', outs) \<Longrightarrow>
   accepted outs = [] \<and> failed outs = []"
proof (induction evs arbitrary: s outs)
  case (Cons ev evs)
  then obtain s1 o1 o2 where s1: "loop_step produce ops dispatch ev s = Some (s1, o1)"
    "loop_run produce ops dispatch evs s1 = Some (s', o2)" "outs = o1 @ o2"
    by (auto split: option.splits prod.splits)
  have "lp_closing s1 \<and> lp_calls s1 = [] \<and> accepted o1 = [] \<and> failed o1 = []"
  proof (cases ev)
    case (Consume net)
    with s1(1) have "work_consume dispatch ops net s = Some (s1, o1)" by simp
    from work_consume_cases [OF this] Cons.prems show ?thesis by auto
  next
    case (Flush net)
    with s1(1) have "work_flush dispatch ops net s = Some (s1, o1)" by simp
    from work_flush_cases [OF this] Cons.prems show ?thesis by auto
  qed (use s1(1) Cons.prems in \<open>auto simp: report_check_def report_produce_def work_shutdown_def
      work_end_def shutdown_signal_def drop_reporters_def split: if_splits work_phase.splits\<close>)
  with Cons.IH [of s1 o2] s1 show ?case by simp
qed simp

lemma flush_all:
  assumes "lp_phase s = Flushing"
  shows "\<exists>s' outs. loop_run produce ops dispatch (replicate (length (items (lp_queue s))) (Flush net)) s = Some (s', outs) \<and>
    lp_phase s' = Flushing \<and> lp_signal s' = lp_signal s \<and> items (lp_queue s') = [] \<and>
    connected (lp_queue s') = connected (lp_queue s) \<and> dispatched outs = items (lp_queue s)"
  using assms
proof (induction "items (lp_queue s)" arbitrary: s)
  case Nil
  then show ?case by (metis list.size(3) loop_run.simps(1) observe_simps(2) replicate_0)
next
  case (Cons x xs)
  let ?s = "s\<lparr>lp_queue := fst (cs_try_consume ops (lp_queue s)), lp_sink := dispatch net x (lp_sink s)\<rparr>"
  have step: "work_flush dispatch ops net s = Some (?s, [Dispatched x])"
    using Cons.prems Cons.hyps(2) [symmetric] try_consume_result [of "lp_queue s"]
    by (simp add: work_flush_def case_prod_beta)
  have items: "items (lp_queue ?s) = xs" using Cons.hyps(2) by (simp add: try_consume_items flip: Cons.hyps(2))
  obtain s' outs where "loop_run produce ops dispatch (replicate (length xs) (Flush net)) ?s = Some (s', outs)"
    "lp_phase s' = Flushing" "lp_signal s' = lp_signal s" "items (lp_queue s') = []"
    "connected (lp_queue s') = connected (lp_queue s)" "dispatched outs = xs"
    using Cons.hyps(1) [of ?s] items Cons.prems by (auto simp: try_consume_flags)
  with step have "loop_run produce ops dispatch (replicate (length (x # xs)) (Flush net)) s =
      Some (s', Dispatched x # outs) \<and> dispatched (Dispatched x # outs) = x # xs"
    using observe_append(2) [of "[Dispatched x]" outs] by simp
  with \<open>lp_phase s' = Flushing\<close> \<open>lp_signal s' = lp_signal s\<close> \<open>items (lp_queue s') = []\<close>
    \<open>connected (lp_queue s') = connected (lp_queue s)\<close>
  show ?case using Cons.hyps(2) [symmetric] by auto
qed

text \<open>From \<open>Flushing\<close> the task ends after the queued items and two more steps.\<close>

lemma flush_and_end:
  assumes "lp_phase s = Flushing"
  shows "\<exists>s' outs. loop_run produce ops dispatch
      (replicate (length (items (lp_queue s))) (Flush net) @ [Flush net, DropConsumer]) s = Some (s', outs) \<and>
    lp_phase s' = WorkDone (if connected (lp_queue s) then Inr ()
      else Inl (Other ''receiving on a closed channel'')) \<and>
    lp_signal s' = lp_signal s \<and> dispatched outs = items (lp_queue s)"
proof -
  obtain s1 o1 where s1: "loop_run produce ops dispatch (replicate (length (items (lp_queue s))) (Flush net)) s =
      Some (s1, o1)" "lp_phase s1 = Flushing" "lp_signal s1 = lp_signal s" "items (lp_queue s1) = []"
    "connected (lp_queue s1) = connected (lp_queue s)" "dispatched o1 = items (lp_queue s)"
    using flush_all [OF assms] by blast
  let ?r = "if connected (lp_queue s) then Inr () else Inl (Other ''receiving on a closed channel'')"
  let ?s2 = "s1\<lparr>lp_queue := fst (cs_try_consume ops (lp_queue s1)), lp_phase := Ending ?r\<rparr>"
  have "work_flush dispatch ops net s1 = Some (?s2, [])"
    using s1 try_consume_result [of "lp_queue s1"] by (simp add: work_flush_def case_prod_beta)
  then have "loop_run produce ops dispatch [Flush net, DropConsumer] s1 =
      Some (?s2\<lparr>lp_queue := cs_drop ops (lp_queue ?s2), lp_phase := WorkDone ?r\<rparr>, [])"
    by (simp add: work_end_def)
  with s1 show ?thesis by (simp add: loop_run_append)
qed

lemma graceful_shutdown:
  assumes "lp_phase s = Working" and "lp_signal s = AwaitingSignal" and "connected (lp_queue s)"
  shows "\<exists>s' outs. loop_run produce ops dispatch
      ([ShutdownSignal, RecvShutdown] @ replicate (length (items (lp_queue s))) (Flush net) @ [Flush net, DropConsumer]) s =
      Some (s', outs) \<and> loop_result s' = Some (Inr ()) \<and> dispatched outs = items (lp_queue s)"
proof -
  let ?s = "s\<lparr>lp_signal := Signalled (Inr ()), lp_closing := True, lp_phase := Flushing\<rparr>"
  have "loop_run produce ops dispatch [ShutdownSignal, RecvShutdown] s = Some (?s, [])"
    using assms by (simp add: shutdown_signal_def work_shutdown_def loop_result_def)
  moreover obtain s' outs where "loop_run produce ops dispatch
      (replicate (length (items (lp_queue ?s))) (Flush net) @ [Flush net, DropConsumer]) ?s = Some (s', outs)"
    "lp_phase s' = WorkDone (Inr ())" "lp_signal s' = Signalled (Inr ())" "dispatched outs = items (lp_queue ?s)"
    using flush_and_end [of ?s dispatch net] assms(3) by auto
  ultimately have "loop_run produce ops dispatch
      ([ShutdownSignal, RecvShutdown] @ replicate (length (items (lp_queue s))) (Flush net) @ [Flush net, DropConsumer]) s =
      Some (s', outs)"
    by (subst loop_run_append) (simp del: loop_run.simps)
  then show ?thesis
    using \<open>lp_phase s' = WorkDone (Inr ())\<close> \<open>lp_signal s' = Signalled (Inr ())\<close> \<open>dispatched outs = items (lp_queue ?s)\<close>
    by (simp del: loop_run.simps add: loop_result_def)
qed

text \<open>The events of the task itself accept nothing.\<close>

lemma shutdown_accepts_nothing:
  assumes "loop_run produce ops dispatch evs s = Some (s', outs)" and "\<And>i. ReportProduce i \<notin> set evs"
  shows "accepted outs = []"
  using assms
proof (induction evs arbitrary: s outs)
  case (Cons ev evs)
  then obtain s1 o1 o2 where s1: "loop_step produce ops dispatch ev s = Some (s1, o1)"
    "loop_run produce ops dispatch evs s1 = Some (s', o2)" "outs = o1 @ o2"
    by (auto split: option.splits prod.splits)
  have "accepted o1 = []"
  proof (cases ev)
    case (Consume net)
    with s1(1) have "work_consume dispatch ops net s = Some (s1, o1)" by simp
    from work_consume_cases [OF this] show ?thesis by auto
  next
    case (Flush net)
    with s1(1) have "work_flush dispatch ops net s = Some (s1, o1)" by simp
    from work_flush_cases [OF this] show ?thesis by auto
  qed (use s1(1) Cons.prems(2) in \<open>auto simp: report_check_def work_shutdown_def work_end_def shutdown_signal_def
      drop_reporters_def split: if_splits work_phase.splits\<close>)
  with Cons.IH [OF s1(2)] Cons.prems(2) s1(3) show ?case by simp
qed simp

text \<open>While a clone of the reporter lives, the queue is connected.\<close>

lemma loop_step_connected:
  assumes "connected (lp_queue s) = lp_reporters s" and "loop_step produce ops dispatch ev s = Some (s', out)"
  shows "connected (lp_queue s') = lp_reporters s'"
proof (cases ev)
  case (ReportProduce i)
  with assms(2) have "report_produce produce i s = Some (s', out)" by simp
  from report_produce_cases [OF this] assms(1) show ?thesis by (auto simp: produce_flags split: if_splits)
next
  case (Consume net)
  with assms(2) have "work_consume dispatch ops net s = Some (s', out)" by simp
  from work_consume_cases [OF this] assms(1) show ?thesis by (auto simp: consume_flags)
next
  case (Flush net)
  with assms(2) have "work_flush dispatch ops net s = Some (s', out)" by simp
  from work_flush_cases [OF this] assms(1) show ?thesis by (auto simp: try_consume_flags)
qed (use assms in \<open>auto simp: report_check_def work_shutdown_def work_end_def shutdown_signal_def
    drop_reporters_def drop_flags disconnect_flags split: if_splits work_phase.splits\<close>)

lemma loop_run_connected:
  "connected (lp_queue s) = lp_reporters s \<Longrightarrow> loop_run produce ops dispatch evs s = Some (s', outs) \<Longrightarrow>
   connected (lp_queue s') = lp_reporters s'"
proof (induction evs arbitrary: s outs)
  case (Cons ev evs)
  then obtain s1 o1 o2 where s1: "loop_step produce ops dispatch ev s = Some (s1, o1)"
    "loop_run produce ops dispatch evs s1 = Some (s', o2)" by (auto split: option.splits prod.splits)
  from Cons.IH [OF loop_step_connected [OF Cons.prems(1) s1(1)] s1(2)] show ?case .
qed simp

lemma consume_all:
  assumes "lp_phase s = Working"
  shows "\<exists>s' outs. loop_run produce ops dispatch (replicate (length (items (lp_queue s))) (Consume net)) s = Some (s', outs) \<and>
    lp_phase s' = Working \<and> lp_signal s' = lp_signal s \<and> items (lp_queue s') = [] \<and>
    connected (lp_queue s') = connected (lp_queue s) \<and> dispatched outs = items (lp_queue s)"
  using assms
proof (induction "items (lp_queue s)" arbitrary: s)
  case Nil
  then show ?case by (metis list.size(3) loop_run.simps(1) observe_simps(2) replicate_0)
next
  case (Cons x xs)
  let ?s = "s\<lparr>lp_queue := fst (cs_consume ops (lp_queue s)), lp_sink := dispatch net x (lp_sink s)\<rparr>"
  have step: "work_consume dispatch ops net s = Some (?s, [Dispatched x])"
    using Cons.prems Cons.hyps(2) [symmetric] consume_result [of "lp_queue s"]
    by (simp add: work_consume_def case_prod_beta)
  have items: "items (lp_queue ?s) = xs" using Cons.hyps(2) by (simp add: consume_items flip: Cons.hyps(2))
  obtain s' outs where "loop_run produce ops dispatch (replicate (length xs) (Consume net)) ?s = Some (s', outs)"
    "lp_phase s' = Working" "lp_signal s' = lp_signal s" "items (lp_queue s') = []"
    "connected (lp_queue s') = connected (lp_queue s)" "dispatched outs = xs"
    using Cons.hyps(1) [of ?s] items Cons.prems by (auto simp: consume_flags)
  with step have "loop_run produce ops dispatch (replicate (length (x # xs)) (Consume net)) s =
      Some (s', Dispatched x # outs) \<and> dispatched (Dispatched x # outs) = x # xs"
    using observe_append(2) [of "[Dispatched x]" outs] by simp
  with \<open>lp_phase s' = Working\<close> \<open>lp_signal s' = lp_signal s\<close> \<open>items (lp_queue s') = []\<close>
    \<open>connected (lp_queue s') = connected (lp_queue s)\<close>
  show ?case using Cons.hyps(2) [symmetric] by auto
qed

end

section \<open>How the task can end\<close>

text \<open>The events of the threads that report; the others are those of the task and the signal.\<close>

fun thread_event :: "loop_event \<Rightarrow> bool" where
  "thread_event (ReportCheck item) = True"
| "thread_event (ReportProduce i) = True"
| "thread_event DropReporters = True"
| "thread_event _ = False"

fun when_ended :: "(unit sw_result \<Rightarrow> bool) \<Rightarrow> work_phase \<Rightarrow> bool" where
  "when_ended P (Ending r) = P r"
| "when_ended P (WorkDone r) = P r"
| "when_ended P _ = True"

context collect_queue
begin

text \<open>While nobody signals: the task works until the reporters are gone, and ends with the error of the
  closed channel, everything accepted being dispatched.\<close>

definition unsignalled :: "CollectItem list \<Rightarrow> loop_out list \<Rightarrow> ('q, 'd) Loop \<Rightarrow> bool" where
  "unsignalled before outs s \<longleftrightarrow> loop_inv before outs s \<and> connected (lp_queue s) = lp_reporters s \<and>
     lp_signal s = AwaitingSignal \<and> (lp_reporters s \<longrightarrow> lp_phase s = Working) \<and> (\<not> lp_reporters s \<longrightarrow> lp_calls s = []) \<and>
     when_ended (\<lambda>r. r = Inl (Other ''receiving on a closed channel'') \<and> before @ accepted outs = dispatched outs)
       (lp_phase s)"

lemma unsignalled_start: "attached q \<Longrightarrow> connected q \<Longrightarrow> unsignalled (items q) [] (loop_start q d)"
  using loop_start_inv [of q d] by (simp add: unsignalled_def loop_start_def)

lemma unsignalled_step:
  assumes "unsignalled before outs s" and "loop_step produce ops dispatch ev s = Some (s', out)" and "ev \<noteq> ShutdownSignal"
  shows "unsignalled before (outs @ out) s'"
proof -
  have inv: "loop_inv before (outs @ out) s'" using loop_step_inv [OF _ assms(2)] assms(1) by (simp add: unsignalled_def)
  have conn: "connected (lp_queue s') = lp_reporters s'"
    using loop_step_connected [OF _ assms(2)] assms(1) by (simp add: unsignalled_def)
  show ?thesis
  proof (cases ev)
    case (ReportProduce i)
    with assms(2) have "report_produce produce i s = Some (s', out)" by simp
    note cases = report_produce_cases [OF this]
    then have "lp_calls s \<noteq> []" by auto
    with assms(1) have "lp_reporters s" "lp_phase s = Working" "lp_signal s = AwaitingSignal"
      by (auto simp: unsignalled_def)
    moreover from cases have "lp_phase s' = lp_phase s" "lp_reporters s' = lp_reporters s" "lp_signal s' = lp_signal s"
      by (simp_all split: if_splits)
    ultimately show ?thesis using inv conn by (simp add: unsignalled_def)
  next
    case (Consume net)
    with assms(2) have "work_consume dispatch ops net s = Some (s', out)" by simp
    from work_consume_cases [OF this] assms(1) inv conn show ?thesis by (auto simp: unsignalled_def)
  next
    case (Flush net)
    with assms(2) have "work_flush dispatch ops net s = Some (s', out)" by simp
    from work_flush_cases [OF this] assms(1) inv conn show ?thesis
      by (auto simp: unsignalled_def loop_inv_def)
  qed (use assms inv conn in \<open>auto simp: unsignalled_def report_check_def work_shutdown_def work_end_def
      drop_reporters_def split: if_splits work_phase.splits\<close>)
qed

lemma unsignalled_run:
  "unsignalled before outs s \<Longrightarrow> loop_run produce ops dispatch evs s = Some (s', outs') \<Longrightarrow> ShutdownSignal \<notin> set evs \<Longrightarrow>
   unsignalled before (outs @ outs') s'"
proof (induction evs arbitrary: s outs outs')
  case (Cons ev evs)
  then obtain s1 o1 o2 where s1: "loop_step produce ops dispatch ev s = Some (s1, o1)"
    "loop_run produce ops dispatch evs s1 = Some (s', o2)" "outs' = o1 @ o2"
    by (auto split: option.splits prod.splits)
  have "unsignalled before (outs @ o1) s1" using unsignalled_step [OF Cons.prems(1) s1(1)] Cons.prems(3) by auto
  from Cons.IH [OF this s1(2)] Cons.prems(3) s1(3) show ?case by simp
qed simp

text \<open>A result without a signal is the error of the closed channel.\<close>

lemma unsignalled_result:
  assumes "unsignalled before outs s"
  shows "loop_result s = (case lp_phase s of WorkDone _ \<Rightarrow> Some (Inl (Other ''receiving on a closed channel'')) | _ \<Rightarrow> None)"
    and "loop_result s = Some r \<Longrightarrow> \<not> lp_reporters s \<and> before @ accepted outs = dispatched outs"
  using assms by (auto simp: unsignalled_def loop_result_def split: work_phase.splits sum.splits)

text \<open>While a reporter is held and nobody reports: the task ends after the signal, with \<open>Ok\<close> and nothing
  left behind.\<close>

definition held :: "CollectItem list \<Rightarrow> loop_out list \<Rightarrow> ('q, 'd) Loop \<Rightarrow> bool" where
  "held before outs s \<longleftrightarrow> loop_inv before outs s \<and> connected (lp_queue s) \<and> lp_reporters s \<and> lp_calls s = [] \<and>
     accepted outs = [] \<and> (\<forall>e. lp_signal s \<noteq> Signalled (Inl e)) \<and>
     (lp_phase s \<noteq> Working \<longrightarrow> lp_signal s = Signalled (Inr ())) \<and>
     when_ended (\<lambda>r. r = Inr () \<and> dispatched outs = before) (lp_phase s)"

lemma held_start: "attached q \<Longrightarrow> connected q \<Longrightarrow> held (items q) [] (loop_start q d)"
  using loop_start_inv [of q d] by (simp add: held_def loop_start_def)

lemma held_step:
  assumes "held before outs s" and "loop_step produce ops dispatch ev s = Some (s', out)" and "\<not> thread_event ev"
  shows "held before (outs @ out) s'"
proof -
  have inv: "loop_inv before (outs @ out) s'" using loop_step_inv [OF _ assms(2)] assms(1) by (simp add: held_def)
  show ?thesis
  proof (cases ev)
    case (Consume net)
    with assms(2) have "work_consume dispatch ops net s = Some (s', out)" by simp
    from work_consume_cases [OF this] assms(1) inv show ?thesis by (auto simp: held_def consume_flags)
  next
    case (Flush net)
    with assms(2) have "work_flush dispatch ops net s = Some (s', out)" by simp
    from work_flush_cases [OF this] assms(1) inv show ?thesis by (auto simp: held_def try_consume_flags loop_inv_def)
  qed (use assms inv in \<open>auto simp: held_def work_shutdown_def work_end_def drop_flags shutdown_signal_def
      split: if_splits work_phase.splits signal_phase.splits\<close>)
qed

text \<open>The task can always be brought to its end by its own steps, once it has left its first loop or the
  reporters are gone.\<close>

lemma flushing_ends:
  assumes "lp_phase s \<noteq> Working"
  shows "\<exists>evs s' outs. loop_run produce ops dispatch evs s = Some (s', outs) \<and> is_done (lp_phase s') \<and>
    lp_signal s' = lp_signal s \<and> set evs \<subseteq> {Flush (Inr ()), DropConsumer}"
proof (cases "lp_phase s")
  case Flushing
  have "set (replicate (length (items (lp_queue s))) (Flush (Inr ())) @ [Flush (Inr ()), DropConsumer])
      \<subseteq> {Flush (Inr ()), DropConsumer}" by auto
  with flush_and_end [OF Flushing] show ?thesis by (metis phase_tests(4))
next
  case (Ending r)
  then have "loop_run produce ops dispatch [DropConsumer] s =
      Some (s\<lparr>lp_queue := cs_drop ops (lp_queue s), lp_phase := WorkDone r\<rparr>, [])" by (simp add: work_end_def)
  then show ?thesis by (intro exI [of _ "[DropConsumer]"]) simp
next
  case (WorkDone r)
  then have "loop_run produce ops dispatch [] s = Some (s, []) \<and> is_done (lp_phase s)" by simp
  then show ?thesis by (metis empty_set empty_subsetI)
qed (use assms in simp)

lemma working_ends:
  assumes "lp_phase s = Working \<longrightarrow> \<not> connected (lp_queue s)"
  shows "\<exists>evs s' outs. loop_run produce ops dispatch evs s = Some (s', outs) \<and> is_done (lp_phase s') \<and>
    lp_signal s' = lp_signal s \<and> set evs \<subseteq> {Consume (Inr ()), Flush (Inr ()), DropConsumer}"
proof (cases "lp_phase s = Working")
  case True
  obtain s1 o1 where s1: "loop_run produce ops dispatch (replicate (length (items (lp_queue s))) (Consume (Inr ()))) s = Some (s1, o1)"
    "lp_phase s1 = Working" "lp_signal s1 = lp_signal s" "items (lp_queue s1) = []" "\<not> connected (lp_queue s1)"
    using consume_all [OF True] assms True by metis
  let ?s2 = "s1\<lparr>lp_queue := fst (cs_consume ops (lp_queue s1)), lp_closing := True, lp_phase := Flushing\<rparr>"
  have "loop_step produce ops dispatch (Consume (Inr ())) s1 = Some (?s2, [])"
    using s1 consume_result [of "lp_queue s1"] by (simp add: work_consume_def case_prod_beta)
  moreover obtain evs s' o2 where s': "loop_run produce ops dispatch evs ?s2 = Some (s', o2)" "is_done (lp_phase s')"
    "lp_signal s' = lp_signal ?s2" "set evs \<subseteq> {Flush (Inr ()), DropConsumer}" using flushing_ends [of ?s2 dispatch] by auto
  ultimately have "loop_run produce ops dispatch (replicate (length (items (lp_queue s))) (Consume (Inr ())) @ Consume (Inr ()) # evs) s =
      Some (s', o1 @ o2)" using s1(1) by (simp add: loop_run_append)
  with s' s1(3) show ?thesis
    by (intro exI [of _ "replicate (length (items (lp_queue s))) (Consume (Inr ())) @ Consume (Inr ()) # evs"]) auto
next
  case False
  with flushing_ends [OF this] show ?thesis by blast
qed

lemma held_ends:
  assumes "held before outs s"
  shows "\<exists>evs s' outs'. loop_run produce ops dispatch evs s = Some (s', outs') \<and> is_done (lp_phase s') \<and>
    lp_signal s' = Signalled (Inr ()) \<and> list_all (\<lambda>ev. \<not> thread_event ev) evs"
proof -
  obtain e1 s1 where s1: "loop_run produce ops dispatch e1 s = Some (s1, [])" "lp_phase s1 \<noteq> Working"
    "lp_signal s1 = Signalled (Inr ())" "list_all (\<lambda>ev. \<not> thread_event ev) e1"
  proof (cases "lp_phase s = Working")
    case False
    with assms that [of "[]" s] show ?thesis by (simp add: held_def)
  next
    case True
    let ?s = "s\<lparr>lp_signal := Signalled (Inr ()), lp_closing := True, lp_phase := Flushing\<rparr>"
    show ?thesis
    proof (cases "lp_signal s")
      case AwaitingSignal
      with True that [of "[ShutdownSignal, RecvShutdown]" ?s] show ?thesis
        by (simp add: shutdown_signal_def work_shutdown_def loop_result_def)
    next
      case (Signalled r)
      with assms have "lp_signal s = Signalled (Inr ())" by (cases r) (auto simp: held_def)
      with True that [of "[RecvShutdown]" ?s] show ?thesis by (simp add: work_shutdown_def)
    qed
  qed
  obtain e2 s2 o2 where s2: "loop_run produce ops dispatch e2 s1 = Some (s2, o2)" "is_done (lp_phase s2)"
    "lp_signal s2 = lp_signal s1" "set e2 \<subseteq> {Flush (Inr ()), DropConsumer}" using flushing_ends [OF s1(2)] by blast
  have "loop_run produce ops dispatch (e1 @ e2) s = Some (s2, o2)" using s1(1) s2(1) by (simp add: loop_run_append)
  moreover have "list_all (\<lambda>ev. \<not> thread_event ev) (e1 @ e2)" using s1(4) s2(4) by (auto simp: list_all_iff)
  ultimately show ?thesis using s1(3) s2(2,3) by metis
qed

end

section \<open>What the sink has seen\<close>

text \<open>A view of the sink that every dispatch extends by something that depends on the item only, as
  long as \<open>P\<close> holds of the sink.\<close>

lemma loop_step_sink:
  assumes "\<And>net x d. P d \<Longrightarrow> P (dispatch net x d) \<and> view (dispatch net x d) = view d @ g x"
    and "loop_step produce ops dispatch ev s = Some (s', out)" and "P (lp_sink s)"
  shows "P (lp_sink s') \<and> view (lp_sink s') = view (lp_sink s) @ concat (map g (dispatched out))"
  using assms(2,3)
  by (cases ev)
    (auto simp: assms(1) report_check_def report_produce_def work_consume_def work_shutdown_def work_flush_def
      work_end_def shutdown_signal_def drop_reporters_def Let_def
      split: if_splits prod.splits sum.splits option.splits poll.splits work_phase.splits)

lemma loop_run_sink:
  assumes "\<And>net x d. P d \<Longrightarrow> P (dispatch net x d) \<and> view (dispatch net x d) = view d @ g x"
    and "loop_run produce ops dispatch evs s = Some (s', outs)" and "P (lp_sink s)"
  shows "P (lp_sink s') \<and> view (lp_sink s') = view (lp_sink s) @ concat (map g (dispatched outs))"
  using assms(2,3)
proof (induction evs arbitrary: s outs)
  case (Cons ev evs)
  then obtain s1 o1 o2 where s1: "loop_step produce ops dispatch ev s = Some (s1, o1)"
    "loop_run produce ops dispatch evs s1 = Some (s', o2)" "outs = o1 @ o2"
    by (auto split: option.splits prod.splits)
  have "P (lp_sink s1) \<and> view (lp_sink s1) = view (lp_sink s) @ concat (map g (dispatched o1))"
    using assms(1) s1(1) Cons.prems(2) by (rule loop_step_sink)
  with Cons.IH [OF s1(2)] s1(3) show ?case by simp
qed simp

end
