(* ===== verification/Grpc_Reporter.thy ===== *)
theory Grpc_Reporter
  imports Report_Loop Span "HOL-Library.Sublist"
begin

text \<open>
  \<^verbatim>\<open>src/src/reporter/grpc.rs\<close>, the side of the application and of the dispatching task: the reporter
  and its builder methods, \<open>reporting()\<close>, the routing of collected items to one bounded channel per
  kind of data, and the task \<open>ReportSender::start\<close> as an instance of \<open>Report_Loop\<close>.  The streams that
  carry the channels to the OAP server are in \<open>Grpc_Stream\<close>.
\<close>

section \<open>Interceptor\<close>

text \<open>Of \<open>tonic\<close>: parsing a header value and putting it into the metadata of a request.\<close>

record ('v, 'req) tonic_ops =
  tn_parse_ascii :: "string \<Rightarrow> 'v option"
  tn_metadata_insert :: "string \<Rightarrow> 'v \<Rightarrow> 'req \<Rightarrow> 'req"

record 'req CustomInterceptor =
  ic_authentication :: "string option"
  ic_custom_intercept :: "('req \<Rightarrow> string + 'req) option"

definition CustomInterceptor_default :: "'req CustomInterceptor" where
  "CustomInterceptor_default = \<lparr>ic_authentication = None, ic_custom_intercept = None\<rparr>"

definition CustomInterceptor_call ::
  "('v, 'req) tonic_ops \<Rightarrow> 'req CustomInterceptor \<Rightarrow> 'req \<Rightarrow> string + 'req" where
  "CustomInterceptor_call tn ic request =
     (let request1 =
        (case ic_authentication ic of
           None \<Rightarrow> request
         | Some a \<Rightarrow>
             (case tn_parse_ascii tn a of
                None \<Rightarrow> request
              | Some v \<Rightarrow> tn_metadata_insert tn ''authentication'' v request))
      in (case ic_custom_intercept ic of None \<Rightarrow> Inr request1 | Some f \<Rightarrow> f request1))"

section \<open>The reporter\<close>

text \<open>A handler acts on the world \<open>'h\<close> of the application.  \<open>gr_consumer\<close>: the consumer has not been
  taken out of its mutex yet; both ends of the queue share \<open>gr_queue\<close>.\<close>

type_synonym 'h handler = "string \<Rightarrow> string \<Rightarrow> 'h \<Rightarrow> 'h"

text \<open>The default handlers emit an event at level \<open>error\<close>; here the world is the list of these events.\<close>

definition default_err_handle :: "(string \<times> string) list handler" where
  "default_err_handle message err log = log @ [(message, err)]"

definition default_status_handle :: "(string \<times> string) list handler" where
  "default_status_handle message status log = log @ [(message, status)]"

record ('q, 'h, 'req) GrpcReporter =
  gr_is_reporting :: bool
  gr_is_closing :: bool
  gr_queue :: 'q
  gr_consumer :: bool
  gr_err_handle :: "'h handler"
  gr_interceptor :: "'req CustomInterceptor"

text \<open>\<open>dflt_handle\<close> is the default handler, for the world it acts on.\<close>

definition GrpcReporter_new_with_pc :: "'h handler \<Rightarrow> 'q \<Rightarrow> ('q, 'h, 'req) GrpcReporter" where
  "GrpcReporter_new_with_pc dflt_handle q =
     \<lparr>gr_is_reporting = False, gr_is_closing = False, gr_queue = q, gr_consumer = True,
      gr_err_handle = dflt_handle, gr_interceptor = CustomInterceptor_default\<rparr>"

text \<open>\<open>new\<close>: \<open>unbounded\<close> is the channel \<open>mpsc::unbounded_channel()\<close> gives.\<close>

definition GrpcReporter_new :: "'h handler \<Rightarrow> 'q \<Rightarrow> ('q, 'h, 'req) GrpcReporter" where
  "GrpcReporter_new dflt_handle unbounded = GrpcReporter_new_with_pc dflt_handle unbounded"

text \<open>\<open>connect\<close>: \<open>endpoint\<close> and \<open>connected\<close> are what \<open>try_into\<close> and \<open>Endpoint::connect\<close> return.\<close>

definition GrpcReporter_connect ::
  "'h handler \<Rightarrow> 'q \<Rightarrow> string + unit \<Rightarrow> string + unit \<Rightarrow> ('q, 'h, 'req) GrpcReporter sw_result" where
  "GrpcReporter_connect dflt_handle q endpoint connected =
     and_then (map_sum TonicTransport id endpoint) (\<lambda>_.
     and_then (map_sum TonicTransport id connected) (\<lambda>_.
       Inr (GrpcReporter_new dflt_handle q)))"

definition with_err_handle :: "'h handler \<Rightarrow> ('q, 'h, 'req) GrpcReporter \<Rightarrow> ('q, 'h, 'req) GrpcReporter" where
  "with_err_handle handle r = r\<lparr>gr_err_handle := handle\<rparr>"

definition with_authentication :: "string \<Rightarrow> ('q, 'h, 'req) GrpcReporter \<Rightarrow> ('q, 'h, 'req) GrpcReporter" where
  "with_authentication a r =
     r\<lparr>gr_interceptor := (gr_interceptor r)\<lparr>ic_authentication := Some a\<rparr>\<rparr>"

definition with_custom_intercept ::
  "('req \<Rightarrow> string + 'req) \<Rightarrow> ('q, 'h, 'req) GrpcReporter \<Rightarrow> ('q, 'h, 'req) GrpcReporter" where
  "with_custom_intercept f r =
     r\<lparr>gr_interceptor := (gr_interceptor r)\<lparr>ic_custom_intercept := Some f\<rparr>\<rparr>"

text \<open>\<open>Report for GrpcReporter\<close>, run to its end.\<close>

definition GrpcReporter_report ::
  "'q produce_fn \<Rightarrow> (('q, 'h, 'req) GrpcReporter \<times> 'h) report_fn" where
  "GrpcReporter_report produce item s =
     (case s of (r, h) \<Rightarrow>
        if gr_is_closing r then (s, Inr ())
        else
          (case produce item (gr_queue r) of
             (q', Inl p) \<Rightarrow> ((r\<lparr>gr_queue := q'\<rparr>, h), Inl p)
           | (q', Inr (Inl e)) \<Rightarrow>
               ((r\<lparr>gr_queue := q'\<rparr>, gr_err_handle r ''report collect item failed'' e h), Inr ())
           | (q', Inr (Inr _)) \<Rightarrow> ((r\<lparr>gr_queue := q'\<rparr>, h), Inr ())))"

section \<open>Routing\<close>

text \<open>
  \<open>InnerReportSender\<close> holds the sending ends of three bounded channels.  Its two handlers and the
  management client are represented by what they have been called with.
\<close>

record ('ct, 'cl, 'cm) InnerReportSender =
  irs_trace :: 'ct
  irs_log :: 'cl
  irs_meter :: 'cm
  irs_management :: "CollectItem list"
  irs_err_calls :: "(string \<times> string) list"
  irs_status_calls :: "(string \<times> string) list"

fun try_send_error :: "try_send_result \<Rightarrow> string option" where
  "try_send_error SendOk = None"
| "try_send_error SendFull = Some ''no available capacity''"
| "try_send_error SendClosed = Some ''channel closed''"

definition err_call ::
  "string \<Rightarrow> string option \<Rightarrow> ('ct, 'cl, 'cm) InnerReportSender \<Rightarrow> ('ct, 'cl, 'cm) InnerReportSender" where
  "err_call m e s = (case e of None \<Rightarrow> s | Some x \<Rightarrow> s\<lparr>irs_err_calls := irs_err_calls s @ [(m, x)]\<rparr>)"

definition status_call ::
  "string \<Rightarrow> string + unit \<Rightarrow> ('ct, 'cl, 'cm) InnerReportSender \<Rightarrow> ('ct, 'cl, 'cm) InnerReportSender" where
  "status_call m r s = (case r of Inl x \<Rightarrow> s\<lparr>irs_status_calls := irs_status_calls s @ [(m, x)]\<rparr> | Inr _ \<Rightarrow> s)"

text \<open>\<open>net\<close> is what a management call returns.\<close>

fun InnerReportSender_report ::
  "('ct, SegmentObject) mpsc \<Rightarrow> ('cl, LogData) mpsc \<Rightarrow> ('cm, MeterData) mpsc \<Rightarrow> (string + unit) \<Rightarrow>
   CollectItem \<Rightarrow> ('ct, 'cl, 'cm) InnerReportSender \<Rightarrow> ('ct, 'cl, 'cm) InnerReportSender" where
  "InnerReportSender_report ct cl cm net (Trace item) s =
     (case mp_try_send ct item (irs_trace s) of
        (q, r) \<Rightarrow> err_call ''report trace segment failed'' (try_send_error r) (s\<lparr>irs_trace := q\<rparr>))"
| "InnerReportSender_report ct cl cm net (Log item) s =
     (case mp_try_send cl item (irs_log s) of
        (q, r) \<Rightarrow> err_call ''report log data failed'' (try_send_error r) (s\<lparr>irs_log := q\<rparr>))"
| "InnerReportSender_report ct cl cm net (Meter item) s =
     (case mp_try_send cm item (irs_meter s) of
        (q, r) \<Rightarrow> err_call ''report meter data failed'' (try_send_error r) (s\<lparr>irs_meter := q\<rparr>))"
| "InnerReportSender_report ct cl cm net (Instance item) s =
     status_call ''Report instance properties failed'' net
       (s\<lparr>irs_management := irs_management s @ [Instance item]\<rparr>)"
| "InnerReportSender_report ct cl cm net (Ping item) s =
     status_call ''Ping failed'' net (s\<lparr>irs_management := irs_management s @ [Ping item]\<rparr>)"

section \<open>reporting()\<close>

text \<open>What \<open>reporting\<close> hands out: the three channels it creates (capacity 255) and the handlers; the
  default status handler is \<open>None\<close>, one that was set is \<open>Some\<close>.\<close>

record ('ct, 'cl, 'cm, 'h) Reporting =
  rp_sender :: "('ct, 'cl, 'cm) InnerReportSender"
  rp_shutdown_signal :: bool
  rp_sender_status_handle :: "'h handler option"
  rp_trace_status_handle :: "'h handler option"
  rp_log_status_handle :: "'h handler option"
  rp_meter_status_handle :: "'h handler option"

definition GrpcReporter_reporting ::
  "(nat \<Rightarrow> 'ct) \<Rightarrow> (nat \<Rightarrow> 'cl) \<Rightarrow> (nat \<Rightarrow> 'cm) \<Rightarrow> ('q, 'h, 'req) GrpcReporter \<Rightarrow>
   (('q, 'h, 'req) GrpcReporter, ('ct, 'cl, 'cm, 'h) Reporting) outcome" where
  "GrpcReporter_reporting mk_t mk_l mk_m r =
     (if gr_is_reporting r then (r, Inl (Panic ''reporting already called''))
      else
        let r1 = r\<lparr>gr_is_reporting := True\<rparr> in
        if gr_consumer r1 then
          (r1\<lparr>gr_consumer := False\<rparr>,
           Inr \<lparr>rp_sender = \<lparr>irs_trace = mk_t 255, irs_log = mk_l 255, irs_meter = mk_m 255,
                  irs_management = [], irs_err_calls = [], irs_status_calls = []\<rparr>,
                rp_shutdown_signal = False, rp_sender_status_handle = None,
                rp_trace_status_handle = None, rp_log_status_handle = None,
                rp_meter_status_handle = None\<rparr>)
        else (r1, Inl unwrap_none_panic))"

text \<open>\<open>rp_shutdown_signal\<close>: a signal has been given; otherwise it is \<open>pending()\<close>.\<close>

definition with_graceful_shutdown :: "('ct, 'cl, 'cm, 'h) Reporting \<Rightarrow> ('ct, 'cl, 'cm, 'h) Reporting" where
  "with_graceful_shutdown rp = rp\<lparr>rp_shutdown_signal := True\<rparr>"

definition with_status_handle ::
  "'h handler \<Rightarrow> ('ct, 'cl, 'cm, 'h) Reporting \<Rightarrow> ('ct, 'cl, 'cm, 'h) Reporting" where
  "with_status_handle h rp =
     rp\<lparr>rp_sender_status_handle := Some h, rp_trace_status_handle := Some h,
        rp_log_status_handle := Some h, rp_meter_status_handle := Some h\<rparr>"

section \<open>The dispatching task\<close>

text \<open>\<open>ReportSender::start\<close> on the queue the reporter was created with.\<close>

definition ReportSender_run ::
  "('q, CollectItem) mpsc \<Rightarrow> ('ct, SegmentObject) mpsc \<Rightarrow> ('cl, LogData) mpsc \<Rightarrow> ('cm, MeterData) mpsc \<Rightarrow>
   loop_event list \<Rightarrow> ('q, ('ct, 'cl, 'cm) InnerReportSender) Loop \<Rightarrow>
   ('q, ('ct, 'cl, 'cm) InnerReportSender) loop_next" where
  "ReportSender_run ch ct cl cm =
     loop_run (UnboundedSender_produce ch) (Receiver_ops ch) (InnerReportSender_report ct cl cm)"

text \<open>\<open>ReportingJoinHandle\<close>: the four join handles, \<open>None\<close> while a task runs, \<open>Inl\<close> when it panicked or
  was cancelled.  \<open>try_join_all\<close> stops at the first of those; the results of the tasks are looked at
  when all four are there.\<close>

fun first_err :: "('e + 'a) list \<Rightarrow> 'e + unit" where
  "first_err [] = Inr ()"
| "first_err (Inl e # rs) = Inl e"
| "first_err (Inr _ # rs) = first_err rs"

definition ReportingJoinHandle_poll :: "(string + unit sw_result) option list \<Rightarrow> unit sw_result poll" where
  "ReportingJoinHandle_poll tasks =
     (case first_err (List.map_filter id tasks) of
        Inl e \<Rightarrow> Ready (Inl (TokioJoin e))
      | Inr _ \<Rightarrow>
          (case those tasks of
             None \<Rightarrow> Pending
           | Some rs \<Rightarrow> Ready (first_err (List.map_filter (\<lambda>r. case r of Inr x \<Rightarrow> Some x | Inl _ \<Rightarrow> None) rs))))"

section \<open>The reporter keeps the contract of Report\<close>

context collect_queue
begin

lemma grpc_is_reporter:
  "gated_reporter (GrpcReporter_report produce) (\<lambda>(r, h). items (gr_queue r))
     (\<lambda>(r, h). \<not> gr_is_closing r \<and> attached (gr_queue r))"
proof (rule gated_reporterI)
  fix x :: CollectItem and s :: "('q, 'h, 'req) GrpcReporter \<times> 'h"
  obtain r h where s: "s = (r, h)" by fastforce
  obtain q' where q': "produce x (gr_queue r) = (q', Inr (if attached (gr_queue r) then Inr () else Inl ''channel closed''))"
    "items q' = items (gr_queue r) @ (if attached (gr_queue r) then [x] else [])"
    "attached q' = attached (gr_queue r)" by (rule produce_cases)
  show "(case s of (r, h) \<Rightarrow> \<not> gr_is_closing r \<and> attached (gr_queue r)) \<Longrightarrow>
      snd (GrpcReporter_report produce x s) = Inr ()"
    by (simp add: s GrpcReporter_report_def q')
  show "(case fst (GrpcReporter_report produce x s) of (r, h) \<Rightarrow> items (gr_queue r)) =
      (case s of (r, h) \<Rightarrow> items (gr_queue r)) @
      (if case s of (r, h) \<Rightarrow> \<not> gr_is_closing r \<and> attached (gr_queue r) then [x] else [])"
    by (simp add: s GrpcReporter_report_def q')
  show "(case fst (GrpcReporter_report produce x s) of (r, h) \<Rightarrow> \<not> gr_is_closing r \<and> attached (gr_queue r)) =
      (case s of (r, h) \<Rightarrow> \<not> gr_is_closing r \<and> attached (gr_queue r))"
    by (simp add: s GrpcReporter_report_def q')
qed

end

interpretation grpc: gated_reporter "GrpcReporter_report (UnboundedSender_produce list_mpsc)"
    "\<lambda>(r, h). lc_items (gr_queue r)" "\<lambda>(r, h). \<not> gr_is_closing r \<and> lc_rx (gr_queue r)"
  by (rule uq.grpc_is_reporter)

section \<open>Properties of the dispatching task\<close>

text \<open>C19. Items reach the dispatcher in order and once, and only a late one can be lost: in every
  interleaving of any number of threads that report with the background task, on any channel that keeps
  tokio's contract, until the task drops the queue the accepted items are those dispatched, in the
  order they were accepted, followed by those still queued.  Once the flush loop is over, the run splits
  at its end: everything accepted before had been dispatched, nothing is dispatched afterwards, and what
  is accepted afterwards, which nobody will dispatch, comes from calls of \<open>report\<close> that had found the
  closing flag unset and had not yet produced.  Every item that could not be queued was reported to the
  error handler.\<close>

theorem grpc_dispatches_in_order_exactly_once:
  assumes "mpsc_channel ch contents rx_alive tx_alive room" and "rx_alive q" and "contents q = []"
    and "ReportSender_run ch ct cl cm evs (loop_start q d) = Some (s, outs)"
  shows "(\<not> is_done (lp_phase s) \<longrightarrow> accepted outs = dispatched outs @ contents (lp_queue s)) \<and>
    (is_ending (lp_phase s) \<longrightarrow> (\<exists>evs1 evs2 s1 o1 o2. evs = evs1 @ evs2 \<and> outs = o1 @ o2 \<and>
       ReportSender_run ch ct cl cm evs1 (loop_start q d) = Some (s1, o1) \<and>
       ReportSender_run ch ct cl cm evs2 s1 = Some (s, o2) \<and> flushed [] s1 o1 o2)) \<and>
    length (failed outs) = length (lp_err_calls s)"
  using collect_queue.loop_accounts [OF unbounded_collect_queue [OF assms(1)] assms(2)
      assms(4) [unfolded ReportSender_run_def]]
  unfolding ReportSender_run_def assms(3) by simp

definition no_sender :: "(SegmentObject list_chan, LogData list_chan, MeterData list_chan) InnerReportSender" where
  "no_sender = \<lparr>irs_trace = channel_new (Some 255), irs_log = channel_new (Some 255),
     irs_meter = channel_new (Some 255), irs_management = [], irs_err_calls = [], irs_status_calls = []\<rparr>"

definition sample_ping :: CollectItem where
  "sample_ping = Ping \<lparr>ping_service = ''s'', ping_service_instance = ''i'', ping_layer = []\<rparr>"

definition sample_log :: CollectItem where
  "sample_log = Log \<lparr>ld_timestamp = 1, ld_service = ''s'', ld_service_instance = ''i'', ld_endpoint = [],
     ld_body = None, ld_trace_context = None, ld_tags = None, ld_layer = []\<rparr>"

text \<open>Two threads report, the second overtakes the first; the task takes one item, then shuts down.\<close>

definition sample_loop_events :: "loop_event list" where
  "sample_loop_events = [ReportCheck sample_ping, ReportCheck sample_log, ReportProduce 1, ReportProduce 0,
     Consume (Inr ()), ShutdownSignal, RecvShutdown, ReportCheck sample_log, Flush (Inl ''down''), Flush (Inr ())]"

definition sample_loop_final ::
  "(CollectItem list_chan, (SegmentObject list_chan, LogData list_chan, MeterData list_chan) InnerReportSender) loop_next" where
  "sample_loop_final = ReportSender_run list_mpsc list_mpsc list_mpsc list_mpsc sample_loop_events
     (loop_start (channel_new None) no_sender)"

lemma sample_loop_final_eq:
  "\<exists>s. sample_loop_final = Some (s, [Accepted sample_log, Accepted sample_ping, Dispatched sample_log,
     Refused sample_log, Dispatched sample_ping]) \<and> lp_phase s = Ending (Inr ()) \<and> lp_calls s = [] \<and> lp_reporters s \<and>
     lc_items (irs_log (lp_sink s)) \<noteq> [] \<and> irs_status_calls (lp_sink s) = [(''Ping failed'', ''down'')]"
  by (simp add: sample_loop_final_def ReportSender_run_def sample_loop_events_def loop_start_def
      channel_new_def report_check_def report_produce_def UnboundedSender_produce_def list_mpsc_def
      lc_push_def work_consume_def Receiver_ops_def Receiver_consume_def Receiver_try_consume_def
      shutdown_signal_def loop_result_def work_shutdown_def work_flush_def sample_log_def sample_ping_def
      no_sender_def err_call_def status_call_def lc_room_def remove_nth_def Let_def)

text \<open>A call of \<open>report\<close> that has looked at the flag before the shutdown and produces after the last look into
  the queue: its item is accepted, the task ends with \<open>Ok\<close>, and nobody is told that the item is lost.\<close>

definition late_events :: "loop_event list" where
  "late_events = [ReportCheck sample_log, ShutdownSignal, RecvShutdown, Flush (Inr ()), ReportProduce 0, DropConsumer]"

definition late_final ::
  "(CollectItem list_chan, (SegmentObject list_chan, LogData list_chan, MeterData list_chan) InnerReportSender) loop_next" where
  "late_final = ReportSender_run list_mpsc list_mpsc list_mpsc list_mpsc late_events (loop_start (channel_new None) no_sender)"

lemma late_final_eq:
  "\<exists>s. late_final = Some (s, [Accepted sample_log]) \<and> loop_result s = Some (Inr ()) \<and> is_ending (lp_phase s) \<and>
     lp_err_calls s = [] \<and> lp_sink s = no_sender"
  by (simp add: late_final_def ReportSender_run_def late_events_def loop_start_def
      channel_new_def report_check_def report_produce_def UnboundedSender_produce_def list_mpsc_def
      lc_push_def Receiver_ops_def Receiver_try_consume_def shutdown_signal_def loop_result_def work_shutdown_def
      work_flush_def work_end_def remove_nth_def Let_def)

theorem grpc_dispatches_in_order_exactly_once_witness:
  "\<exists>s outs evs1 evs2 s1 o1 o2. late_final = Some (s, outs) \<and> loop_result s = Some (Inr ()) \<and> accepted outs = [sample_log] \<and>
     dispatched outs = [] \<and> failed outs = [] \<and> lp_err_calls s = [] \<and> lp_sink s = no_sender \<and>
     late_events = evs1 @ evs2 \<and> outs = o1 @ o2 \<and>
     ReportSender_run list_mpsc list_mpsc list_mpsc list_mpsc evs1 (loop_start (channel_new None) no_sender) = Some (s1, o1) \<and>
     ReportSender_run list_mpsc list_mpsc list_mpsc list_mpsc evs2 s1 = Some (s, o2) \<and> flushed [] s1 o1 o2"
proof -
  obtain s where so: "late_final = Some (s, [Accepted sample_log])" "loop_result s = Some (Inr ())" "is_ending (lp_phase s)"
    "lp_err_calls s = []" "lp_sink s = no_sender" using late_final_eq by blast
  have init: "lc_rx (channel_new None)" "lc_items (channel_new None) = []" by (simp_all add: channel_new_def)
  have obs: "accepted [Accepted sample_log] = [sample_log]" "dispatched [Accepted sample_log] = []"
    "failed [Accepted sample_log] = []" by simp_all
  note run = so(1) [unfolded late_final_def]
  from grpc_dispatches_in_order_exactly_once [OF lc.mpsc_channel_axioms init run] so(3) show ?thesis
    using so(1,2,4,5) obs by blast
qed

text \<open>The final flush is complete: when the flush loop has ended, everything accepted so far has
  been dispatched and, while a reporter is alive, every later call of \<open>report\<close> is refused; if no thread was between its check of
  the flag and its \<open>produce\<close> at that moment, then nothing that was ever accepted is lost, whatever
  happens afterwards.\<close>

theorem grpc_flush_leaves_nothing_behind:
  assumes "mpsc_channel ch contents rx_alive tx_alive room" and "rx_alive q" and "contents q = []"
    and "ReportSender_run ch ct cl cm (evs @ [Flush net]) (loop_start q d) = Some (s, outs)"
    and "lp_phase s = Ending r"
  shows "accepted outs = dispatched outs \<and>
    (lp_reporters s \<longrightarrow> report_check x s = Some (s, [Refused x])) \<and>
    (lp_calls s = [] \<longrightarrow> ReportSender_run ch ct cl cm evs' s = Some (s', outs') \<longrightarrow>
       accepted (outs @ outs') = dispatched (outs @ outs') \<and> failed outs' = [])"
proof -
  note cq = unbounded_collect_queue [OF assms(1)]
  note run = assms(4) [unfolded ReportSender_run_def]
  have fl: "accepted outs = dispatched outs" "lp_closing s"
    "lp_reporters s \<longrightarrow> report_check x s = Some (s, [Refused x])"
    using collect_queue.flush_is_complete [OF cq assms(2) run assms(5)] assms(3) by simp_all
  have "accepted (outs @ outs') = dispatched (outs @ outs') \<and> failed outs' = []"
    if "lp_calls s = []" and run': "ReportSender_run ch ct cl cm evs' s = Some (s', outs')"
  proof -
    have none: "accepted outs' = [] \<and> failed outs' = []"
      using collect_queue.closed_run_accepts_nothing [OF cq fl(2) that(1)] run'
      unfolding ReportSender_run_def by blast
    have "ReportSender_run ch ct cl cm ((evs @ [Flush net]) @ evs') (loop_start q d) = Some (s', outs @ outs')"
      unfolding ReportSender_run_def
      by (subst loop_run_append) (use run run' in \<open>simp add: ReportSender_run_def\<close>)
    from collect_queue.loop_fifo [OF cq assms(2) this [unfolded ReportSender_run_def]] obtain rest where
      "accepted (outs @ outs') = dispatched (outs @ outs') @ rest" using assms(3) by auto
    with none fl(1) show ?thesis by simp
  qed
  with fl show ?thesis by blast
qed

theorem grpc_flush_leaves_nothing_behind_witness:
  "\<exists>s outs. sample_loop_final = Some (s, outs) \<and> accepted outs = dispatched outs \<and>
     report_check sample_log s = Some (s, [Refused sample_log])"
proof -
  obtain s outs where so: "sample_loop_final = Some (s, outs)" "lp_phase s = Ending (Inr ())" "lp_reporters s"
    using sample_loop_final_eq by blast
  have init: "lc_rx (channel_new None)" "lc_items (channel_new None) = []" by (simp_all add: channel_new_def)
  have "sample_loop_events = [ReportCheck sample_ping, ReportCheck sample_log, ReportProduce 1, ReportProduce 0,
     Consume (Inr ()), ShutdownSignal, RecvShutdown, ReportCheck sample_log, Flush (Inl ''down'')] @ [Flush (Inr ())]"
    by (simp add: sample_loop_events_def)
  note run = so(1) [unfolded sample_loop_final_def this]
  show ?thesis
    using grpc_flush_leaves_nothing_behind [OF lc.mpsc_channel_axioms init run so(2)] so(1,3) by blast
qed

text \<open>C23. Graceful shutdown completes: in every state the task can be in while it works and before the
  signal, as long as a reporter still holds the sending end, the signal is taken up, the task
  dispatches everything that is queued, in as many steps as there are items and four more, and
  returns \<open>Ok\<close>.\<close>

theorem grpc_graceful_shutdown_completes:
  assumes "mpsc_channel ch contents rx_alive tx_alive room" and "tx_alive q"
    and "ReportSender_run ch ct cl cm evs (loop_start q d) = Some (s, outs)"
    and "lp_phase s = Working" and "lp_signal s = AwaitingSignal" and "lp_reporters s"
  shows "\<exists>s' outs'. ReportSender_run ch ct cl cm
      ([ShutdownSignal, RecvShutdown] @ replicate (length (contents (lp_queue s))) (Flush net) @
       [Flush net, DropConsumer]) s = Some (s', outs') \<and>
    loop_result s' = Some (Inr ()) \<and> dispatched outs' = contents (lp_queue s)"
proof -
  note cq = unbounded_collect_queue [OF assms(1)]
  have "tx_alive (lp_queue s)"
    using collect_queue.loop_run_connected [OF cq _ assms(3) [unfolded ReportSender_run_def]] assms(2,6)
    by (simp add: loop_start_def)
  from collect_queue.graceful_shutdown [OF cq assms(4,5) this] show ?thesis unfolding ReportSender_run_def .
qed

theorem grpc_graceful_shutdown_completes_witness:
  "\<exists>s outs s' outs'. ReportSender_run list_mpsc list_mpsc list_mpsc list_mpsc
      [ReportCheck sample_log, ReportProduce 0] (loop_start (channel_new None) no_sender) = Some (s, outs) \<and>
    ReportSender_run list_mpsc list_mpsc list_mpsc list_mpsc
      ([ShutdownSignal, RecvShutdown] @ replicate (length (lc_items (lp_queue s))) (Flush (Inr ())) @
       [Flush (Inr ()), DropConsumer]) s = Some (s', outs') \<and>
    loop_result s' = Some (Inr ()) \<and> dispatched outs' = [sample_log]"
proof -
  obtain s outs where s: "ReportSender_run list_mpsc list_mpsc list_mpsc list_mpsc
      [ReportCheck sample_log, ReportProduce 0] (loop_start (channel_new None) no_sender) = Some (s, outs)"
    "lp_phase s = Working" "lp_signal s = AwaitingSignal" "lp_reporters s" "lc_items (lp_queue s) = [sample_log]"
    by (simp add: ReportSender_run_def loop_start_def channel_new_def report_check_def report_produce_def
        UnboundedSender_produce_def list_mpsc_def lc_push_def remove_nth_def Let_def)
  have "lc_tx (channel_new None)" by (simp add: channel_new_def)
  from grpc_graceful_shutdown_completes [OF lc.mpsc_channel_axioms this s(1-4)] s(1,5) show ?thesis by metis
qed

text \<open>C37. Without a shutdown signal the task cannot end well: in every interleaving in which the signal does
  not come, the task ends only when the last reporter has been dropped; it has then dispatched
  everything that was accepted, and yet returns the error of a closed channel.  Once the reporters
  are gone it can always be brought there.\<close>

theorem grpc_task_fails_when_reporters_are_gone:
  assumes "mpsc_channel ch contents rx_alive tx_alive room" and "rx_alive q" and "tx_alive q" and "contents q = []"
    and "ReportSender_run ch ct cl cm evs (loop_start q d) = Some (s, outs)" and "ShutdownSignal \<notin> set evs"
  shows "(\<forall>r. loop_result s = Some r \<longrightarrow> r = Inl (Other ''receiving on a closed channel'') \<and>
       \<not> lp_reporters s \<and> accepted outs = dispatched outs) \<and>
    (\<not> lp_reporters s \<longrightarrow> (\<exists>evs' s' outs'. ReportSender_run ch ct cl cm evs' s = Some (s', outs') \<and>
       loop_result s' = Some (Inl (Other ''receiving on a closed channel''))))"
proof -
  note cq = unbounded_collect_queue [OF assms(1)]
  have u: "collect_queue.unsignalled contents rx_alive tx_alive [] outs s"
    using collect_queue.unsignalled_run [OF cq _ assms(5) [unfolded ReportSender_run_def] assms(6), of "[]" "[]"]
      collect_queue.unsignalled_start [OF cq assms(2,3), of d] assms(4) by simp
  have "\<exists>evs' s' outs'. ReportSender_run ch ct cl cm evs' s = Some (s', outs') \<and>
      loop_result s' = Some (Inl (Other ''receiving on a closed channel''))" if "\<not> lp_reporters s"
  proof -
    have "\<not> tx_alive (lp_queue s)" using u that by (simp add: collect_queue.unsignalled_def [OF cq])
    then obtain evs' s' outs' where s': "ReportSender_run ch ct cl cm evs' s = Some (s', outs')" "is_done (lp_phase s')"
      "set evs' \<subseteq> {Consume (Inr ()), Flush (Inr ()), DropConsumer}"
      using collect_queue.working_ends [OF cq, of s] unfolding ReportSender_run_def by metis
    have "ShutdownSignal \<notin> set evs'" using s'(3) by auto
    note u' = collect_queue.unsignalled_run [OF cq u s'(1) [unfolded ReportSender_run_def] this]
    show ?thesis using collect_queue.unsignalled_result(1) [OF cq u'] s'(1,2)
      by (auto simp: is_done_def split: work_phase.splits)
  qed
  moreover have "r = Inl (Other ''receiving on a closed channel'') \<and> \<not> lp_reporters s \<and> accepted outs = dispatched outs"
    if "loop_result s = Some r" for r
    using collect_queue.unsignalled_result [OF cq u] that by (auto split: work_phase.splits)
  ultimately show ?thesis by blast
qed

text \<open>A log record is reported, the reporter is dropped, and the task comes to its end.\<close>

definition abandoned_events :: "loop_event list" where
  "abandoned_events = [ReportCheck sample_log, ReportProduce 0, DropReporters, Consume (Inr ()), Consume (Inr ()), Flush (Inr ()), DropConsumer]"

theorem grpc_task_fails_when_reporters_are_gone_witness:
  "\<exists>s outs. ReportSender_run list_mpsc list_mpsc list_mpsc list_mpsc abandoned_events
      (loop_start (channel_new None) no_sender) = Some (s, outs) \<and>
    loop_result s = Some (Inl (Other ''receiving on a closed channel'')) \<and> dispatched outs = [sample_log] \<and>
    accepted outs = dispatched outs"
proof -
  have "case ReportSender_run list_mpsc list_mpsc list_mpsc list_mpsc abandoned_events
      (loop_start (channel_new None) no_sender) of None \<Rightarrow> False
    | Some (s, outs) \<Rightarrow> loop_result s \<noteq> None \<and> dispatched outs = [sample_log]" by code_simp
  then obtain s outs r where s: "ReportSender_run list_mpsc list_mpsc list_mpsc list_mpsc abandoned_events
      (loop_start (channel_new None) no_sender) = Some (s, outs)" "loop_result s = Some r" "dispatched outs = [sample_log]"
    by (auto split: option.splits)
  have init: "lc_rx (channel_new None)" "lc_tx (channel_new None)" "lc_items (channel_new None) = []"
    by (simp_all add: channel_new_def)
  have "ShutdownSignal \<notin> set abandoned_events" by (simp add: abandoned_events_def)
  from grpc_task_fails_when_reporters_are_gone [OF lc.mpsc_channel_axioms init s(1) this] s show ?thesis by auto
qed

section \<open>Properties of the routing\<close>

fun traces_of :: "CollectItem list \<Rightarrow> SegmentObject list" where
  "traces_of [] = []" | "traces_of (Trace x # xs) = x # traces_of xs" | "traces_of (_ # xs) = traces_of xs"

fun logs_of :: "CollectItem list \<Rightarrow> LogData list" where
  "logs_of [] = []" | "logs_of (Log x # xs) = x # logs_of xs" | "logs_of (_ # xs) = logs_of xs"

fun meters_of :: "CollectItem list \<Rightarrow> MeterData list" where
  "meters_of [] = []" | "meters_of (Meter x # xs) = x # meters_of xs" | "meters_of (_ # xs) = meters_of xs"

fun management_of :: "CollectItem list \<Rightarrow> CollectItem list" where
  "management_of [] = []"
| "management_of (Instance x # xs) = Instance x # management_of xs"
| "management_of (Ping x # xs) = Ping x # management_of xs"
| "management_of (_ # xs) = management_of xs"

fun route_all ::
  "('ct, SegmentObject) mpsc \<Rightarrow> ('cl, LogData) mpsc \<Rightarrow> ('cm, MeterData) mpsc \<Rightarrow> (string + unit) list \<Rightarrow>
   CollectItem list \<Rightarrow> ('ct, 'cl, 'cm) InnerReportSender \<Rightarrow> ('ct, 'cl, 'cm) InnerReportSender" where
  "route_all ct cl cm (n # ns) (x # xs) s = route_all ct cl cm ns xs (InnerReportSender_report ct cl cm n x s)"
| "route_all ct cl cm _ _ s = s"

text \<open>One item sent: it is at the end of the channel, or the error handler was called.\<close>

lemma try_send_step:
  assumes "mpsc_channel c con rx tx room"
  shows "(try_send_error (snd (mp_try_send c x q)) = None \<and> con (fst (mp_try_send c x q)) = con q @ [x]) \<or>
    (\<exists>e. try_send_error (snd (mp_try_send c x q)) = Some e \<and> con (fst (mp_try_send c x q)) = con q)"
  using mpsc_channel.try_send_result [OF assms, of x q] mpsc_channel.try_send_contents [OF assms, of x q]
  by (auto split: if_splits)

definition routed ::
  "('ct \<Rightarrow> SegmentObject list) \<Rightarrow> ('cl \<Rightarrow> LogData list) \<Rightarrow> ('cm \<Rightarrow> MeterData list) \<Rightarrow> CollectItem list \<Rightarrow>
   ('ct, 'cl, 'cm) InnerReportSender \<Rightarrow> ('ct, 'cl, 'cm) InnerReportSender \<Rightarrow> bool" where
  "routed kt kl km xs s s' \<longleftrightarrow>
     (\<exists>ts ls ms errs.
        kt (irs_trace s') = kt (irs_trace s) @ ts \<and> subseq ts (traces_of xs) \<and>
        kl (irs_log s') = kl (irs_log s) @ ls \<and> subseq ls (logs_of xs) \<and>
        km (irs_meter s') = km (irs_meter s) @ ms \<and> subseq ms (meters_of xs) \<and>
        irs_management s' = irs_management s @ management_of xs \<and>
        irs_err_calls s' = irs_err_calls s @ errs \<and>
        length ts + length ls + length ms + length (management_of xs) + length errs = length xs)"

lemma routed_step:
  assumes "mpsc_channel ct kt ra ta ma" and "mpsc_channel cl kl rb tb mb" and "mpsc_channel cm km rc td mc"
    and "routed kt kl km xs (InnerReportSender_report ct cl cm n x s) s'"
  shows "routed kt kl km (x # xs) s s'"
proof (cases x)
  case (Trace t)
  from try_send_step [OF assms(1), of t "irs_trace s"] assms(4) Trace show ?thesis
    unfolding routed_def by (fastforce simp: err_call_def case_prod_beta)
next
  case (Log l)
  from try_send_step [OF assms(2), of l "irs_log s"] assms(4) Log show ?thesis
    unfolding routed_def by (fastforce simp: err_call_def case_prod_beta)
next
  case (Meter m)
  from try_send_step [OF assms(3), of m "irs_meter s"] assms(4) Meter show ?thesis
    unfolding routed_def by (fastforce simp: err_call_def case_prod_beta)
qed (use assms(4) in \<open>fastforce simp: routed_def status_call_def split: sum.splits\<close>)+

lemma routed_all:
  assumes "mpsc_channel ct kt ra ta ma" and "mpsc_channel cl kl rb tb mb" and "mpsc_channel cm km rc td mc"
    and "length ns = length xs"
  shows "routed kt kl km xs s (route_all ct cl cm ns xs s)"
  using assms(4)
proof (induction ns xs arbitrary: s rule: list_induct2)
  case Nil
  show ?case by (simp add: routed_def)
next
  case (Cons n ns x xs)
  show ?case
    using routed_step [OF assms(1-3) Cons.IH [of "InnerReportSender_report ct cl cm n x s"]] by simp
qed

text \<open>Routing loses nothing silently: for any sequence of items and any answers of the server, traces,
  logs and meters are appended, in their order, to the channel of their kind and to no other,
  instance properties and pings go to the management client one by one, and each item that its
  channel did not take (full or closed) has caused exactly one call of the error handler.\<close>

theorem grpc_routing_loses_nothing_silently:
  assumes "mpsc_channel ct kt ra ta ma" and "mpsc_channel cl kl rb tb mb" and "mpsc_channel cm km rc td mc"
    and "length ns = length xs"
  shows "\<exists>ts ls ms errs. (let s' = route_all ct cl cm ns xs s in
     kt (irs_trace s') = kt (irs_trace s) @ ts \<and> subseq ts (traces_of xs) \<and>
     kl (irs_log s') = kl (irs_log s) @ ls \<and> subseq ls (logs_of xs) \<and>
     km (irs_meter s') = km (irs_meter s) @ ms \<and> subseq ms (meters_of xs) \<and>
     irs_management s' = irs_management s @ management_of xs \<and>
     irs_err_calls s' = irs_err_calls s @ errs \<and>
     length ts + length ls + length ms + length (management_of xs) + length errs = length xs)"
  using routed_all [OF assms] unfolding routed_def Let_def .

theorem grpc_routing_loses_nothing_silently_witness:
  "\<exists>ts ls ms errs. (let s' = route_all list_mpsc list_mpsc list_mpsc [Inr (), Inl ''x''] [sample_log, sample_ping]
       (no_sender\<lparr>irs_log := channel_new (Some 0)\<rparr>) in
     lc_items (irs_trace s') = lc_items (irs_trace (no_sender\<lparr>irs_log := channel_new (Some 0)\<rparr>)) @ ts \<and>
     subseq ts (traces_of [sample_log, sample_ping]) \<and>
     lc_items (irs_log s') = lc_items (irs_log (no_sender\<lparr>irs_log := channel_new (Some 0)\<rparr>)) @ ls \<and>
     subseq ls (logs_of [sample_log, sample_ping]) \<and>
     lc_items (irs_meter s') = lc_items (irs_meter (no_sender\<lparr>irs_log := channel_new (Some 0)\<rparr>)) @ ms \<and>
     subseq ms (meters_of [sample_log, sample_ping]) \<and>
     irs_management s' = irs_management (no_sender\<lparr>irs_log := channel_new (Some 0)\<rparr>) @
       management_of [sample_log, sample_ping] \<and>
     irs_err_calls s' = irs_err_calls (no_sender\<lparr>irs_log := channel_new (Some 0)\<rparr>) @ errs \<and>
     length ts + length ls + length ms + length (management_of [sample_log, sample_ping]) + length errs =
       length [sample_log, sample_ping])"
  by (rule grpc_routing_loses_nothing_silently
      [OF lc.mpsc_channel_axioms lc.mpsc_channel_axioms lc.mpsc_channel_axioms]) simp

text \<open>\<open>reporting\<close> works once: the first call on a new reporter, however it was configured and
  whatever it has reported, returns channels of capacity 255, and every call after it panics with
  the documented message and changes nothing.\<close>

theorem grpc_reporting_works_once:
  assumes "gr_consumer r = (\<not> gr_is_reporting r)"
  shows "(case GrpcReporter_reporting mk_t mk_l mk_m r of (r', res) \<Rightarrow>
      gr_is_reporting r' \<and> gr_consumer r' = (\<not> gr_is_reporting r') \<and>
      (gr_is_reporting r \<longrightarrow> r' = r \<and> res = Inl (Panic ''reporting already called'')) \<and>
      (\<not> gr_is_reporting r \<longrightarrow> (\<exists>rp. res = Inr rp \<and> irs_trace (rp_sender rp) = mk_t 255 \<and>
         irs_log (rp_sender rp) = mk_l 255 \<and> irs_meter (rp_sender rp) = mk_m 255))) \<and>
    (case GrpcReporter_report produce x (r, h) of ((r', h'), res) \<Rightarrow> gr_consumer r' = (\<not> gr_is_reporting r')) \<and>
    gr_consumer (with_err_handle eh r) = (\<not> gr_is_reporting (with_err_handle eh r)) \<and>
    gr_consumer (with_authentication a r) = (\<not> gr_is_reporting (with_authentication a r)) \<and>
    gr_consumer (with_custom_intercept f r) = (\<not> gr_is_reporting (with_custom_intercept f r))"
  using assms
  by (auto simp: GrpcReporter_reporting_def GrpcReporter_report_def with_err_handle_def
      with_authentication_def with_custom_intercept_def Let_def split: prod.splits sum.splits)

theorem grpc_reporting_works_once_witness:
  "let r = (GrpcReporter_new_with_pc (\<lambda>m e h. h @ [(m, e)]) (channel_new None) ::
       (CollectItem list_chan, (string \<times> string) list, unit) GrpcReporter);
     mk = (\<lambda>n. channel_new (Some n) :: unit list_chan) in
   gr_is_reporting (fst (GrpcReporter_reporting mk mk mk r)) \<and>
   snd (GrpcReporter_reporting mk mk mk (fst (GrpcReporter_reporting mk mk mk r))) =
     Inl (Panic ''reporting already called'')"
proof -
  let ?r = "GrpcReporter_new_with_pc (\<lambda>m e h. h @ [(m, e)]) (channel_new None) ::
       (CollectItem list_chan, (string \<times> string) list, unit) GrpcReporter"
  let ?mk = "\<lambda>n. channel_new (Some n) :: unit list_chan"
  have ok: "gr_consumer ?r = (\<not> gr_is_reporting ?r)" by (simp add: GrpcReporter_new_with_pc_def)
  let ?r1 = "fst (GrpcReporter_reporting ?mk ?mk ?mk ?r)"
  have r1: "gr_is_reporting ?r1" "gr_consumer ?r1 = (\<not> gr_is_reporting ?r1)"
    using grpc_reporting_works_once [OF ok, of ?mk ?mk ?mk] by (auto simp: case_prod_beta)
  then have "snd (GrpcReporter_reporting ?mk ?mk ?mk ?r1) = Inl (Panic ''reporting already called'')"
    using grpc_reporting_works_once [OF r1(2), of ?mk ?mk ?mk] by (auto simp: case_prod_beta)
  with r1(1) show ?thesis by simp
qed

lemma first_err_Inr: "first_err rs = Inr () \<longleftrightarrow> list_all (\<lambda>r. \<exists>x. r = Inr x) rs"
  by (induction rs rule: first_err.induct) auto

lemma first_err_Inl: "first_err rs = Inl e \<Longrightarrow> Inl e \<in> set rs"
  by (induction rs rule: first_err.induct) auto

lemma no_panic_iff:
  "first_err (List.map_filter id tasks) = Inr () \<longleftrightarrow> list_all (\<lambda>t. \<forall>e. t \<noteq> Some (Inl e)) tasks"
proof (induction tasks)
  case (Cons t ts)
  then show ?case
    by (cases t; cases "the t") (auto simp: List.map_filter_def)
qed (simp add: List.map_filter_def)

lemma those_iff: "those ts = None \<longleftrightarrow> None \<in> set ts"
  by (induction ts) (auto split: option.splits)

lemma results_ok:
  "those tasks = Some rs \<Longrightarrow> list_all (\<lambda>t. \<forall>e. t \<noteq> Some (Inl e)) tasks \<Longrightarrow>
   first_err (List.map_filter (\<lambda>r. case r of Inr x \<Rightarrow> Some x | Inl _ \<Rightarrow> None) rs) = Inr () \<longleftrightarrow>
   list_all (\<lambda>t. t = Some (Inr (Inr ()))) tasks"
proof (induction tasks arbitrary: rs)
  case (Cons t ts)
  then obtain r rs' where r: "t = Some r" "those ts = Some rs'" "rs = r # rs'"
    by (auto split: option.splits)
  with Cons.prems(2) obtain x where "r = Inr x" by (cases r) auto
  with Cons.IH [OF r(2)] Cons.prems(2) r show ?case
    by (cases x) (auto simp: List.map_filter_def)
qed (simp add: List.map_filter_def)

text \<open>The handle of the spawned tasks resolves to \<open>Ok\<close> only when all of them have ended without a
  panic and with \<open>Ok\<close>; a task that panicked is reported at once, an error of a task when all have ended.\<close>

theorem reporting_handle_resolves_when_all_tasks_end:
  "(ReportingJoinHandle_poll tasks = Ready (Inr ()) \<longleftrightarrow> list_all (\<lambda>t. t = Some (Inr (Inr ()))) tasks) \<and>
   (ReportingJoinHandle_poll tasks = Pending \<longleftrightarrow>
      list_all (\<lambda>t. \<forall>e. t \<noteq> Some (Inl e)) tasks \<and> None \<in> set tasks)"
proof (cases "first_err (List.map_filter id tasks)")
  case (Inl e)
  then have "\<not> list_all (\<lambda>t. \<forall>e. t \<noteq> Some (Inl e)) tasks"
    using no_panic_iff [of tasks] by simp
  moreover from this have "\<not> list_all (\<lambda>t. t = Some (Inr (Inr ()))) tasks" by (fastforce simp: list_all_iff)
  ultimately show ?thesis using Inl by (simp add: ReportingJoinHandle_poll_def)
next
  case (Inr u)
  then have np: "list_all (\<lambda>t. \<forall>e. t \<noteq> Some (Inl e)) tasks" using no_panic_iff [of tasks] by simp
  show ?thesis
  proof (cases "those tasks")
    case None
    then have "None \<in> set tasks" by (simp add: those_iff)
    moreover from this have "\<not> list_all (\<lambda>t. t = Some (Inr (Inr ()))) tasks" by (auto simp: list_all_iff)
    ultimately show ?thesis using None Inr np by (simp add: ReportingJoinHandle_poll_def)
  next
    case (Some rs)
    then have "None \<notin> set tasks" using those_iff [of tasks] by auto
    with Some Inr np results_ok [OF Some np] show ?thesis by (simp add: ReportingJoinHandle_poll_def)
  qed
qed

end
