(* ===== verification/Grpc_Stream.thy ===== *)
theory Grpc_Stream
  imports Grpc_Reporter
begin

text \<open>
  \<^verbatim>\<open>src/src/reporter/grpc.rs\<close>, the side of the server: \<open>ReceiveFrom\<close> turns a channel into a sequence of
  streams, each of which ends when the channel has been idle for 30 seconds or is closed, and the
  three tasks \<open>TraceReceiveReporter\<close>, \<open>LogReceiveReporter\<close> and \<open>MeterReceiveReporter\<close> send stream after
  stream until the channel is closed.  The three differ in the type of the items, the client and
  the message for the status handler.
\<close>

section \<open>ReceiveFrom\<close>

record 'q ReceiveFrom =
  rf_receiver :: 'q
  rf_is_closed :: bool

definition ReceiveFrom_new :: "'q \<Rightarrow> 'q ReceiveFrom" where
  "ReceiveFrom_new q = \<lparr>rf_receiver = q, rf_is_closed = False\<rparr>"

text \<open>\<open>stream()\<close> gives a stream unless the flag is set.\<close>

definition ReceiveFrom_stream :: "'q ReceiveFrom \<Rightarrow> bool" where
  "ReceiveFrom_stream rf \<longleftrightarrow> \<not> rf_is_closed rf"

definition ReceiveFromStream_poll_next ::
  "('q, 'i) mpsc \<Rightarrow> 'q ReceiveFrom \<Rightarrow> 'q ReceiveFrom \<times> 'i option poll" where
  "ReceiveFromStream_poll_next ch rf =
     (case mp_poll_recv ch (rf_receiver rf) of
        (q', Pending) \<Rightarrow> (rf\<lparr>rf_receiver := q'\<rparr>, Pending)
      | (q', Ready None) \<Rightarrow> (rf\<lparr>rf_receiver := q', rf_is_closed := True\<rparr>, Ready None)
      | (q', Ready (Some x)) \<Rightarrow> (rf\<lparr>rf_receiver := q'\<rparr>, Ready (Some x)))"

section \<open>The receiving tasks\<close>

text \<open>
  \<open>Streaming\<close>: a call of the client's \<open>collect\<close> is under way and pulls items from the stream;
  \<open>StreamEnded\<close>: the stream has given its last item.  \<open>rt_sent\<close> is what was pulled, stream by stream;
  \<open>rt_sender\<close>: the dispatching task still holds the sending end.
\<close>

datatype recv_phase = AtLoop | Streaming | StreamEnded | Returned

record ('q, 'i) ReceiveReporter =
  rt_from :: "'q ReceiveFrom"
  rt_sender :: bool
  rt_phase :: recv_phase
  rt_sent :: "'i list list"
  rt_status_calls :: "(string \<times> string) list"

definition ReceiveReporter_start :: "'q \<Rightarrow> ('q, 'i) ReceiveReporter" where
  "ReceiveReporter_start q =
     \<lparr>rt_from = ReceiveFrom_new q, rt_sender = True, rt_phase = AtLoop, rt_sent = [], rt_status_calls = []\<rparr>"

text \<open>\<open>SendItem\<close> and \<open>DropSender\<close> are steps of the dispatching task, the others of the receiving one;
  \<open>Elapsed\<close> is the timeout, which is looked at only when the channel has nothing ready.\<close>

datatype 'i recv_event =
    SendItem 'i
  | DropSender
  | OpenStream
  | PollNext
  | Elapsed
  | CollectReturns "string + unit"

fun recv_step ::
  "('q, 'i) mpsc \<Rightarrow> string \<Rightarrow> 'i recv_event \<Rightarrow> ('q, 'i) ReceiveReporter \<Rightarrow> ('q, 'i) ReceiveReporter option" where
  "recv_step ch msg (SendItem x) t =
     (if rt_sender t then
        Some (t\<lparr>rt_from := (rt_from t)\<lparr>rf_receiver := fst (mp_try_send ch x (rf_receiver (rt_from t)))\<rparr>\<rparr>)
      else None)"
| "recv_step ch msg DropSender t =
     (if rt_sender t then
        Some (t\<lparr>rt_sender := False,
                rt_from := (rt_from t)\<lparr>rf_receiver := mp_drop_tx ch (rf_receiver (rt_from t))\<rparr>\<rparr>)
      else None)"
| "recv_step ch msg OpenStream t =
     (if rt_phase t = AtLoop then
        Some (if ReceiveFrom_stream (rt_from t) then t\<lparr>rt_phase := Streaming, rt_sent := rt_sent t @ [[]]\<rparr>
              else t\<lparr>rt_phase := Returned\<rparr>)
      else None)"
| "recv_step ch msg PollNext t =
     (if rt_phase t = Streaming then
        (case ReceiveFromStream_poll_next ch (rt_from t) of
           (rf', Pending) \<Rightarrow> None
         | (rf', Ready None) \<Rightarrow> Some (t\<lparr>rt_from := rf', rt_phase := StreamEnded\<rparr>)
         | (rf', Ready (Some x)) \<Rightarrow>
             Some (t\<lparr>rt_from := rf', rt_sent := butlast (rt_sent t) @ [last (rt_sent t) @ [x]]\<rparr>))
      else None)"
| "recv_step ch msg Elapsed t =
     (if rt_phase t = Streaming \<and> snd (ReceiveFromStream_poll_next ch (rt_from t)) = Pending
      then Some (t\<lparr>rt_phase := StreamEnded\<rparr>) else None)"
| "recv_step ch msg (CollectReturns r) t =
     (if rt_phase t = Streaming \<or> rt_phase t = StreamEnded then
        Some (case r of
            Inl e \<Rightarrow> t\<lparr>rt_phase := AtLoop, rt_status_calls := rt_status_calls t @ [(msg, e)]\<rparr>
          | Inr _ \<Rightarrow> t\<lparr>rt_phase := AtLoop\<rparr>)
      else None)"

fun recv_run ::
  "('q, 'i) mpsc \<Rightarrow> string \<Rightarrow> 'i recv_event list \<Rightarrow> ('q, 'i) ReceiveReporter \<Rightarrow> ('q, 'i) ReceiveReporter option" where
  "recv_run ch msg [] t = Some t"
| "recv_run ch msg (ev # evs) t = Option.bind (recv_step ch msg ev t) (recv_run ch msg evs)"

text \<open>The three tasks.\<close>

definition TraceReceiveReporter_run ::
  "('q, SegmentObject) mpsc \<Rightarrow> SegmentObject recv_event list \<Rightarrow> ('q, SegmentObject) ReceiveReporter \<Rightarrow>
   ('q, SegmentObject) ReceiveReporter option" where
  "TraceReceiveReporter_run ch = recv_run ch ''Collect trace segment by stream failed''"

definition LogReceiveReporter_run ::
  "('q, LogData) mpsc \<Rightarrow> LogData recv_event list \<Rightarrow> ('q, LogData) ReceiveReporter \<Rightarrow>
   ('q, LogData) ReceiveReporter option" where
  "LogReceiveReporter_run ch = recv_run ch ''Collect log data by stream failed''"

definition MeterReceiveReporter_run ::
  "('q, MeterData) mpsc \<Rightarrow> MeterData recv_event list \<Rightarrow> ('q, MeterData) ReceiveReporter \<Rightarrow>
   ('q, MeterData) ReceiveReporter option" where
  "MeterReceiveReporter_run ch = recv_run ch ''Collect meter data by stream failed''"

section \<open>Invariant\<close>

text \<open>The items the channel takes in the course of a run.\<close>

fun taken :: "('q, 'i) mpsc \<Rightarrow> 'i recv_event \<Rightarrow> ('q, 'i) ReceiveReporter \<Rightarrow> 'i list" where
  "taken ch (SendItem x) t = (if snd (mp_try_send ch x (rf_receiver (rt_from t))) = SendOk then [x] else [])"
| "taken ch _ t = []"

fun all_taken ::
  "('q, 'i) mpsc \<Rightarrow> string \<Rightarrow> 'i recv_event list \<Rightarrow> ('q, 'i) ReceiveReporter \<Rightarrow> 'i list" where
  "all_taken ch msg [] t = []"
| "all_taken ch msg (ev # evs) t =
     taken ch ev t @ (case recv_step ch msg ev t of None \<Rightarrow> [] | Some t' \<Rightarrow> all_taken ch msg evs t')"

context mpsc_channel
begin

text \<open>What the channel took is what was pulled and what is still in it; the flag is set only on a
  closed and empty channel.\<close>

definition recv_inv :: "'i list \<Rightarrow> ('q, 'i) ReceiveReporter \<Rightarrow> bool" where
  "recv_inv sent t \<longleftrightarrow>
     concat (rt_sent t) @ contents (rf_receiver (rt_from t)) = sent \<and>
     tx_alive (rf_receiver (rt_from t)) = rt_sender t \<and>
     (rt_phase t = Streaming \<longrightarrow> rt_sent t \<noteq> []) \<and>
     (rf_is_closed (rt_from t) \<longrightarrow> \<not> rt_sender t \<and> contents (rf_receiver (rt_from t)) = []) \<and>
     (rt_phase t = Returned \<longrightarrow> rf_is_closed (rt_from t))"

lemma poll_next_cases:
  "ReceiveFromStream_poll_next ch rf =
   (case contents (rf_receiver rf) of
      x # xs \<Rightarrow> (rf\<lparr>rf_receiver := fst (mp_poll_recv ch (rf_receiver rf))\<rparr>, Ready (Some x))
    | [] \<Rightarrow> if tx_alive (rf_receiver rf) then (rf\<lparr>rf_receiver := fst (mp_poll_recv ch (rf_receiver rf))\<rparr>, Pending)
            else (rf\<lparr>rf_receiver := fst (mp_poll_recv ch (rf_receiver rf)), rf_is_closed := True\<rparr>, Ready None))"
  by (cases "mp_poll_recv ch (rf_receiver rf)")
    (use poll_recv_result [of "rf_receiver rf"] in
      \<open>auto simp: ReceiveFromStream_poll_next_def split: list.splits if_splits\<close>)

lemma concat_extend_last: "xss \<noteq> [] \<Longrightarrow> concat (butlast xss @ [last xss @ [x]]) = concat xss @ [x]"
  by (cases xss rule: rev_cases) auto

lemma recv_step_inv:
  assumes "recv_inv sent t" and "recv_step ch msg ev t = Some t'"
  shows "recv_inv (sent @ taken ch ev t) t'"
proof (cases ev)
  case (SendItem x)
  with assms show ?thesis
    by (auto simp: recv_inv_def try_send_contents try_send_alive try_send_result split: if_splits)
next
  case PollNext
  then have ph: "rt_phase t = Streaming" using assms(2) by (auto split: if_splits)
  show ?thesis
  proof (cases "contents (rf_receiver (rt_from t))")
    case Nil
    with assms(1,2) PollNext ph show ?thesis
      by (auto simp: recv_inv_def poll_next_cases poll_recv_contents poll_recv_alive split: if_splits)
  next
    case (Cons x xs)
    then have t': "t' = t\<lparr>rt_from := (rt_from t)\<lparr>rf_receiver := fst (mp_poll_recv ch (rf_receiver (rt_from t)))\<rparr>,
        rt_sent := butlast (rt_sent t) @ [last (rt_sent t) @ [x]]\<rparr>"
      using assms(2) PollNext ph by (simp add: poll_next_cases)
    have "concat (rt_sent t') = concat (rt_sent t) @ [x]"
      using assms(1) ph unfolding t' by (simp add: recv_inv_def concat_extend_last del: concat_append)
    with assms(1) Cons PollNext ph show ?thesis
      by (auto simp: t' recv_inv_def poll_recv_contents poll_recv_alive)
  qed
qed (use assms in \<open>auto simp: recv_inv_def drop_tx ReceiveFrom_stream_def split: if_splits sum.splits\<close>)

lemma recv_run_inv:
  "recv_inv sent t \<Longrightarrow> recv_run ch msg evs t = Some t' \<Longrightarrow> recv_inv (sent @ all_taken ch msg evs t) t'"
proof (induction evs arbitrary: sent t)
  case (Cons ev evs)
  then obtain t1 where t1: "recv_step ch msg ev t = Some t1" "recv_run ch msg evs t1 = Some t'"
    by (auto simp: bind_eq_Some_conv)
  from Cons.IH [OF recv_step_inv [OF Cons.prems(1) t1(1)] t1(2)] t1(1) show ?case by simp
qed simp

lemma recv_start_inv: "tx_alive q \<Longrightarrow> recv_inv (contents q) (ReceiveReporter_start q)"
  by (simp add: recv_inv_def ReceiveReporter_start_def ReceiveFrom_new_def)

text \<open>With the sender gone, pulling what is left ends the stream.\<close>

lemma drain_stream:
  assumes "rt_phase t = Streaming" and "rt_sent t \<noteq> []" and "\<not> tx_alive (rf_receiver (rt_from t))"
    and "contents (rf_receiver (rt_from t)) = xs"
  shows "\<exists>t'. recv_run ch msg (replicate (length xs) PollNext @ [PollNext]) t = Some t' \<and>
    rt_phase t' = StreamEnded \<and> rf_is_closed (rt_from t')"
  using assms
proof (induction xs arbitrary: t)
  case Nil
  then show ?case by (simp add: poll_next_cases)
next
  case (Cons x xs)
  let ?t = "t\<lparr>rt_from := (rt_from t)\<lparr>rf_receiver := fst (mp_poll_recv ch (rf_receiver (rt_from t)))\<rparr>,
      rt_sent := butlast (rt_sent t) @ [last (rt_sent t) @ [x]]\<rparr>"
  have step: "recv_step ch msg PollNext t = Some ?t" using Cons.prems by (simp add: poll_next_cases)
  have "\<exists>t'. recv_run ch msg (replicate (length xs) PollNext @ [PollNext]) ?t = Some t' \<and>
      rt_phase t' = StreamEnded \<and> rf_is_closed (rt_from t')"
    using Cons.prems by (intro Cons.IH) (simp_all add: poll_recv_contents poll_recv_alive)
  with step show ?case by (simp del: recv_step.simps)
qed

lemma recv_run_trans:
  "recv_run ch msg xs t = Some t1 \<Longrightarrow> recv_run ch msg (xs @ ys) t = recv_run ch msg ys t1"
  by (induction xs arbitrary: t) (auto simp: bind_eq_Some_conv simp del: recv_step.simps)

lemma recv_ends:
  assumes "recv_inv sent t" and "rt_phase t = AtLoop" and "\<not> rt_sender t" and "\<not> rf_is_closed (rt_from t)"
  shows "\<exists>t'. recv_run ch msg ([OpenStream] @ (replicate (length (contents (rf_receiver (rt_from t)))) PollNext @ [PollNext]) @
      [CollectReturns r, OpenStream]) t = Some t' \<and> rt_phase t' = Returned"
proof -
  let ?t = "t\<lparr>rt_phase := Streaming, rt_sent := rt_sent t @ [[]]\<rparr>"
  have o: "recv_run ch msg [OpenStream] t = Some ?t"
    using assms(2,4) by (simp add: ReceiveFrom_stream_def)
  obtain t1 where t1: "recv_run ch msg (replicate (length (contents (rf_receiver (rt_from t)))) PollNext @ [PollNext]) ?t = Some t1"
    "rt_phase t1 = StreamEnded" "rf_is_closed (rt_from t1)"
    using drain_stream [of ?t "contents (rf_receiver (rt_from t))" msg] assms(1,3) by (auto simp: recv_inv_def)
  have "\<exists>t'. recv_run ch msg [CollectReturns r, OpenStream] t1 = Some t' \<and> rt_phase t' = Returned"
    using t1 by (cases r) (simp_all add: ReceiveFrom_stream_def)
  then show ?thesis
    using recv_run_trans [OF o] recv_run_trans [OF t1(1)] by metis
qed

end

section \<open>Properties\<close>

text \<open>The streams carry everything the channel took, once and in order: over any number of streams,
  timeouts and failed calls, the items pulled by the client, stream after stream, followed by those
  still in the channel are exactly the items the channel took; and the task returns only when the
  sending end is gone and the channel is empty, so that it never abandons a queued item.\<close>

theorem grpc_streams_carry_every_item:
  assumes "mpsc_channel ch contents rx_alive tx_alive room" and "tx_alive q" and "contents q = []"
    and "recv_run ch msg evs (ReceiveReporter_start q) = Some t"
  shows "concat (rt_sent t) @ contents (rf_receiver (rt_from t)) = all_taken ch msg evs (ReceiveReporter_start q) \<and>
    (rt_phase t = Returned \<longrightarrow> \<not> rt_sender t \<and> contents (rf_receiver (rt_from t)) = [])"
  using mpsc_channel.recv_run_inv [OF assms(1) mpsc_channel.recv_start_inv [OF assms(1,2)] assms(4)] assms(3)
  by (auto simp: mpsc_channel.recv_inv_def [OF assms(1)])

definition sample_recv_events :: "nat recv_event list" where
  "sample_recv_events = [OpenStream, SendItem 1, SendItem 2, PollNext, SendItem 3, CollectReturns (Inl ''gone''),
     OpenStream, PollNext, PollNext, Elapsed, CollectReturns (Inr ()), DropSender, OpenStream, PollNext,
     CollectReturns (Inr ()), OpenStream]"

definition sample_recv :: "(nat list_chan, nat) ReceiveReporter" where
  "sample_recv = ReceiveReporter_start (channel_new (Some 2))"

lemma sample_recv_runs:
  "map_option (\<lambda>t. (rt_sent t, rt_phase t, rt_status_calls t))
     (recv_run list_mpsc ''m'' sample_recv_events sample_recv) =
   Some ([[1], [2, 3], []], Returned, [(''m'', ''gone'')])"
  by code_simp

theorem grpc_streams_carry_every_item_witness:
  "\<exists>t. recv_run list_mpsc ''m'' sample_recv_events sample_recv = Some t \<and>
     concat (rt_sent t) @ lc_items (rf_receiver (rt_from t)) = all_taken list_mpsc ''m'' sample_recv_events sample_recv \<and>
     rt_sent t = [[1], [2, 3], []]"
proof -
  obtain t where t: "recv_run list_mpsc ''m'' sample_recv_events sample_recv = Some t"
    "rt_sent t = [[1], [2, 3], []]"
    using sample_recv_runs by auto
  have init: "lc_tx (channel_new (Some 2))" "lc_items (channel_new (Some 2)) = []"
    by (simp_all add: channel_new_def)
  show ?thesis
    using grpc_streams_carry_every_item [OF lc.mpsc_channel_axioms init t(1) [unfolded sample_recv_def]] t
    by (auto simp: sample_recv_def)
qed

text \<open>The receiving tasks end: once the dispatching task has dropped its sender, a task at the head
  of its loop opens one more stream, which carries what is left, and then returns, whatever the
  server answers.\<close>

theorem grpc_receiving_task_ends:
  assumes "mpsc_channel ch contents rx_alive tx_alive room" and "tx_alive q" and "contents q = []"
    and "recv_run ch msg evs (ReceiveReporter_start q) = Some t"
    and "rt_phase t = AtLoop" and "\<not> rt_sender t" and "\<not> rf_is_closed (rt_from t)"
  shows "\<exists>t'. recv_run ch msg ([OpenStream] @
      (replicate (length (contents (rf_receiver (rt_from t)))) PollNext @ [PollNext]) @
      [CollectReturns r, OpenStream]) t = Some t' \<and> rt_phase t' = Returned"
  using mpsc_channel.recv_ends [OF assms(1) mpsc_channel.recv_run_inv [OF assms(1)
        mpsc_channel.recv_start_inv [OF assms(1,2)] assms(4)] assms(5-7)] .

theorem grpc_receiving_task_ends_witness:
  "\<exists>t t'. recv_run list_mpsc ''m'' [SendItem (7 :: nat), DropSender] sample_recv = Some t \<and>
    recv_run list_mpsc ''m'' ([OpenStream] @
      (replicate (length (lc_items (rf_receiver (rt_from t)))) PollNext @ [PollNext]) @
      [CollectReturns (Inl ''down''), OpenStream]) t = Some t' \<and> rt_phase t' = Returned"
proof -
  obtain t where t: "recv_run list_mpsc ''m'' [SendItem (7 :: nat), DropSender] sample_recv = Some t"
    "rt_phase t = AtLoop" "\<not> rt_sender t" "\<not> rf_is_closed (rt_from t)"
    by (simp add: sample_recv_def ReceiveReporter_start_def ReceiveFrom_new_def)
  have init: "lc_tx (channel_new (Some 2))" "lc_items (channel_new (Some 2)) = []"
    by (simp_all add: channel_new_def)
  show ?thesis
    using grpc_receiving_task_ends [OF lc.mpsc_channel_axioms init t(1) [unfolded sample_recv_def] t(2-4)] t(1)
    by blast
qed

end
