(* ===== verification/Grpc_System.thy ===== *)
theory Grpc_System
  imports Grpc_Stream
begin

text \<open>
  \<open>Reporting::spawn\<close> of \<^verbatim>\<open>src/src/reporter/grpc.rs\<close>: the dispatching task of \<open>Grpc_Reporter\<close> and the three
  receiving tasks of \<open>Grpc_Stream\<close> run side by side, joined by the three bounded channels whose sending
  ends \<open>InnerReportSender\<close> holds.  An event of the system is an event of one task; it acts on the shared
  channel, which both ends then see.
\<close>

section \<open>The four tasks\<close>

record ('q, 'ct, 'cl, 'cm) GrpcSystem =
  gs_loop :: "('q, ('ct, 'cl, 'cm) InnerReportSender) Loop"
  gs_trace :: "('ct, SegmentObject) ReceiveReporter"
  gs_log :: "('cl, LogData) ReceiveReporter"
  gs_meter :: "('cm, MeterData) ReceiveReporter"
  gs_signal :: bool

text \<open>Without \<open>with_graceful_shutdown\<close> the signal is \<open>pending()\<close>, which never comes.\<close>

definition Reporting_spawn :: "'q \<Rightarrow> ('ct, 'cl, 'cm, 'h) Reporting \<Rightarrow> ('q, 'ct, 'cl, 'cm) GrpcSystem" where
  "Reporting_spawn q rp =
     \<lparr>gs_loop = loop_start q (rp_sender rp),
      gs_trace = ReceiveReporter_start (irs_trace (rp_sender rp)),
      gs_log = ReceiveReporter_start (irs_log (rp_sender rp)),
      gs_meter = ReceiveReporter_start (irs_meter (rp_sender rp)),
      gs_signal = rp_shutdown_signal rp\<rparr>"

datatype sys_event =
    LoopEv loop_event
  | TraceEv "SegmentObject recv_event"
  | LogEv "LogData recv_event"
  | MeterEv "MeterData recv_event"

text \<open>The events of a receiving task itself; the others are those of its peer.\<close>

fun own_event :: "'i recv_event \<Rightarrow> bool" where
  "own_event (SendItem x) = False"
| "own_event DropSender = False"
| "own_event _ = True"

text \<open>A receiving task sees the channel as the dispatcher left it.\<close>

definition attach :: "'c \<Rightarrow> bool \<Rightarrow> ('c, 'i) ReceiveReporter \<Rightarrow> ('c, 'i) ReceiveReporter" where
  "attach q alive t = t\<lparr>rt_from := (rt_from t)\<lparr>rf_receiver := q\<rparr>, rt_sender := alive\<rparr>"

text \<open>When the work future returns, \<open>InnerReportSender\<close> is dropped with it.\<close>

definition drop_senders ::
  "('ct, SegmentObject) mpsc \<Rightarrow> ('cl, LogData) mpsc \<Rightarrow> ('cm, MeterData) mpsc \<Rightarrow>
   ('ct, 'cl, 'cm) InnerReportSender \<Rightarrow> ('ct, 'cl, 'cm) InnerReportSender" where
  "drop_senders ct cl cm s =
     s\<lparr>irs_trace := mp_drop_tx ct (irs_trace s), irs_log := mp_drop_tx cl (irs_log s),
       irs_meter := mp_drop_tx cm (irs_meter s)\<rparr>"

definition after_loop ::
  "('q, ('ct, 'cl, 'cm) InnerReportSender) Loop \<Rightarrow> bool \<Rightarrow> ('q, 'ct, 'cl, 'cm) GrpcSystem \<Rightarrow>
   ('q, 'ct, 'cl, 'cm) GrpcSystem" where
  "after_loop lp alive g =
     g\<lparr>gs_loop := lp, gs_trace := attach (irs_trace (lp_sink lp)) alive (gs_trace g),
       gs_log := attach (irs_log (lp_sink lp)) alive (gs_log g),
       gs_meter := attach (irs_meter (lp_sink lp)) alive (gs_meter g)\<rparr>"

definition set_sink ::
  "(('ct, 'cl, 'cm) InnerReportSender \<Rightarrow> ('ct, 'cl, 'cm) InnerReportSender) \<Rightarrow>
   ('q, 'ct, 'cl, 'cm) GrpcSystem \<Rightarrow> ('q, 'ct, 'cl, 'cm) GrpcSystem" where
  "set_sink f g = g\<lparr>gs_loop := (gs_loop g)\<lparr>lp_sink := f (lp_sink (gs_loop g))\<rparr>\<rparr>"

fun gs_step ::
  "('q, CollectItem) mpsc \<Rightarrow> ('ct, SegmentObject) mpsc \<Rightarrow> ('cl, LogData) mpsc \<Rightarrow> ('cm, MeterData) mpsc \<Rightarrow>
   sys_event \<Rightarrow> ('q, 'ct, 'cl, 'cm) GrpcSystem \<Rightarrow> (('q, 'ct, 'cl, 'cm) GrpcSystem \<times> loop_out list) option" where
  "gs_step ch ct cl cm (LoopEv ev) g =
     (if ev = ShutdownSignal \<and> \<not> gs_signal g then None
      else (case loop_step (UnboundedSender_produce ch) (Receiver_ops ch) (InnerReportSender_report ct cl cm) ev (gs_loop g) of
              None \<Rightarrow> None
            | Some (lp, out) \<Rightarrow>
                if ev = DropConsumer
                then Some (after_loop (lp\<lparr>lp_sink := drop_senders ct cl cm (lp_sink lp)\<rparr>) False g, out)
                else Some (after_loop lp (rt_sender (gs_trace g)) g, out)))"
| "gs_step ch ct cl cm (TraceEv ev) g =
     (if own_event ev then
        map_option (\<lambda>t. (set_sink (\<lambda>s. s\<lparr>irs_trace := rf_receiver (rt_from t)\<rparr>) (g\<lparr>gs_trace := t\<rparr>), []))
          (recv_step ct ''Collect trace segment by stream failed'' ev (gs_trace g))
      else None)"
| "gs_step ch ct cl cm (LogEv ev) g =
     (if own_event ev then
        map_option (\<lambda>t. (set_sink (\<lambda>s. s\<lparr>irs_log := rf_receiver (rt_from t)\<rparr>) (g\<lparr>gs_log := t\<rparr>), []))
          (recv_step cl ''Collect log data by stream failed'' ev (gs_log g))
      else None)"
| "gs_step ch ct cl cm (MeterEv ev) g =
     (if own_event ev then
        map_option (\<lambda>t. (set_sink (\<lambda>s. s\<lparr>irs_meter := rf_receiver (rt_from t)\<rparr>) (g\<lparr>gs_meter := t\<rparr>), []))
          (recv_step cm ''Collect meter data by stream failed'' ev (gs_meter g))
      else None)"

fun gs_run ::
  "('q, CollectItem) mpsc \<Rightarrow> ('ct, SegmentObject) mpsc \<Rightarrow> ('cl, LogData) mpsc \<Rightarrow> ('cm, MeterData) mpsc \<Rightarrow>
   sys_event list \<Rightarrow> ('q, 'ct, 'cl, 'cm) GrpcSystem \<Rightarrow> (('q, 'ct, 'cl, 'cm) GrpcSystem \<times> loop_out list) option" where
  "gs_run ch ct cl cm [] g = Some (g, [])"
| "gs_run ch ct cl cm (ev # evs) g =
     (case gs_step ch ct cl cm ev g of
        None \<Rightarrow> None
      | Some (g1, out1) \<Rightarrow>
          (case gs_run ch ct cl cm evs g1 of
             None \<Rightarrow> None
           | Some (g2, out2) \<Rightarrow> Some (g2, out1 @ out2)))"

text \<open>What the join handle of \<open>spawn\<close> sees of the tasks; a receiving task has no error to return.\<close>

definition receive_handle :: "('c, 'i) ReceiveReporter \<Rightarrow> (string + unit sw_result) option" where
  "receive_handle t = (if rt_phase t = Returned then Some (Inr (Inr ())) else None)"

definition gs_handles :: "('q, 'ct, 'cl, 'cm) GrpcSystem \<Rightarrow> (string + unit sw_result) option list" where
  "gs_handles g = [map_option Inr (loop_result (gs_loop g)), receive_handle (gs_trace g),
     receive_handle (gs_log g), receive_handle (gs_meter g)]"

section \<open>The invariant\<close>

lemma of_kind_append [simp]:
  "traces_of (xs @ ys) = traces_of xs @ traces_of ys" "logs_of (xs @ ys) = logs_of xs @ logs_of ys"
  "meters_of (xs @ ys) = meters_of xs @ meters_of ys" "management_of (xs @ ys) = management_of xs @ management_of ys"
proof (induction xs)
  case (Cons x xs)
  case 1 show ?case using Cons by (cases x) simp_all
  case 2 show ?case using Cons by (cases x) simp_all
  case 3 show ?case using Cons by (cases x) simp_all
  case 4 show ?case using Cons by (cases x) simp_all
qed simp_all

text \<open>An event of the dispatching task hands on at most one item, and only while it is at work.\<close>

lemma loop_step_dispatch:
  assumes "loop_step produce ops dispatch ev s = Some (s', out)"
  shows "(dispatched out = [] \<and> lp_sink s' = lp_sink s) \<or>
    (\<exists>net x. dispatched out = [x] \<and> lp_sink s' = dispatch net x (lp_sink s) \<and> \<not> is_done (lp_phase s) \<and> ev \<noteq> DropConsumer)"
    and "ev \<noteq> DropConsumer \<Longrightarrow> is_done (lp_phase s') = is_done (lp_phase s)"
    and "ev = DropConsumer \<Longrightarrow> is_done (lp_phase s') \<and> \<not> is_done (lp_phase s)"
  using assms
  by (cases ev;
    force simp: report_check_def report_produce_def work_consume_def work_shutdown_def work_flush_def
      work_end_def shutdown_signal_def drop_reporters_def Let_def
      split: if_splits prod.splits sum.splits option.splits poll.splits work_phase.splits)+

text \<open>Attaching what the dispatcher did to the channel is a step of its peer.\<close>

lemma attach_same: "rf_receiver (rt_from t) = q \<Longrightarrow> rt_sender t = alive \<Longrightarrow> attach q alive t = t"
  by (auto simp: attach_def)

lemma attach_send:
  assumes "rt_sender t"
  shows "recv_step c msg (SendItem x) t = Some (attach (fst (mp_try_send c x (rf_receiver (rt_from t)))) True t)"
  using assms by (simp add: attach_def)

lemma attach_drop:
  assumes "rt_sender t"
  shows "recv_step c msg DropSender t = Some (attach (mp_drop_tx c (rf_receiver (rt_from t))) False t)"
  using assms by (simp add: attach_def)

text \<open>Both ends of each channel agree, and the senders live as long as the work future.\<close>

definition synced :: "('q, 'ct, 'cl, 'cm) GrpcSystem \<Rightarrow> bool" where
  "synced g \<longleftrightarrow> (let s = lp_sink (gs_loop g); alive = (\<not> is_done (lp_phase (gs_loop g))) in
     irs_trace s = rf_receiver (rt_from (gs_trace g)) \<and> irs_log s = rf_receiver (rt_from (gs_log g)) \<and>
     irs_meter s = rf_receiver (rt_from (gs_meter g)) \<and>
     rt_sender (gs_trace g) = alive \<and> rt_sender (gs_log g) = alive \<and> rt_sender (gs_meter g) = alive)"

lemmas synced_iff = synced_def [unfolded Let_def]

text \<open>Of the dispatched items \<open>xs\<close> the channels took \<open>ts\<close>, \<open>ls\<close> and \<open>ms\<close>, the management client its share, and
  for each of the rest the error handler was called.\<close>

definition shares ::
  "CollectItem list \<Rightarrow> ('ct, 'cl, 'cm) InnerReportSender \<Rightarrow> SegmentObject list \<Rightarrow> LogData list \<Rightarrow> MeterData list \<Rightarrow> bool" where
  "shares xs s ts ls ms \<longleftrightarrow> subseq ts (traces_of xs) \<and> subseq ls (logs_of xs) \<and> subseq ms (meters_of xs) \<and>
     irs_management s = management_of xs \<and>
     length ts + length ls + length ms + length (irs_management s) + length (irs_err_calls s) = length xs"

lemma shares_channels [simp]:
  "shares xs (s\<lparr>irs_trace := a\<rparr>) ts ls ms = shares xs s ts ls ms"
  "shares xs (s\<lparr>irs_log := b\<rparr>) ts ls ms = shares xs s ts ls ms"
  "shares xs (s\<lparr>irs_meter := c\<rparr>) ts ls ms = shares xs s ts ls ms"
  "shares xs (drop_senders ct cl cm s) ts ls ms = shares xs s ts ls ms"
  by (simp_all add: shares_def drop_senders_def)

definition sent_if_ok :: "('c, 'i) mpsc \<Rightarrow> 'i \<Rightarrow> 'c \<Rightarrow> 'i list" where
  "sent_if_ok c x q = (if snd (mp_try_send c x q) = SendOk then [x] else [])"

lemma try_send_error_None [simp]: "try_send_error r = None \<longleftrightarrow> r = SendOk"
  by (cases r) simp_all

lemma subseq_snoc: "subseq xs ys \<Longrightarrow> subseq zs [y] \<Longrightarrow> subseq (xs @ zs) (ys @ [y])"
  by (rule list_emb_append_mono)

lemma shares_dispatch:
  assumes "shares xs s ts ls ms"
  shows "shares (xs @ [Trace x]) (InnerReportSender_report ct cl cm net (Trace x) s) (ts @ sent_if_ok ct x (irs_trace s)) ls ms"
    and "shares (xs @ [Log y]) (InnerReportSender_report ct cl cm net (Log y) s) ts (ls @ sent_if_ok cl y (irs_log s)) ms"
    and "shares (xs @ [Meter z]) (InnerReportSender_report ct cl cm net (Meter z) s) ts ls (ms @ sent_if_ok cm z (irs_meter s))"
    and "shares (xs @ [Instance i]) (InnerReportSender_report ct cl cm net (Instance i) s) ts ls ms"
    and "shares (xs @ [Ping p]) (InnerReportSender_report ct cl cm net (Ping p) s) ts ls ms"
  using assms
  by (auto simp: shares_def sent_if_ok_def err_call_def status_call_def case_prod_beta subseq_snoc
      split: option.splits sum.splits)

lemma dispatch_channels:
  "irs_trace (InnerReportSender_report ct cl cm net x s) =
     (case x of Trace y \<Rightarrow> fst (mp_try_send ct y (irs_trace s)) | _ \<Rightarrow> irs_trace s)"
  "irs_log (InnerReportSender_report ct cl cm net x s) =
     (case x of Log y \<Rightarrow> fst (mp_try_send cl y (irs_log s)) | _ \<Rightarrow> irs_log s)"
  "irs_meter (InnerReportSender_report ct cl cm net x s) =
     (case x of Meter y \<Rightarrow> fst (mp_try_send cm y (irs_meter s)) | _ \<Rightarrow> irs_meter s)"
  by (cases x; simp add: err_call_def status_call_def case_prod_beta split: option.splits sum.splits)+

lemma drop_senders_channels [simp]:
  "irs_trace (drop_senders ct cl cm s) = mp_drop_tx ct (irs_trace s)"
  "irs_log (drop_senders ct cl cm s) = mp_drop_tx cl (irs_log s)"
  "irs_meter (drop_senders ct cl cm s) = mp_drop_tx cm (irs_meter s)"
  by (simp_all add: drop_senders_def)

lemma after_loop_simps [simp]:
  "gs_loop (after_loop lp b g) = lp" "gs_signal (after_loop lp b g) = gs_signal g"
  "gs_trace (after_loop lp b g) = attach (irs_trace (lp_sink lp)) b (gs_trace g)"
  "gs_log (after_loop lp b g) = attach (irs_log (lp_sink lp)) b (gs_log g)"
  "gs_meter (after_loop lp b g) = attach (irs_meter (lp_sink lp)) b (gs_meter g)"
  by (simp_all add: after_loop_def)

lemma attach_simps [simp]:
  "rf_receiver (rt_from (attach q b t)) = q" "rt_sender (attach q b t) = b"
  "rt_phase (attach q b t) = rt_phase t" "rt_sent (attach q b t) = rt_sent t"
  "rf_is_closed (rt_from (attach q b t)) = rf_is_closed (rt_from t)"
  by (simp_all add: attach_def)

lemma set_sink_simps [simp]:
  "gs_trace (set_sink f g) = gs_trace g" "gs_log (set_sink f g) = gs_log g" "gs_meter (set_sink f g) = gs_meter g"
  "gs_signal (set_sink f g) = gs_signal g" "lp_sink (gs_loop (set_sink f g)) = f (lp_sink (gs_loop g))"
  "lp_phase (gs_loop (set_sink f g)) = lp_phase (gs_loop g)" "lp_signal (gs_loop (set_sink f g)) = lp_signal (gs_loop g)"
  "lp_queue (gs_loop (set_sink f g)) = lp_queue (gs_loop g)"
  by (simp_all add: set_sink_def)

lemma own_event_sender: "own_event ev \<Longrightarrow> recv_step c msg ev t = Some t' \<Longrightarrow> rt_sender t' = rt_sender t \<and> taken c ev t = []"
  by (cases ev) (auto split: if_splits prod.splits poll.splits option.splits sum.splits)

context mpsc_channel
begin

lemma recv_inv_send:
  assumes "recv_inv sent t" and "rt_sender t" and "rf_receiver (rt_from t) = q"
  shows "recv_inv (sent @ sent_if_ok ch x q) (attach (fst (mp_try_send ch x q)) True t)"
  using recv_step_inv [OF assms(1) attach_send [OF assms(2)]] assms(3) by (simp add: sent_if_ok_def)

lemma recv_inv_drop:
  assumes "recv_inv sent t" and "rt_sender t" and "rf_receiver (rt_from t) = q"
  shows "recv_inv sent (attach (mp_drop_tx ch q) False t)"
  using recv_step_inv [OF assms(1) attach_drop [OF assms(2)]] assms(3) by simp

lemma recv_inv_own:
  assumes "recv_inv sent t" and "own_event ev" and "recv_step ch msg ev t = Some t'"
  shows "recv_inv sent t'" and "rt_sender t' = rt_sender t"
  using recv_step_inv [OF assms(1,3)] own_event_sender [OF assms(2,3)] by simp_all

end

text \<open>The contracts of the four channels of a reporter.\<close>

locale grpc_channels =
  q: mpsc_channel ch queued q_rx q_tx q_room + t: mpsc_channel ct segments t_rx t_tx t_room +
  l: mpsc_channel cl records l_rx l_tx l_room + m: mpsc_channel cm readings m_rx m_tx m_room
  for ch :: "('q, CollectItem) mpsc" and queued q_rx q_tx q_room
    and ct :: "('ct, SegmentObject) mpsc" and segments t_rx t_tx t_room
    and cl :: "('cl, LogData) mpsc" and records l_rx l_tx l_room
    and cm :: "('cm, MeterData) mpsc" and readings m_rx m_tx m_room

sublocale grpc_channels \<subseteq> cq: collect_queue "UnboundedSender_produce ch" "Receiver_ops ch" queued q_rx q_tx
  by (rule unbounded_collect_queue [OF q.mpsc_channel_axioms])

context grpc_channels
begin

definition gs_inv :: "CollectItem list \<Rightarrow> loop_out list \<Rightarrow> ('q, 'ct, 'cl, 'cm) GrpcSystem \<Rightarrow> bool" where
  "gs_inv before outs g \<longleftrightarrow> cq.loop_inv before outs (gs_loop g) \<and> synced g \<and>
     (\<exists>ts ls ms. t.recv_inv ts (gs_trace g) \<and> l.recv_inv ls (gs_log g) \<and> m.recv_inv ms (gs_meter g) \<and>
        shares (dispatched outs) (lp_sink (gs_loop g)) ts ls ms)"

lemma gs_invI:
  "cq.loop_inv before outs (gs_loop g) \<Longrightarrow> synced g \<Longrightarrow> t.recv_inv ts (gs_trace g) \<Longrightarrow> l.recv_inv ls (gs_log g) \<Longrightarrow>
   m.recv_inv ms (gs_meter g) \<Longrightarrow> shares (dispatched outs) (lp_sink (gs_loop g)) ts ls ms \<Longrightarrow> gs_inv before outs g"
  by (auto simp: gs_inv_def)

lemma loop_inv_sink [simp]: "cq.loop_inv before outs (lp\<lparr>lp_sink := d\<rparr>) = cq.loop_inv before outs lp"
  by (simp add: cq.loop_inv_def)

text \<open>Handing on one item extends the share of its kind.\<close>

lemma gs_inv_dispatch:
  assumes L': "cq.loop_inv before (outs @ out) (gs_loop g')" and sy': "synced g'"
    and R: "t.recv_inv ts (gs_trace g)" "l.recv_inv ls (gs_log g)" "m.recv_inv ms (gs_meter g)"
      "shares (dispatched outs) (lp_sink (gs_loop g)) ts ls ms"
    and sy: "synced g" and act: "\<not> is_done (lp_phase (gs_loop g))"
    and g': "g' = after_loop lp True g" "lp_sink lp = InnerReportSender_report ct cl cm net x (lp_sink (gs_loop g))"
    and d: "dispatched out = [x]"
  shows "gs_inv before (outs @ out) g'"
proof -
  let ?s = "lp_sink (gs_loop g)"
  have ch: "gs_trace g' = attach (irs_trace (InnerReportSender_report ct cl cm net x ?s)) True (gs_trace g)"
    "gs_log g' = attach (irs_log (InnerReportSender_report ct cl cm net x ?s)) True (gs_log g)"
    "gs_meter g' = attach (irs_meter (InnerReportSender_report ct cl cm net x ?s)) True (gs_meter g)"
    "lp_sink (gs_loop g') = InnerReportSender_report ct cl cm net x ?s"
    using g' by simp_all
  have ends: "rt_sender (gs_trace g)" "rf_receiver (rt_from (gs_trace g)) = irs_trace ?s" "rt_sender (gs_log g)"
    "rf_receiver (rt_from (gs_log g)) = irs_log ?s" "rt_sender (gs_meter g)" "rf_receiver (rt_from (gs_meter g)) = irs_meter ?s"
    using sy act by (simp_all add: synced_iff)
  have idle: "attach (irs_trace ?s) True (gs_trace g) = gs_trace g" "attach (irs_log ?s) True (gs_log g) = gs_log g"
    "attach (irs_meter ?s) True (gs_meter g) = gs_meter g"
    using ends by (simp_all add: attach_same)
  note sent = t.recv_inv_send [OF R(1) ends(1,2)] l.recv_inv_send [OF R(2) ends(3,4)] m.recv_inv_send [OF R(3) ends(5,6)]
  note eqs = ch idle dispatch_channels d
  note sh = shares_dispatch [OF R(4)]
  show ?thesis
  proof (cases x)
    case (Trace y)
    show ?thesis by (rule gs_invI [OF L' sy', of "ts @ sent_if_ok ct y (irs_trace ?s)" ls ms])
        (use R sent sh(1) in \<open>simp_all add: Trace eqs del: InnerReportSender_report.simps\<close>)
  next
    case (Log y)
    show ?thesis by (rule gs_invI [OF L' sy', of ts "ls @ sent_if_ok cl y (irs_log ?s)" ms])
        (use R sent sh(2) in \<open>simp_all add: Log eqs del: InnerReportSender_report.simps\<close>)
  next
    case (Meter y)
    show ?thesis by (rule gs_invI [OF L' sy', of ts ls "ms @ sent_if_ok cm y (irs_meter ?s)"])
        (use R sent sh(3) in \<open>simp_all add: Meter eqs del: InnerReportSender_report.simps\<close>)
  qed (rule gs_invI [OF L' sy', of ts ls ms],
      use R sh(4,5) in \<open>simp_all add: eqs del: InnerReportSender_report.simps\<close>)+
qed

lemma gs_inv_loop:
  assumes inv: "gs_inv before outs g" and step: "gs_step ch ct cl cm (LoopEv ev) g = Some (g', out)"
  shows "gs_inv before (outs @ out) g'"
proof -
  obtain lp where lp: "loop_step (UnboundedSender_produce ch) (Receiver_ops ch) (InnerReportSender_report ct cl cm) ev (gs_loop g) =
      Some (lp, out)"
    and g': "g' = (if ev = DropConsumer then after_loop (lp\<lparr>lp_sink := drop_senders ct cl cm (lp_sink lp)\<rparr>) False g
      else after_loop lp (rt_sender (gs_trace g)) g)"
    using step by (auto split: if_splits option.splits)
  have L: "cq.loop_inv before (outs @ out) lp" using cq.loop_step_inv [OF _ lp] inv by (simp add: gs_inv_def)
  note ph = loop_step_dispatch(2,3) [OF lp]
  obtain ts ls ms where R: "t.recv_inv ts (gs_trace g)" "l.recv_inv ls (gs_log g)" "m.recv_inv ms (gs_meter g)"
    "shares (dispatched outs) (lp_sink (gs_loop g)) ts ls ms" and sy: "synced g" using inv by (auto simp: gs_inv_def)
  from loop_step_dispatch(1) [OF lp] show ?thesis
  proof (elim disjE exE conjE)
    assume d: "dispatched out = []" "lp_sink lp = lp_sink (gs_loop g)"
    show ?thesis
    proof (cases "ev = DropConsumer")
      case True
      then have "t.recv_inv ts (gs_trace g')" "l.recv_inv ls (gs_log g')" "m.recv_inv ms (gs_meter g')"
        using R sy ph g' d(2) by (simp_all add: synced_iff t.recv_inv_drop l.recv_inv_drop m.recv_inv_drop)
      moreover have "synced g'" using True g' ph by (simp add: synced_iff)
      ultimately show ?thesis using L R(4) d g' True by (auto simp: gs_inv_def)
    next
      case False
      then have "gs_trace g' = gs_trace g" "gs_log g' = gs_log g" "gs_meter g' = gs_meter g"
        using sy g' d(2) by (simp_all add: synced_iff attach_same)
      with False show ?thesis using L R sy ph g' d by (auto simp: gs_inv_def synced_iff)
    qed
  next
    fix net x assume d: "dispatched out = [x]" "lp_sink lp = InnerReportSender_report ct cl cm net x (lp_sink (gs_loop g))"
      "\<not> is_done (lp_phase (gs_loop g))" "ev \<noteq> DropConsumer"
    then have g'': "g' = after_loop lp True g" using g' sy by (simp add: synced_iff)
    show ?thesis
      by (rule gs_inv_dispatch [OF _ _ R sy d(3) g'' d(2)]) (use L ph d g'' in \<open>simp_all add: synced_iff\<close>)
  qed
qed

lemma gs_inv_receive:
  assumes inv: "gs_inv before outs g" and step: "gs_step ch ct cl cm ev g = Some (g', out)" and ev: "\<And>e. ev \<noteq> LoopEv e"
  shows "gs_inv before (outs @ out) g'"
proof -
  obtain ts ls ms where R: "t.recv_inv ts (gs_trace g)" "l.recv_inv ls (gs_log g)" "m.recv_inv ms (gs_meter g)"
    "shares (dispatched outs) (lp_sink (gs_loop g)) ts ls ms" and sy: "synced g"
    and L: "cq.loop_inv before outs (gs_loop g)" using inv by (auto simp: gs_inv_def)
  have out: "out = []" using step ev by (cases ev) (auto split: if_splits)
  have L': "cq.loop_inv before outs (gs_loop g')" using step ev L by (cases ev) (auto simp: set_sink_def split: if_splits)
  show ?thesis
  proof (cases ev)
    case (TraceEv e)
    then obtain z where z: "own_event e" "recv_step ct ''Collect trace segment by stream failed'' e (gs_trace g) = Some z"
      "g' = set_sink (\<lambda>s. s\<lparr>irs_trace := rf_receiver (rt_from z)\<rparr>) (g\<lparr>gs_trace := z\<rparr>)"
      using step by (auto split: if_splits)
    show ?thesis
      by (rule gs_invI [of _ _ _ ts ls ms])
        (use L' out R sy z t.recv_inv_own [OF R(1) z(1,2)] in \<open>simp_all add: synced_iff\<close>)
  next
    case (LogEv e)
    then obtain z where z: "own_event e" "recv_step cl ''Collect log data by stream failed'' e (gs_log g) = Some z"
      "g' = set_sink (\<lambda>s. s\<lparr>irs_log := rf_receiver (rt_from z)\<rparr>) (g\<lparr>gs_log := z\<rparr>)"
      using step by (auto split: if_splits)
    show ?thesis
      by (rule gs_invI [of _ _ _ ts ls ms])
        (use L' out R sy z l.recv_inv_own [OF R(2) z(1,2)] in \<open>simp_all add: synced_iff\<close>)
  next
    case (MeterEv e)
    then obtain z where z: "own_event e" "recv_step cm ''Collect meter data by stream failed'' e (gs_meter g) = Some z"
      "g' = set_sink (\<lambda>s. s\<lparr>irs_meter := rf_receiver (rt_from z)\<rparr>) (g\<lparr>gs_meter := z\<rparr>)"
      using step by (auto split: if_splits)
    show ?thesis
      by (rule gs_invI [of _ _ _ ts ls ms])
        (use L' out R sy z m.recv_inv_own [OF R(3) z(1,2)] in \<open>simp_all add: synced_iff\<close>)
  qed (use ev in blast)
qed

lemma gs_step_inv:
  assumes "gs_inv before outs g" and "gs_step ch ct cl cm ev g = Some (g', out)"
  shows "gs_inv before (outs @ out) g'"
proof (cases "\<exists>e. ev = LoopEv e")
  case True
  then show ?thesis using gs_inv_loop assms by blast
next
  case False
  then show ?thesis using gs_inv_receive [OF assms] by blast
qed

lemma gs_run_inv:
  "gs_inv before outs g \<Longrightarrow> gs_run ch ct cl cm evs g = Some (g', outs') \<Longrightarrow> gs_inv before (outs @ outs') g'"
proof (induction evs arbitrary: g outs outs')
  case (Cons ev evs)
  then obtain g1 o1 o2 where g1: "gs_step ch ct cl cm ev g = Some (g1, o1)"
    "gs_run ch ct cl cm evs g1 = Some (g', o2)" "outs' = o1 @ o2"
    by (auto split: option.splits prod.splits simp del: gs_step.simps)
  from Cons.IH [OF gs_step_inv [OF Cons.prems(1) g1(1)] g1(2)] g1(3) show ?case by simp
qed simp

lemma gs_spawn_inv:
  assumes "q_rx q" and "t_tx (irs_trace (rp_sender rp))" and "l_tx (irs_log (rp_sender rp))" and "m_tx (irs_meter (rp_sender rp))"
    and "segments (irs_trace (rp_sender rp)) = []" and "records (irs_log (rp_sender rp)) = []"
    and "readings (irs_meter (rp_sender rp)) = []" and "irs_management (rp_sender rp) = []" and "irs_err_calls (rp_sender rp) = []"
  shows "gs_inv (queued q) [] (Reporting_spawn q rp)"
proof -
  have "synced (Reporting_spawn q rp)"
    by (simp add: synced_iff Reporting_spawn_def loop_start_def ReceiveReporter_start_def ReceiveFrom_new_def)
  moreover have "shares (dispatched []) (lp_sink (gs_loop (Reporting_spawn q rp))) [] [] []"
    using assms by (simp add: shares_def Reporting_spawn_def loop_start_def)
  ultimately show ?thesis
    using assms t.recv_start_inv l.recv_start_inv m.recv_start_inv cq.loop_start_inv
    by (fastforce simp: gs_inv_def Reporting_spawn_def)
qed

end

section \<open>Bringing the tasks to their end\<close>

lemma loop_run_snoc:
  assumes "loop_run produce ops dispatch (evs @ [ev]) s = Some (s', outs)"
  shows "\<exists>s1 o1 o2. loop_run produce ops dispatch evs s = Some (s1, o1) \<and>
    loop_step produce ops dispatch ev s1 = Some (s', o2) \<and> outs = o1 @ o2"
  using assms by (auto simp: loop_run_append split: option.splits prod.splits)

lemma gs_run_append:
  "gs_run ch ct cl cm (xs @ ys) g =
   (case gs_run ch ct cl cm xs g of
      None \<Rightarrow> None
    | Some (g1, o1) \<Rightarrow>
        (case gs_run ch ct cl cm ys g1 of None \<Rightarrow> None | Some (g2, o2) \<Rightarrow> Some (g2, o1 @ o2)))"
  by (induction xs arbitrary: g) (auto split: option.splits prod.splits simp del: gs_step.simps)

lemma gs_run_signal: "gs_run ch ct cl cm evs g = Some (g', outs) \<Longrightarrow> gs_signal g' = gs_signal g"
proof (induction evs arbitrary: g outs)
  case (Cons ev evs)
  then obtain g1 o1 o2 where g1: "gs_step ch ct cl cm ev g = Some (g1, o1)" "gs_run ch ct cl cm evs g1 = Some (g', o2)"
    by (auto split: option.splits prod.splits simp del: gs_step.simps)
  from g1(1) have "gs_signal g1 = gs_signal g" by (cases ev) (auto split: if_splits option.splits)
  with Cons.IH [OF g1(2)] show ?case by simp
qed simp

text \<open>A run of one task is a run of the system.\<close>

lemma lift_loop:
  assumes "loop_run (UnboundedSender_produce ch) (Receiver_ops ch) (InnerReportSender_report ct cl cm) evs (gs_loop g) = Some (lp, outs)"
    and "DropConsumer \<notin> set evs" and "gs_signal g"
  shows "\<exists>g'. gs_run ch ct cl cm (map LoopEv evs) g = Some (g', outs) \<and> gs_loop g' = lp"
  using assms
proof (induction evs arbitrary: g outs)
  case (Cons ev evs)
  then obtain lp1 o1 o2 where lp1: "loop_step (UnboundedSender_produce ch) (Receiver_ops ch) (InnerReportSender_report ct cl cm) ev (gs_loop g) =
      Some (lp1, o1)" "loop_run (UnboundedSender_produce ch) (Receiver_ops ch) (InnerReportSender_report ct cl cm) evs lp1 = Some (lp, o2)"
    "outs = o1 @ o2" by (auto split: option.splits prod.splits)
  let ?g = "after_loop lp1 (rt_sender (gs_trace g)) g"
  have "gs_step ch ct cl cm (LoopEv ev) g = Some (?g, o1)" using lp1(1) Cons.prems(2,3) by auto
  moreover obtain g' where "gs_run ch ct cl cm (map LoopEv evs) ?g = Some (g', o2)" "gs_loop g' = lp"
    using Cons.IH [of ?g o2] lp1(2) Cons.prems(2,3) by auto
  ultimately show ?case using lp1(3) by (simp del: gs_step.simps)
qed simp

definition same_task :: "('q, 'd) Loop \<Rightarrow> ('q, 'd) Loop \<Rightarrow> bool" where
  "same_task a b \<longleftrightarrow> lp_phase a = lp_phase b \<and> lp_signal a = lp_signal b \<and> lp_queue a = lp_queue b"

lemma same_task_set_sink [simp]: "same_task (gs_loop (set_sink f g)) lp \<longleftrightarrow> same_task (gs_loop g) lp"
  by (simp add: same_task_def)

lemma same_task_refl [simp]: "same_task lp lp"
  by (simp add: same_task_def)

lemma loop_result_same_task: "same_task a b \<Longrightarrow> loop_result a = loop_result b"
  by (simp add: same_task_def loop_result_def)

text \<open>For the receiving tasks: \<open>mk\<close> makes an event of the task one of the system, \<open>get\<close> and \<open>put\<close> read and
  write the task, and \<open>rel\<close> is what its steps leave as it was.\<close>

lemma lift_receive:
  assumes step: "\<And>ev u g. own_event ev \<Longrightarrow> recv_step c msg ev (get g) = Some u \<Longrightarrow>
      gs_step ch ct cl cm (mk ev) g = Some (put u g, [])"
    and get: "\<And>u g. get (put u g) = u" and rel: "\<And>u g. rel g (put u g)" "\<And>g. rel g g"
      "\<And>g h k. rel g h \<Longrightarrow> rel h k \<Longrightarrow> rel g k"
    and run: "recv_run c msg evs (get g) = Some t" "list_all own_event evs"
  shows "\<exists>g'. gs_run ch ct cl cm (map mk evs) g = Some (g', []) \<and> get g' = t \<and> rel g g'"
  using run
proof (induction evs arbitrary: g)
  case Nil
  then show ?case by (simp add: rel(2))
next
  case (Cons ev evs)
  then obtain u where u: "recv_step c msg ev (get g) = Some u" "recv_run c msg evs u = Some t"
    by (auto simp: bind_eq_Some_conv)
  obtain g' where "gs_run ch ct cl cm (map mk evs) (put u g) = Some (g', [])" "get g' = t" "rel (put u g) g'"
    using Cons.IH [of "put u g"] u(2) Cons.prems(2) get by auto
  moreover from this(3) have "rel g g'" using rel(1,3) by blast
  ultimately show ?case using step [OF _ u(1)] Cons.prems(2) by (auto simp del: gs_step.simps)
qed

lemma lift_trace:
  assumes "recv_run ct ''Collect trace segment by stream failed'' evs (gs_trace g) = Some t" and "list_all own_event evs"
  shows "\<exists>g'. gs_run ch ct cl cm (map TraceEv evs) g = Some (g', []) \<and> gs_trace g' = t \<and>
    (gs_log g' = gs_log g \<and> gs_meter g' = gs_meter g \<and> same_task (gs_loop g') (gs_loop g))"
  by (rule lift_receive [where get = gs_trace and mk = TraceEv and
        put = "\<lambda>u g. set_sink (\<lambda>s. s\<lparr>irs_trace := rf_receiver (rt_from u)\<rparr>) (g\<lparr>gs_trace := u\<rparr>)" and
        rel = "\<lambda>g g'. gs_log g' = gs_log g \<and> gs_meter g' = gs_meter g \<and> same_task (gs_loop g') (gs_loop g)"])
    (use assms in \<open>auto simp: same_task_def\<close>)

lemma lift_log:
  assumes "recv_run cl ''Collect log data by stream failed'' evs (gs_log g) = Some t" and "list_all own_event evs"
  shows "\<exists>g'. gs_run ch ct cl cm (map LogEv evs) g = Some (g', []) \<and> gs_log g' = t \<and>
    (gs_trace g' = gs_trace g \<and> gs_meter g' = gs_meter g \<and> same_task (gs_loop g') (gs_loop g))"
  by (rule lift_receive [where get = gs_log and mk = LogEv and
        put = "\<lambda>u g. set_sink (\<lambda>s. s\<lparr>irs_log := rf_receiver (rt_from u)\<rparr>) (g\<lparr>gs_log := u\<rparr>)" and
        rel = "\<lambda>g g'. gs_trace g' = gs_trace g \<and> gs_meter g' = gs_meter g \<and> same_task (gs_loop g') (gs_loop g)"])
    (use assms in \<open>auto simp: same_task_def\<close>)

lemma lift_meter:
  assumes "recv_run cm ''Collect meter data by stream failed'' evs (gs_meter g) = Some t" and "list_all own_event evs"
  shows "\<exists>g'. gs_run ch ct cl cm (map MeterEv evs) g = Some (g', []) \<and> gs_meter g' = t \<and>
    (gs_trace g' = gs_trace g \<and> gs_log g' = gs_log g \<and> same_task (gs_loop g') (gs_loop g))"
  by (rule lift_receive [where get = gs_meter and mk = MeterEv and
        put = "\<lambda>u g. set_sink (\<lambda>s. s\<lparr>irs_meter := rf_receiver (rt_from u)\<rparr>) (g\<lparr>gs_meter := u\<rparr>)" and
        rel = "\<lambda>g g'. gs_trace g' = gs_trace g \<and> gs_log g' = gs_log g \<and> same_task (gs_loop g') (gs_loop g)"])
    (use assms in \<open>auto simp: same_task_def\<close>)

context mpsc_channel
begin

text \<open>With its sender gone, a receiving task can be brought to its end from wherever it is.\<close>

lemma receive_ends:
  assumes "recv_inv sent t" and "\<not> rt_sender t"
  shows "\<exists>evs t'. recv_run ch msg evs t = Some t' \<and> rt_phase t' = Returned \<and> list_all own_event evs"
proof -
  have at_loop: "\<exists>evs t'. recv_run ch msg evs u = Some t' \<and> rt_phase t' = Returned \<and> list_all own_event evs"
    if u: "recv_inv sent u" "\<not> rt_sender u" "rt_phase u = AtLoop" for u
  proof (cases "rf_is_closed (rt_from u)")
    case True
    with u have "recv_run ch msg [OpenStream] u = Some (u\<lparr>rt_phase := Returned\<rparr>)" by (simp add: ReceiveFrom_stream_def)
    then show ?thesis by (intro exI [of _ "[OpenStream]"]) simp
  next
    case False
    let ?evs = "[OpenStream] @ (replicate (length (contents (rf_receiver (rt_from u)))) PollNext @ [PollNext]) @
      [CollectReturns (Inr ()), OpenStream]"
    have "list_all own_event ?evs" by (simp add: list_all_iff)
    with recv_ends [OF u(1,3,2) False, of msg "Inr ()"] show ?thesis by blast
  qed
  have busy: "\<exists>evs t'. recv_run ch msg evs t = Some t' \<and> rt_phase t' = Returned \<and> list_all own_event evs"
    if ph: "rt_phase t = Streaming \<or> rt_phase t = StreamEnded"
  proof -
    have c: "recv_step ch msg (CollectReturns (Inr ())) t = Some (t\<lparr>rt_phase := AtLoop\<rparr>)" using ph by simp
    from at_loop [OF recv_step_inv [OF assms(1) c, simplified]] assms(2) obtain evs t' where
      "recv_run ch msg evs (t\<lparr>rt_phase := AtLoop\<rparr>) = Some t'" "rt_phase t' = Returned" "list_all own_event evs" by auto
    with c show ?thesis by (intro exI [of _ "CollectReturns (Inr ()) # evs"]) (simp del: recv_step.simps)
  qed
  show ?thesis
  proof (cases "rt_phase t")
    case Returned
    then show ?thesis by (intro exI [of _ "[]"]) simp
  qed (use at_loop assms busy in blast)+
qed

end

context grpc_channels
begin

lemma receivers_end:
  assumes inv: "gs_inv before outs g" and fin: "is_done (lp_phase (gs_loop g))"
  shows "\<exists>evs g'. gs_run ch ct cl cm evs g = Some (g', []) \<and> same_task (gs_loop g') (gs_loop g) \<and>
    rt_phase (gs_trace g') = Returned \<and> rt_phase (gs_log g') = Returned \<and> rt_phase (gs_meter g') = Returned \<and> (\<forall>e. LoopEv e \<notin> set evs)"
proof -
  obtain ts ls ms where R: "t.recv_inv ts (gs_trace g)" "l.recv_inv ls (gs_log g)" "m.recv_inv ms (gs_meter g)"
    and S: "\<not> rt_sender (gs_trace g)" "\<not> rt_sender (gs_log g)" "\<not> rt_sender (gs_meter g)"
    using inv fin by (auto simp: gs_inv_def synced_iff)
  obtain e1 t1 where e1: "recv_run ct ''Collect trace segment by stream failed'' e1 (gs_trace g) = Some t1"
    "rt_phase t1 = Returned" "list_all own_event e1" using t.receive_ends [OF R(1) S(1)] by blast
  obtain e2 t2 where e2: "recv_run cl ''Collect log data by stream failed'' e2 (gs_log g) = Some t2"
    "rt_phase t2 = Returned" "list_all own_event e2" using l.receive_ends [OF R(2) S(2)] by blast
  obtain e3 t3 where e3: "recv_run cm ''Collect meter data by stream failed'' e3 (gs_meter g) = Some t3"
    "rt_phase t3 = Returned" "list_all own_event e3" using m.receive_ends [OF R(3) S(3)] by blast
  obtain g1 where g1: "gs_run ch ct cl cm (map TraceEv e1) g = Some (g1, [])" "gs_trace g1 = t1" "gs_log g1 = gs_log g"
    "gs_meter g1 = gs_meter g" "same_task (gs_loop g1) (gs_loop g)" using lift_trace [OF e1(1,3)] by blast
  obtain g2 where g2: "gs_run ch ct cl cm (map LogEv e2) g1 = Some (g2, [])" "gs_log g2 = t2" "gs_trace g2 = gs_trace g1"
    "gs_meter g2 = gs_meter g1" "same_task (gs_loop g2) (gs_loop g1)"
    using lift_log [OF e2(1) [folded g1(3)] e2(3)] by blast
  obtain g3 where g3: "gs_run ch ct cl cm (map MeterEv e3) g2 = Some (g3, [])" "gs_meter g3 = t3" "gs_trace g3 = gs_trace g2"
    "gs_log g3 = gs_log g2" "same_task (gs_loop g3) (gs_loop g2)"
    using lift_meter [OF e3(1) [folded g1(4) g2(4)] e3(3)] by blast
  have "gs_run ch ct cl cm (map TraceEv e1 @ map LogEv e2 @ map MeterEv e3) g = Some (g3, [])"
    using g1(1) g2(1) g3(1) by (simp add: gs_run_append)
  moreover have "same_task (gs_loop g3) (gs_loop g)" using g1(5) g2(5) g3(5) by (simp add: same_task_def)
  moreover have "rt_phase (gs_trace g3) = Returned" "rt_phase (gs_log g3) = Returned" "rt_phase (gs_meter g3) = Returned"
    using e1(2) e2(2) e3(2) g1(2) g2(2,3) g3(2-4) by simp_all
  moreover have "\<forall>e. LoopEv e \<notin> set (map TraceEv e1 @ map LogEv e2 @ map MeterEv e3)" by auto
  ultimately show ?thesis by blast
qed

lemma dispatcher_ends:
  assumes "lp_phase (gs_loop g) = Working" and "lp_signal (gs_loop g) = AwaitingSignal" and "q_tx (lp_queue (gs_loop g))"
    and "gs_signal g"
  shows "\<exists>evs g' outs. gs_run ch ct cl cm evs g = Some (g', outs) \<and> loop_result (gs_loop g') = Some (Inr ()) \<and>
    dispatched outs = queued (lp_queue (gs_loop g)) \<and> accepted outs = [] \<and> is_done (lp_phase (gs_loop g'))"
proof -
  let ?run = "loop_run (UnboundedSender_produce ch) (Receiver_ops ch) (InnerReportSender_report ct cl cm)"
  let ?evs = "[ShutdownSignal, RecvShutdown] @ replicate (length (queued (lp_queue (gs_loop g)))) (Flush (Inr ())) @ [Flush (Inr ())]"
  obtain lp outs where lp: "?run (?evs @ [DropConsumer]) (gs_loop g) = Some (lp, outs)" "loop_result lp = Some (Inr ())"
    "dispatched outs = queued (lp_queue (gs_loop g))"
    using cq.graceful_shutdown [OF assms(1-3)] by (metis append.assoc append_Cons append_Nil)
  then obtain lp1 o1 o2 where lp1: "?run ?evs (gs_loop g) = Some (lp1, o1)"
    "loop_step (UnboundedSender_produce ch) (Receiver_ops ch) (InnerReportSender_report ct cl cm) DropConsumer lp1 = Some (lp, o2)"
    "outs = o1 @ o2" using loop_run_snoc [OF lp(1)] by blast
  have "DropConsumer \<notin> set ?evs" by auto
  from lift_loop [OF lp1(1) this assms(4)] obtain g1 where
    g1: "gs_run ch ct cl cm (map LoopEv ?evs) g = Some (g1, o1)" "gs_loop g1 = lp1" by blast
  let ?g = "after_loop (lp\<lparr>lp_sink := drop_senders ct cl cm (lp_sink lp)\<rparr>) False g1"
  have "gs_step ch ct cl cm (LoopEv DropConsumer) g1 = Some (?g, o2)" using lp1(2) g1(2) by simp
  then have "gs_run ch ct cl cm (map LoopEv ?evs @ [LoopEv DropConsumer]) g = Some (?g, outs)"
    using g1(1) lp1(3) by (subst gs_run_append) (simp del: gs_step.simps)
  moreover have "accepted outs = []"
    using cq.shutdown_accepts_nothing [OF lp(1)] by (auto simp: list_all_iff)
  moreover have "is_done (lp_phase lp)" using loop_step_dispatch(3) [OF lp1(2)] by simp
  ultimately show ?thesis
    using lp(2,3) by (intro exI [of _ "map LoopEv ?evs @ [LoopEv DropConsumer]"] exI [of _ ?g] exI [of _ outs])
      (simp add: loop_result_def)
qed

lemma gs_inv_shares:
  assumes "gs_inv before ([] @ outs) g"
  shows "\<exists>rest. before @ accepted outs = dispatched outs @ rest \<and>
    (is_done (lp_phase (gs_loop g)) \<or> rest = queued (lp_queue (gs_loop g))) \<and>
    shares (dispatched outs) (lp_sink (gs_loop g))
      (concat (rt_sent (gs_trace g)) @ segments (rf_receiver (rt_from (gs_trace g))))
      (concat (rt_sent (gs_log g)) @ records (rf_receiver (rt_from (gs_log g))))
      (concat (rt_sent (gs_meter g)) @ readings (rf_receiver (rt_from (gs_meter g))))"
proof -
  have "\<exists>rest. before @ accepted outs = dispatched outs @ rest \<and>
      (is_done (lp_phase (gs_loop g)) \<or> rest = queued (lp_queue (gs_loop g)))"
    using assms by (cases "is_done (lp_phase (gs_loop g))") (auto simp: gs_inv_def cq.loop_inv_def)
  moreover have "shares (dispatched outs) (lp_sink (gs_loop g))
      (concat (rt_sent (gs_trace g)) @ segments (rf_receiver (rt_from (gs_trace g))))
      (concat (rt_sent (gs_log g)) @ records (rf_receiver (rt_from (gs_log g))))
      (concat (rt_sent (gs_meter g)) @ readings (rf_receiver (rt_from (gs_meter g))))"
    using assms by (auto simp: gs_inv_def t.recv_inv_def l.recv_inv_def m.recv_inv_def)
  ultimately show ?thesis by blast
qed

text \<open>The events of the receiving tasks do not touch the dispatching one but for its end of the channels.\<close>

lemma gs_step_other:
  assumes "gs_step ch ct cl cm ev g = Some (g', out)" and "\<And>e. ev \<noteq> LoopEv e"
  shows "out = [] \<and> lp_phase (gs_loop g') = lp_phase (gs_loop g) \<and> lp_closing (gs_loop g') = lp_closing (gs_loop g) \<and>
    lp_calls (gs_loop g') = lp_calls (gs_loop g)"
  using assms by (cases ev) (auto simp: set_sink_def split: if_splits)

lemma gs_step_loopE:
  assumes "gs_step ch ct cl cm (LoopEv e) g = Some (g', out)"
  obtains lp where "loop_step (UnboundedSender_produce ch) (Receiver_ops ch) (InnerReportSender_report ct cl cm) e (gs_loop g) = Some (lp, out)"
    and "lp_phase (gs_loop g') = lp_phase lp" and "lp_closing (gs_loop g') = lp_closing lp"
    and "lp_calls (gs_loop g') = lp_calls lp" and "lp_queue (gs_loop g') = lp_queue lp"
  using assms by (auto split: if_splits option.splits)

lemma gs_run_when_ending:
  "is_ending (lp_phase (gs_loop g)) \<Longrightarrow> lp_closing (gs_loop g) \<Longrightarrow> gs_run ch ct cl cm evs g = Some (g', outs) \<Longrightarrow>
   dispatched outs = [] \<and> mset (accepted outs) \<subseteq># mset (lp_calls (gs_loop g))"
proof (induction evs arbitrary: g outs)
  case (Cons ev evs)
  then obtain g1 o1 o2 where g1: "gs_step ch ct cl cm ev g = Some (g1, o1)"
    "gs_run ch ct cl cm evs g1 = Some (g', o2)" "outs = o1 @ o2"
    by (auto split: option.splits prod.splits simp del: gs_step.simps)
  have step: "is_ending (lp_phase (gs_loop g1)) \<and> lp_closing (gs_loop g1) \<and> dispatched o1 = [] \<and>
      mset (accepted o1) + mset (lp_calls (gs_loop g1)) \<subseteq># mset (lp_calls (gs_loop g))"
  proof (cases "\<exists>e. ev = LoopEv e")
    case True
    then obtain e where "ev = LoopEv e" by blast
    from g1(1) [unfolded this] obtain lp where
      "loop_step (UnboundedSender_produce ch) (Receiver_ops ch) (InnerReportSender_report ct cl cm) e (gs_loop g) = Some (lp, o1)"
      "lp_phase (gs_loop g1) = lp_phase lp" "lp_closing (gs_loop g1) = lp_closing lp" "lp_calls (gs_loop g1) = lp_calls lp"
      by (rule gs_step_loopE)
    with cq.step_when_ending [OF this(1) Cons.prems(1,2)] show ?thesis by simp
  qed (use gs_step_other [OF g1(1)] Cons.prems(1,2) in auto)
  with Cons.IH [of g1 o2] g1(2) have "dispatched o2 = []" "mset (accepted o2) \<subseteq># mset (lp_calls (gs_loop g1))" by blast+
  then have "mset (accepted o1) + mset (accepted o2) \<subseteq># mset (accepted o1) + mset (lp_calls (gs_loop g1))" by simp
  also have "\<dots> \<subseteq># mset (lp_calls (gs_loop g))" using step by blast
  finally show ?case using step g1(3) \<open>dispatched o2 = []\<close> by simp
qed simp

lemma gs_run_leaves_flush:
  "\<not> is_ending (lp_phase (gs_loop g)) \<Longrightarrow> gs_run ch ct cl cm evs g = Some (g', outs) \<Longrightarrow> is_ending (lp_phase (gs_loop g')) \<Longrightarrow>
   \<exists>evs1 evs2 g1 o1 o2. evs = evs1 @ evs2 \<and> gs_run ch ct cl cm evs1 g = Some (g1, o1) \<and>
     gs_run ch ct cl cm evs2 g1 = Some (g', o2) \<and> outs = o1 @ o2 \<and> is_ending (lp_phase (gs_loop g1)) \<and>
     \<not> is_done (lp_phase (gs_loop g1)) \<and> queued (lp_queue (gs_loop g1)) = []"
proof (induction evs arbitrary: g outs)
  case (Cons ev evs)
  then obtain ga oa ob where ga: "gs_step ch ct cl cm ev g = Some (ga, oa)"
    "gs_run ch ct cl cm evs ga = Some (g', ob)" "outs = oa @ ob"
    by (auto split: option.splits prod.splits simp del: gs_step.simps)
  show ?case
  proof (cases "is_ending (lp_phase (gs_loop ga))")
    case True
    then obtain e where "ev = LoopEv e" using gs_step_other [OF ga(1)] Cons.prems(1) by metis
    from ga(1) [unfolded this] obtain lp where
      "loop_step (UnboundedSender_produce ch) (Receiver_ops ch) (InnerReportSender_report ct cl cm) e (gs_loop g) = Some (lp, oa)"
      "lp_phase (gs_loop ga) = lp_phase lp" "lp_queue (gs_loop ga) = lp_queue lp" by (rule gs_step_loopE)
    with cq.step_into_ending [OF this(1) Cons.prems(1)] True
    have "queued (lp_queue (gs_loop ga)) = []" "\<not> is_done (lp_phase (gs_loop ga))" by simp_all
    with True ga show ?thesis
      by (intro exI [of _ "[ev]"] exI [of _ evs] exI [of _ ga] exI [of _ oa] exI [of _ ob]) (simp del: gs_step.simps)
  next
    case False
    from Cons.IH [OF this ga(2) Cons.prems(3)] obtain evs1 evs2 g1 o1 o2 where
      "evs = evs1 @ evs2" "gs_run ch ct cl cm evs1 ga = Some (g1, o1)" "gs_run ch ct cl cm evs2 g1 = Some (g', o2)"
      "ob = o1 @ o2" "is_ending (lp_phase (gs_loop g1))" "\<not> is_done (lp_phase (gs_loop g1))"
      "queued (lp_queue (gs_loop g1)) = []" by blast
    with ga show ?thesis
      by (intro exI [of _ "ev # evs1"] exI [of _ evs2] exI [of _ g1] exI [of _ "oa @ o1"] exI [of _ o2])
        (simp del: gs_step.simps)
  qed
qed simp

lemma gs_accounts:
  assumes inv: "gs_inv before [] g0" and start: "\<not> is_ending (lp_phase (gs_loop g0))"
    and run: "gs_run ch ct cl cm evs g0 = Some (g, outs)" and "is_ending (lp_phase (gs_loop g))"
  shows "\<exists>evs1 evs2 g1 o1 o2. evs = evs1 @ evs2 \<and> outs = o1 @ o2 \<and> gs_run ch ct cl cm evs1 g0 = Some (g1, o1) \<and>
    gs_run ch ct cl cm evs2 g1 = Some (g, o2) \<and> flushed before (gs_loop g1) o1 o2"
proof -
  from gs_run_leaves_flush [OF start run assms(4)] obtain evs1 evs2 g1 o1 o2 where
    split: "evs = evs1 @ evs2" "outs = o1 @ o2" "gs_run ch ct cl cm evs1 g0 = Some (g1, o1)"
      "gs_run ch ct cl cm evs2 g1 = Some (g, o2)" "is_ending (lp_phase (gs_loop g1))"
      "\<not> is_done (lp_phase (gs_loop g1))" "queued (lp_queue (gs_loop g1)) = []" by blast
  from gs_run_inv [OF inv split(3)] split(5-7)
  have "before @ accepted o1 = dispatched o1" "lp_closing (gs_loop g1)" by (auto simp: gs_inv_def cq.loop_inv_def)
  with gs_run_when_ending [OF split(5) _ split(4)] split(5) have "flushed before (gs_loop g1) o1 o2" by (simp add: flushed_def)
  with split(1-4) show ?thesis by blast
qed

lemma gs_inv_ended:
  assumes "gs_inv before outs g" and "rt_phase (gs_trace g) = Returned" and "rt_phase (gs_log g) = Returned"
    and "rt_phase (gs_meter g) = Returned"
  shows "shares (dispatched outs) (lp_sink (gs_loop g)) (concat (rt_sent (gs_trace g))) (concat (rt_sent (gs_log g)))
    (concat (rt_sent (gs_meter g)))"
proof -
  obtain ts ls ms where R: "t.recv_inv ts (gs_trace g)" "l.recv_inv ls (gs_log g)" "m.recv_inv ms (gs_meter g)"
    "shares (dispatched outs) (lp_sink (gs_loop g)) ts ls ms" using assms(1) by (auto simp: gs_inv_def)
  have "ts = concat (rt_sent (gs_trace g))" using R(1) assms(2) by (auto simp: t.recv_inv_def)
  moreover have "ls = concat (rt_sent (gs_log g))" using R(2) assms(3) by (auto simp: l.recv_inv_def)
  moreover have "ms = concat (rt_sent (gs_meter g))" using R(3) assms(4) by (auto simp: m.recv_inv_def)
  ultimately show ?thesis using R(4) by simp
qed

end

interpretation lg: grpc_channels list_mpsc lc_items lc_rx lc_tx lc_room list_mpsc lc_items lc_rx lc_tx lc_room
    list_mpsc lc_items lc_rx lc_tx lc_room list_mpsc lc_items lc_rx lc_tx lc_room
  by unfold_locales

section \<open>Properties\<close>

text \<open>What \<open>reporting\<close> hands out, for channels that are created open and empty.\<close>

definition makes_fresh :: "('c \<Rightarrow> 'i list) \<Rightarrow> ('c \<Rightarrow> bool) \<Rightarrow> (nat \<Rightarrow> 'c) \<Rightarrow> bool" where
  "makes_fresh contents tx_alive mk \<longleftrightarrow> contents (mk 255) = [] \<and> tx_alive (mk 255)"

lemma reporting_sender:
  assumes "GrpcReporter_reporting mk_t mk_l mk_m r = (r', Inr rp)"
  shows "rp_sender rp = \<lparr>irs_trace = mk_t 255, irs_log = mk_l 255, irs_meter = mk_m 255,
    irs_management = [], irs_err_calls = [], irs_status_calls = []\<rparr>"
  using assms by (auto simp: GrpcReporter_reporting_def Let_def split: if_splits)

text \<open>C11. What the whole gRPC pipeline does with every item: in every interleaving of the reporting threads
  with the dispatching and the three receiving tasks, until the dispatcher drops the queue what was
  queued before and accepted since is what was dispatched followed by what is still queued.  Once its
  flush loop is over, the run splits at that point: everything accepted before had been dispatched, and
  what is accepted afterwards, which is lost, comes from calls of \<open>report\<close> that had found the closing
  flag unset.  Of the dispatched items, at every moment, those sent in the streams of each kind followed
  by those in its channel are, in order, items of that kind, the management client got all of its items,
  and all others together are as many as the calls of the error handler.\<close>

theorem grpc_system_conserves_items:
  assumes "grpc_channels ch queued q_rx q_tx q_room ct segments t_rx t_tx t_room
      cl records l_rx l_tx l_room cm readings m_rx m_tx m_room"
    and "GrpcReporter_reporting mk_t mk_l mk_m r = (r', Inr rp)" and "q_rx (gr_queue r)"
    and "makes_fresh segments t_tx mk_t" and "makes_fresh records l_tx mk_l" and "makes_fresh readings m_tx mk_m"
    and "gs_run ch ct cl cm evs (Reporting_spawn (gr_queue r) rp) = Some (g, outs)"
  shows "(\<not> is_done (lp_phase (gs_loop g)) \<longrightarrow>
      queued (gr_queue r) @ accepted outs = dispatched outs @ queued (lp_queue (gs_loop g))) \<and>
    (is_ending (lp_phase (gs_loop g)) \<longrightarrow> (\<exists>evs1 evs2 g1 o1 o2. evs = evs1 @ evs2 \<and> outs = o1 @ o2 \<and>
       gs_run ch ct cl cm evs1 (Reporting_spawn (gr_queue r) rp) = Some (g1, o1) \<and>
       gs_run ch ct cl cm evs2 g1 = Some (g, o2) \<and> flushed (queued (gr_queue r)) (gs_loop g1) o1 o2)) \<and>
    shares (dispatched outs) (lp_sink (gs_loop g))
      (concat (rt_sent (gs_trace g)) @ segments (rf_receiver (rt_from (gs_trace g))))
      (concat (rt_sent (gs_log g)) @ records (rf_receiver (rt_from (gs_log g))))
      (concat (rt_sent (gs_meter g)) @ readings (rf_receiver (rt_from (gs_meter g))))"
proof -
  have inv: "grpc_channels.gs_inv queued q_rx segments t_tx records l_tx readings m_tx (queued (gr_queue r)) [] (Reporting_spawn (gr_queue r) rp)"
    using assms(3-6) by (intro grpc_channels.gs_spawn_inv [OF assms(1)])
      (simp_all add: reporting_sender [OF assms(2)] makes_fresh_def)
  have "\<not> is_ending (lp_phase (gs_loop (Reporting_spawn (gr_queue r) rp)))" by (simp add: Reporting_spawn_def loop_start_def)
  note split = grpc_channels.gs_accounts [OF assms(1) inv this assms(7)]
  from grpc_channels.gs_run_inv [OF assms(1) inv assms(7)] obtain rest where
    "queued (gr_queue r) @ accepted outs = dispatched outs @ rest"
    "is_done (lp_phase (gs_loop g)) \<or> rest = queued (lp_queue (gs_loop g))"
    "shares (dispatched outs) (lp_sink (gs_loop g))
      (concat (rt_sent (gs_trace g)) @ segments (rf_receiver (rt_from (gs_trace g))))
      (concat (rt_sent (gs_log g)) @ records (rf_receiver (rt_from (gs_log g))))
      (concat (rt_sent (gs_meter g)) @ readings (rf_receiver (rt_from (gs_meter g))))"
    using grpc_channels.gs_inv_shares [OF assms(1)] by blast
  with split show ?thesis by blast
qed

text \<open>The witness: a trace and a log are reported and dispatched; the trace has been streamed, the log is in
  its channel.\<close>

definition sample_reporter :: "(CollectItem list_chan, unit, unit) GrpcReporter" where
  "sample_reporter = GrpcReporter_new_with_pc (\<lambda>m e h. h) (channel_new None)"

definition sample_trace :: SegmentObject where
  "sample_trace = \<lparr>seg_trace_id = ''t'', seg_trace_segment_id = ''s'', seg_spans = [], seg_service = ''svc'',
     seg_service_instance = ''i'', is_size_limited = False\<rparr>"

definition list_channels :: "nat \<Rightarrow> 'i list_chan" where
  "list_channels n = channel_new (Some n)"

definition sample_reporting ::
  "(SegmentObject list_chan, LogData list_chan, MeterData list_chan, unit) Reporting" where
  "sample_reporting = \<lparr>rp_sender = \<lparr>irs_trace = list_channels 255, irs_log = list_channels 255,
      irs_meter = list_channels 255, irs_management = [], irs_err_calls = [], irs_status_calls = []\<rparr>,
    rp_shutdown_signal = False, rp_sender_status_handle = None, rp_trace_status_handle = None,
    rp_log_status_handle = None, rp_meter_status_handle = None\<rparr>"

definition sample_system_events :: "sys_event list" where
  "sample_system_events = [LoopEv (ReportCheck (Trace sample_trace)), TraceEv OpenStream, LoopEv (ReportCheck sample_log),
     LoopEv (ReportProduce 0), LoopEv (ReportProduce 0), LoopEv (Consume (Inr ())), TraceEv PollNext, LoopEv (Consume (Inr ()))]"

lemma sample_reporting_given: "\<exists>r'. GrpcReporter_reporting list_channels list_channels list_channels sample_reporter = (r', Inr sample_reporting)"
  by (simp add: GrpcReporter_reporting_def sample_reporter_def GrpcReporter_new_with_pc_def sample_reporting_def)

lemma list_channels_fresh: "makes_fresh lc_items lc_tx list_channels"
  by (simp add: makes_fresh_def list_channels_def channel_new_def)

lemma sample_reporter_rx: "lc_rx (gr_queue sample_reporter)"
  by (simp add: sample_reporter_def GrpcReporter_new_with_pc_def channel_new_def)

lemmas sample_system_setup = lg.grpc_channels_axioms sample_reporter_rx list_channels_fresh

definition sample_system ::
  "(SegmentObject list_chan, LogData list_chan, MeterData list_chan, unit) Reporting \<Rightarrow>
   ((CollectItem list_chan, SegmentObject list_chan, LogData list_chan, MeterData list_chan) GrpcSystem \<times> loop_out list) option" where
  "sample_system rp = gs_run list_mpsc list_mpsc list_mpsc list_mpsc sample_system_events
     (Reporting_spawn (gr_queue sample_reporter) rp)"

theorem grpc_system_conserves_items_witness:
  "\<exists>g outs. sample_system sample_reporting = Some (g, outs) \<and> dispatched outs = [Trace sample_trace, sample_log] \<and>
     lc_items (gr_queue sample_reporter) @ accepted outs = dispatched outs @ lc_items (lp_queue (gs_loop g)) \<and>
     shares (dispatched outs) (lp_sink (gs_loop g)) [sample_trace] (concat (rt_sent (gs_log g)) @ lc_items (rf_receiver (rt_from (gs_log g))))
       (concat (rt_sent (gs_meter g)) @ lc_items (rf_receiver (rt_from (gs_meter g))))"
proof -
  have "case sample_system sample_reporting of None \<Rightarrow> False
    | Some (g, outs) \<Rightarrow> dispatched outs = [Trace sample_trace, sample_log] \<and> \<not> is_done (lp_phase (gs_loop g)) \<and>
        concat (rt_sent (gs_trace g)) @ lc_items (rf_receiver (rt_from (gs_trace g))) = [sample_trace]"
    by code_simp
  then obtain g outs where g: "sample_system sample_reporting = Some (g, outs)" "dispatched outs = [Trace sample_trace, sample_log]"
    "\<not> is_done (lp_phase (gs_loop g))"
    "concat (rt_sent (gs_trace g)) @ lc_items (rf_receiver (rt_from (gs_trace g))) = [sample_trace]"
    by (auto split: option.splits)
  obtain r' where "GrpcReporter_reporting list_channels list_channels list_channels sample_reporter = (r', Inr sample_reporting)"
    using sample_reporting_given by blast
  note res = grpc_system_conserves_items [OF sample_system_setup(1) this sample_system_setup(2,3,3,3) g(1) [unfolded sample_system_def]]
  from res [THEN conjunct1, THEN mp, OF g(3)] res [THEN conjunct2, THEN conjunct2] g(1,2,4) show ?thesis by auto
qed

text \<open>C12. Graceful shutdown stops the whole pipeline: with a shutdown signal configured, from every state in
  which the dispatching task is at work, the signal has not come yet and a reporter still holds the
  queue, some run of the tasks brings all four to their end, so that the join handle resolves to \<open>Ok\<close>; by
  then everything accepted so far has been dispatched, and everything the channels took has been streamed.\<close>

theorem grpc_system_shuts_down:
  assumes "grpc_channels ch queued q_rx q_tx q_room ct segments t_rx t_tx t_room
      cl records l_rx l_tx l_room cm readings m_rx m_tx m_room"
    and "GrpcReporter_reporting mk_t mk_l mk_m r = (r', Inr rp)" and "q_rx (gr_queue r)"
    and "makes_fresh segments t_tx mk_t" and "makes_fresh records l_tx mk_l" and "makes_fresh readings m_tx mk_m"
    and "gs_run ch ct cl cm evs (Reporting_spawn (gr_queue r) (with_graceful_shutdown rp)) = Some (g, outs)"
    and "lp_phase (gs_loop g) = Working" and "lp_signal (gs_loop g) = AwaitingSignal" and "q_tx (lp_queue (gs_loop g))"
  shows "\<exists>evs' g' outs'. gs_run ch ct cl cm evs' g = Some (g', outs') \<and>
    ReportingJoinHandle_poll (gs_handles g') = Ready (Inr ()) \<and>
    dispatched (outs @ outs') = queued (gr_queue r) @ accepted outs \<and>
    shares (dispatched (outs @ outs')) (lp_sink (gs_loop g')) (concat (rt_sent (gs_trace g'))) (concat (rt_sent (gs_log g')))
      (concat (rt_sent (gs_meter g')))"
proof -
  let ?inv = "grpc_channels.gs_inv queued q_rx segments t_tx records l_tx readings m_tx (queued (gr_queue r))"
  have "?inv [] (Reporting_spawn (gr_queue r) (with_graceful_shutdown rp))"
    using assms(3-6) by (intro grpc_channels.gs_spawn_inv [OF assms(1)])
      (simp_all add: reporting_sender [OF assms(2)] makes_fresh_def with_graceful_shutdown_def)
  from grpc_channels.gs_run_inv [OF assms(1) this assms(7)] have inv: "?inv outs g" by simp
  have "gs_signal g"
    using gs_run_signal [OF assms(7)] by (simp add: Reporting_spawn_def with_graceful_shutdown_def)
  from grpc_channels.dispatcher_ends [OF assms(1,8-10) this] obtain e1 g1 o1 where
    g1: "gs_run ch ct cl cm e1 g = Some (g1, o1)" "loop_result (gs_loop g1) = Some (Inr ())"
    "dispatched o1 = queued (lp_queue (gs_loop g))" "accepted o1 = []" "is_done (lp_phase (gs_loop g1))" by blast
  have inv1: "?inv (outs @ o1) g1" by (rule grpc_channels.gs_run_inv [OF assms(1) inv g1(1)])
  obtain e2 g2 where g2: "gs_run ch ct cl cm e2 g1 = Some (g2, [])" "same_task (gs_loop g2) (gs_loop g1)"
    "rt_phase (gs_trace g2) = Returned" "rt_phase (gs_log g2) = Returned" "rt_phase (gs_meter g2) = Returned"
    using grpc_channels.receivers_end [OF assms(1) inv1 g1(5)] by blast
  have "?inv (outs @ o1) g2" using grpc_channels.gs_run_inv [OF assms(1) inv1 g2(1)] by simp
  note shares = grpc_channels.gs_inv_ended [OF assms(1) this g2(3-5)]
  have "ReportingJoinHandle_poll (gs_handles g2) = Ready (Inr ())"
    using g1(2) g2(3-5) loop_result_same_task [OF g2(2)]
    by (simp add: gs_handles_def receive_handle_def ReportingJoinHandle_poll_def map_filter_def)
  moreover have "dispatched (outs @ o1) = queued (gr_queue r) @ accepted outs"
    using grpc_channels.gs_inv_shares [OF assms(1), of _ outs g] inv g1(3) assms(8) by auto
  moreover have "gs_run ch ct cl cm (e1 @ e2) g = Some (g2, o1)" using g1(1) g2(1) by (simp add: gs_run_append)
  ultimately show ?thesis using shares by blast
qed

theorem grpc_system_shuts_down_witness:
  "\<exists>g outs evs' g' outs'. sample_system (with_graceful_shutdown sample_reporting) = Some (g, outs) \<and>
     gs_run list_mpsc list_mpsc list_mpsc list_mpsc evs' g = Some (g', outs') \<and>
     ReportingJoinHandle_poll (gs_handles g') = Ready (Inr ()) \<and>
     dispatched (outs @ outs') = lc_items (gr_queue sample_reporter) @ accepted outs"
proof -
  have "case sample_system (with_graceful_shutdown sample_reporting) of None \<Rightarrow> False
    | Some (g, outs) \<Rightarrow> lp_phase (gs_loop g) = Working \<and> lp_signal (gs_loop g) = AwaitingSignal \<and> lc_tx (lp_queue (gs_loop g))"
    by code_simp
  then obtain g outs where g: "sample_system (with_graceful_shutdown sample_reporting) = Some (g, outs)"
    "lp_phase (gs_loop g) = Working" "lp_signal (gs_loop g) = AwaitingSignal" "lc_tx (lp_queue (gs_loop g))"
    by (auto split: option.splits)
  obtain r' where "GrpcReporter_reporting list_channels list_channels list_channels sample_reporter = (r', Inr sample_reporting)"
    using sample_reporting_given by blast
  from grpc_system_shuts_down [OF sample_system_setup(1) this sample_system_setup(2,3,3,3) g(1) [unfolded sample_system_def] g(2-4)] g(1)
  show ?thesis by blast
qed

end
