(* ===== verification/Kafka_Reporter.thy ===== *)
theory Kafka_Reporter
  imports Report_Loop Grpc_Reporter
begin

text \<open>
  \<^verbatim>\<open>src/src/reporter/kafka.rs\<close>: the client configuration, the topics, the producer that turns a
  collected item into a Kafka record, and the reporter with its background task, the second instance
  of \<open>Report_Loop\<close>.
\<close>

section \<open>Client configuration\<close>

datatype LogLevel = Critical | LevelError | Warning | Notice | Info | Debug

datatype RDKafkaLogLevel = RdCritical | RdError | RdWarning | RdNotice | RdInfo | RdDebug

fun LogLevel_into :: "LogLevel \<Rightarrow> RDKafkaLogLevel" where
  "LogLevel_into Critical = RdCritical"
| "LogLevel_into LevelError = RdError"
| "LogLevel_into Warning = RdWarning"
| "LogLevel_into Notice = RdNotice"
| "LogLevel_into Info = RdInfo"
| "LogLevel_into Debug = RdDebug"

record ClientConfig =
  cc_params :: "string \<rightharpoonup> string"
  cc_log_level :: "LogLevel option"

definition ClientConfig_new :: ClientConfig where
  "ClientConfig_new = \<lparr>cc_params = Map.empty, cc_log_level = None\<rparr>"

definition ClientConfig_set :: "string \<Rightarrow> string \<Rightarrow> ClientConfig \<Rightarrow> ClientConfig" where
  "ClientConfig_set k v c = c\<lparr>cc_params := (cc_params c)(k \<mapsto> v)\<rparr>"

definition ClientConfig_set_log_level :: "LogLevel \<Rightarrow> ClientConfig \<Rightarrow> ClientConfig" where
  "ClientConfig_set_log_level l c = c\<lparr>cc_log_level := Some l\<rparr>"

text \<open>\<open>rdkafka\<close>'s own configuration object, as the crate uses it.\<close>

record 'c rd_config_ops =
  rd_new :: 'c
  rd_set :: "string \<Rightarrow> string \<Rightarrow> 'c \<Rightarrow> 'c"
  rd_set_log_level :: "RDKafkaLogLevel \<Rightarrow> 'c \<Rightarrow> 'c"

text \<open>\<open>order\<close> is the order in which the map of parameters is enumerated.\<close>

definition to_rdkafka_config :: "'c rd_config_ops \<Rightarrow> string list \<Rightarrow> ClientConfig \<Rightarrow> 'c" where
  "to_rdkafka_config rd order c =
     (let config = foldl (\<lambda>acc k. case cc_params c k of Some v \<Rightarrow> rd_set rd k v acc | None \<Rightarrow> acc)
                     (rd_new rd) order
      in (case cc_log_level c of Some l \<Rightarrow> rd_set_log_level rd (LogLevel_into l) config | None \<Rightarrow> config))"

text \<open>A later value of a key replaces an earlier one.\<close>

locale rd_config =
  fixes rd :: "'c rd_config_ops"
    and param :: "'c \<Rightarrow> string \<rightharpoonup> string"
    and level :: "'c \<Rightarrow> RDKafkaLogLevel option"
  assumes new_laws: "param (rd_new rd) = Map.empty" "level (rd_new rd) = None"
    and set_laws: "param (rd_set rd k v c) = (param c)(k \<mapsto> v)" "level (rd_set rd k v c) = level c"
    and level_laws: "param (rd_set_log_level rd l c) = param c" "level (rd_set_log_level rd l c) = Some l"
begin

lemma fold_params:
  "param (foldl (\<lambda>acc k. case m k of Some v \<Rightarrow> rd_set rd k v acc | None \<Rightarrow> acc) c order) =
   (\<lambda>k. if k \<in> set order \<and> k \<in> dom m then m k else param c k) \<and>
   level (foldl (\<lambda>acc k. case m k of Some v \<Rightarrow> rd_set rd k v acc | None \<Rightarrow> acc) c order) = level c"
proof (induction order arbitrary: c)
  case (Cons k ks)
  show ?case
  proof (cases "m k")
    case (Some v)
    with Cons.IH [of "rd_set rd k v c"] show ?thesis by (auto simp: set_laws fun_eq_iff)
  next
    case None
    with Cons.IH [of c] show ?thesis by (auto simp: fun_eq_iff)
  qed
qed simp

lemma config_carried_over:
  assumes "set order = dom (cc_params c)"
  shows "param (to_rdkafka_config rd order c) = cc_params c \<and>
    level (to_rdkafka_config rd order c) = map_option LogLevel_into (cc_log_level c)"
  using fold_params [of "cc_params c" "rd_new rd" order] assms
  by (auto simp: to_rdkafka_config_def Let_def new_laws level_laws fun_eq_iff split: option.splits)

end

definition map_rd_config :: "((string \<rightharpoonup> string) \<times> RDKafkaLogLevel option) rd_config_ops" where
  "map_rd_config = \<lparr>rd_new = (Map.empty, None), rd_set = (\<lambda>k v (m, l). (m(k \<mapsto> v), l)),
     rd_set_log_level = (\<lambda>l (m, _). (m, Some l))\<rparr>"

interpretation map_rd: rd_config map_rd_config fst snd
  by unfold_locales (auto simp: map_rd_config_def split: prod.splits)

section \<open>Topics\<close>

record TopicNames =
  tn_segment :: string
  tn_meter :: string
  tn_log :: string
  tn_management :: string

definition TOPIC_LOG :: string where "TOPIC_LOG = ''skywalking-logs''"
definition TOPIC_MANAGEMENT :: string where "TOPIC_MANAGEMENT = ''skywalking-managements''"
definition TOPIC_METER :: string where "TOPIC_METER = ''skywalking-meters''"
definition TOPIC_SEGMENT :: string where "TOPIC_SEGMENT = ''skywalking-segments''"

definition real_topic_name :: "string option \<Rightarrow> string \<Rightarrow> string" where
  "real_topic_name ns topic = (case ns of Some n \<Rightarrow> n @ ''-'' @ topic | None \<Rightarrow> topic)"

definition TopicNames_new :: "string option \<Rightarrow> TopicNames" where
  "TopicNames_new ns =
     \<lparr>tn_segment = real_topic_name ns TOPIC_SEGMENT, tn_meter = real_topic_name ns TOPIC_METER,
      tn_log = real_topic_name ns TOPIC_LOG, tn_management = real_topic_name ns TOPIC_MANAGEMENT\<rparr>"

section \<open>Producer\<close>

text \<open>The records handed to the client, and the calls of the error handler.\<close>

record KafkaRecord =
  kr_topic :: string
  kr_key :: bytes
  kr_payload :: bytes

record KafkaProducer =
  kp_topic_names :: TopicNames
  kp_sent :: "KafkaRecord list"
  kp_err_calls :: "(string \<times> string) list"

definition KafkaProducer_new :: "string option \<Rightarrow> KafkaProducer" where
  "KafkaProducer_new ns = \<lparr>kp_topic_names = TopicNames_new ns, kp_sent = [], kp_err_calls = []\<rparr>"

fun topic_and_key :: "TopicNames \<Rightarrow> CollectItem \<Rightarrow> string \<times> bytes" where
  "topic_and_key tn (Trace item) = (tn_segment tn, seg_trace_segment_id item)"
| "topic_and_key tn (Log item) = (tn_log tn, ld_service item)"
| "topic_and_key tn (Meter item) = (tn_meter tn, md_service_instance item)"
| "topic_and_key tn (Instance item) = (tn_management tn, ''register-'' @ ip_service_instance item)"
| "topic_and_key tn (Ping item) = (tn_log tn, ping_service_instance item)"

definition kafka_record :: "encoders \<Rightarrow> TopicNames \<Rightarrow> CollectItem \<Rightarrow> KafkaRecord" where
  "kafka_record enc tn item =
     (case topic_and_key tn item of (topic, key) \<Rightarrow>
        \<lparr>kr_topic = topic, kr_key = key, kr_payload = CollectItem_encode_to_vec enc item\<rparr>)"

text \<open>\<open>net\<close> is what \<open>send\<close> of the client returns.\<close>

definition KafkaProducer_produce ::
  "encoders \<Rightarrow> (string + unit) \<Rightarrow> CollectItem \<Rightarrow> KafkaProducer \<Rightarrow> KafkaProducer" where
  "KafkaProducer_produce enc net item kp =
     (let kp1 = kp\<lparr>kp_sent := kp_sent kp @ [kafka_record enc (kp_topic_names kp) item]\<rparr>
      in (case net of
            Inl e \<Rightarrow> kp1\<lparr>kp_err_calls := kp_err_calls kp @ [(''Collect data to kafka failed'', e)]\<rparr>
          | Inr _ \<Rightarrow> kp1))"

section \<open>Builder and reporter\<close>

record ('q, 'h) KafkaReportBuilder =
  kb_queue :: 'q
  kb_client_config :: ClientConfig
  kb_namespace :: "string option"
  kb_err_handle :: "'h handler"

definition kafka_default_err_handle :: "(string \<times> string) list handler" where
  "kafka_default_err_handle message err log = log @ [(message, err)]"

definition KafkaReportBuilder_new_with_pc ::
  "'h handler \<Rightarrow> ClientConfig \<Rightarrow> 'q \<Rightarrow> ('q, 'h) KafkaReportBuilder" where
  "KafkaReportBuilder_new_with_pc dflt_handle c q =
     \<lparr>kb_queue = q, kb_client_config = c, kb_namespace = None, kb_err_handle = dflt_handle\<rparr>"

text \<open>\<open>new\<close>: \<open>unbounded\<close> is the channel \<open>mpsc::unbounded_channel()\<close> gives.\<close>

definition KafkaReportBuilder_new :: "'h handler \<Rightarrow> 'q \<Rightarrow> ClientConfig \<Rightarrow> ('q, 'h) KafkaReportBuilder" where
  "KafkaReportBuilder_new dflt_handle unbounded c =
     KafkaReportBuilder_new_with_pc dflt_handle c unbounded"

definition KafkaReportBuilder_with_err_handle ::
  "'h handler \<Rightarrow> ('q, 'h) KafkaReportBuilder \<Rightarrow> ('q, 'h) KafkaReportBuilder" where
  "KafkaReportBuilder_with_err_handle h b = b\<lparr>kb_err_handle := h\<rparr>"

definition with_namespace :: "string \<Rightarrow> ('q, 'h) KafkaReportBuilder \<Rightarrow> ('q, 'h) KafkaReportBuilder" where
  "with_namespace ns b = b\<lparr>kb_namespace := Some ns\<rparr>"

record ('q, 'h) KafkaReporter =
  kf_is_closing :: bool
  kf_queue :: 'q
  kf_err_handle :: "'h handler"

text \<open>The handle for the background task; \<open>kg_shutdown_signal\<close>: a signal was given, otherwise it is
  \<open>pending()\<close>.  Both ends of the queue share it.\<close>

record 'q KafkaReporting =
  kg_consumer :: 'q
  kg_kafka_producer :: KafkaProducer
  kg_shutdown_signal :: bool

text \<open>\<open>create\<close> is \<open>rdkafka\<close>'s constructor of a client from a configuration.\<close>

definition KafkaReportBuilder_build ::
  "'c rd_config_ops \<Rightarrow> string list \<Rightarrow> ('c \<Rightarrow> string + unit) \<Rightarrow> ('q, 'h) KafkaReportBuilder \<Rightarrow>
   KafkaError + (('q, 'h) KafkaReporter \<times> 'q KafkaReporting)" where
  "KafkaReportBuilder_build rd order create b =
     and_then (map_sum RdKafka id (create (to_rdkafka_config rd order (kb_client_config b)))) (\<lambda>_.
       Inr (\<lparr>kf_is_closing = False, kf_queue = kb_queue b, kf_err_handle = kb_err_handle b\<rparr>,
            \<lparr>kg_consumer = kb_queue b, kg_kafka_producer = KafkaProducer_new (kb_namespace b),
             kg_shutdown_signal = False\<rparr>))"

definition KafkaReporting_with_graceful_shutdown :: "'q KafkaReporting \<Rightarrow> 'q KafkaReporting" where
  "KafkaReporting_with_graceful_shutdown kg = kg\<lparr>kg_shutdown_signal := True\<rparr>"

definition KafkaReporter_report :: "'q produce_fn \<Rightarrow> (('q, 'h) KafkaReporter \<times> 'h) report_fn" where
  "KafkaReporter_report produce item s =
     (case s of (r, h) \<Rightarrow>
        if kf_is_closing r then (s, Inr ())
        else
          (case produce item (kf_queue r) of
             (q', Inl p) \<Rightarrow> ((r\<lparr>kf_queue := q'\<rparr>, h), Inl p)
           | (q', Inr (Inl e)) \<Rightarrow>
               ((r\<lparr>kf_queue := q'\<rparr>, kf_err_handle r ''report collect item failed'' e h), Inr ())
           | (q', Inr (Inr _)) \<Rightarrow> ((r\<lparr>kf_queue := q'\<rparr>, h), Inr ())))"

text \<open>\<open>KafkaReporting::spawn\<close>: the background task.  Without \<open>with_graceful_shutdown\<close> the signal never
  comes.\<close>

definition KafkaReporting_start :: "'q KafkaReporting \<Rightarrow> ('q, KafkaProducer) Loop" where
  "KafkaReporting_start kg = loop_start (kg_consumer kg) (kg_kafka_producer kg)"

definition KafkaReporting_run ::
  "('q, CollectItem) mpsc \<Rightarrow> encoders \<Rightarrow> loop_event list \<Rightarrow> ('q, KafkaProducer) Loop \<Rightarrow>
   ('q, KafkaProducer) loop_next" where
  "KafkaReporting_run ch enc =
     loop_run (UnboundedSender_produce ch) (Receiver_ops ch) (KafkaProducer_produce enc)"

definition KafkaReporting_spawn ::
  "('q, CollectItem) mpsc \<Rightarrow> encoders \<Rightarrow> 'q KafkaReporting \<Rightarrow> loop_event list \<Rightarrow> ('q, KafkaProducer) loop_next" where
  "KafkaReporting_spawn ch enc kg evs =
     (if ShutdownSignal \<in> set evs \<and> \<not> kg_shutdown_signal kg then None
      else KafkaReporting_run ch enc evs (KafkaReporting_start kg))"

lemma KafkaReporting_spawn_run:
  "KafkaReporting_spawn ch enc kg evs = Some x \<Longrightarrow> KafkaReporting_run ch enc evs (KafkaReporting_start kg) = Some x"
  by (auto simp: KafkaReporting_spawn_def split: if_splits)

text \<open>\<open>ReportingJoinHandle\<close>: \<open>None\<close> while the task runs, \<open>Inl\<close> when it panicked.\<close>

definition KafkaJoinHandle_poll :: "(string + unit sw_result) option \<Rightarrow> unit sw_result poll" where
  "KafkaJoinHandle_poll task =
     (case task of
        None \<Rightarrow> Pending
      | Some (Inl e) \<Rightarrow> Ready (Inl (TokioJoin e))
      | Some (Inr r) \<Rightarrow> Ready r)"

context collect_queue
begin

lemma kafka_is_reporter:
  "gated_reporter (KafkaReporter_report produce) (\<lambda>(r, h). items (kf_queue r))
     (\<lambda>(r, h). \<not> kf_is_closing r \<and> attached (kf_queue r))"
proof (rule gated_reporterI)
  fix x :: CollectItem and s :: "('q, 'h) KafkaReporter \<times> 'h"
  obtain r h where s: "s = (r, h)" by fastforce
  obtain q' where q': "produce x (kf_queue r) = (q', Inr (if attached (kf_queue r) then Inr () else Inl ''channel closed''))"
    "items q' = items (kf_queue r) @ (if attached (kf_queue r) then [x] else [])"
    "attached q' = attached (kf_queue r)" by (rule produce_cases)
  show "(case s of (r, h) \<Rightarrow> \<not> kf_is_closing r \<and> attached (kf_queue r)) \<Longrightarrow>
      snd (KafkaReporter_report produce x s) = Inr ()"
    by (simp add: s KafkaReporter_report_def q')
  show "(case fst (KafkaReporter_report produce x s) of (r, h) \<Rightarrow> items (kf_queue r)) =
      (case s of (r, h) \<Rightarrow> items (kf_queue r)) @
      (if case s of (r, h) \<Rightarrow> \<not> kf_is_closing r \<and> attached (kf_queue r) then [x] else [])"
    by (simp add: s KafkaReporter_report_def q')
  show "(case fst (KafkaReporter_report produce x s) of (r, h) \<Rightarrow> \<not> kf_is_closing r \<and> attached (kf_queue r)) =
      (case s of (r, h) \<Rightarrow> \<not> kf_is_closing r \<and> attached (kf_queue r))"
    by (simp add: s KafkaReporter_report_def q')
qed

end

interpretation kafka: gated_reporter "KafkaReporter_report (UnboundedSender_produce list_mpsc)"
    "\<lambda>(r, h). lc_items (kf_queue r)" "\<lambda>(r, h). \<not> kf_is_closing r \<and> lc_rx (kf_queue r)"
  by (rule uq.kafka_is_reporter)

section \<open>Properties\<close>

lemmas topic_defs = TOPIC_LOG_def TOPIC_MANAGEMENT_def TOPIC_METER_def TOPIC_SEGMENT_def

definition all_topics :: "string list" where
  "all_topics = [TOPIC_LOG, TOPIC_MANAGEMENT, TOPIC_METER, TOPIC_SEGMENT]"

lemma namespaced_eq_iff:
  "t \<in> set all_topics \<Longrightarrow> t' \<in> set all_topics \<Longrightarrow> n @ ''-'' @ t = n' @ ''-'' @ t' \<longleftrightarrow> n = n' \<and> t = t'"
proof (cases "t = t'")
  case False
  assume "t \<in> set all_topics" and "t' \<in> set all_topics"
  with False have "rev t @ rev (n @ ''-'') \<noteq> rev t' @ rev (n' @ ''-'')"
    by (auto simp: all_topics_def topic_defs)
  with False show ?thesis by (metis append_assoc rev_append)
qed simp

lemma namespaced_neq_plain:
  "t \<in> set all_topics \<Longrightarrow> t' \<in> set all_topics \<Longrightarrow> n @ ''-'' @ t \<noteq> t'"
proof
  assume t: "t \<in> set all_topics" "t' \<in> set all_topics" and "n @ ''-'' @ t = t'"
  then have "rev t @ ''-'' @ rev n = rev t'" by (metis append_assoc rev_append rev_singleton_conv)
  with t show False by (auto simp: all_topics_def topic_defs)
qed

text \<open>Namespaces isolate: the topic name is an injective function of the namespace (or its absence)
  and the kind of data, so that two reporters share a topic only if they have the same namespace and
  send the same kind of data there.\<close>

theorem kafka_topic_names_are_injective:
  assumes "t \<in> set all_topics" and "t' \<in> set all_topics"
  shows "real_topic_name ns t = real_topic_name ns' t' \<longleftrightarrow> ns = ns' \<and> t = t'"
  using namespaced_eq_iff [OF assms] namespaced_neq_plain [OF assms] namespaced_neq_plain [OF assms(2,1)]
  by (cases ns; cases ns') (auto simp: real_topic_name_def dest: sym)

theorem kafka_topic_names_are_injective_witness:
  "real_topic_name (Some ''skywalking'') TOPIC_LOG = real_topic_name None TOPIC_LOG \<longleftrightarrow>
     Some ''skywalking'' = None \<and> TOPIC_LOG = TOPIC_LOG"
  by (rule kafka_topic_names_are_injective) (simp_all add: all_topics_def)

text \<open>C38. Which data a topic carries: under every namespace the segment topic receives exactly the
  traces, the meter topic exactly the meters and the management topic exactly the instance
  properties; the log topic receives the logs and, unlike what its name and the management topic
  suggest, the keep-alive pings.\<close>

theorem kafka_topics_carry_their_data:
  "(kr_topic (kafka_record enc (TopicNames_new ns) x) = tn_segment (TopicNames_new ns) \<longleftrightarrow> (\<exists>d. x = Trace d)) \<and>
   (kr_topic (kafka_record enc (TopicNames_new ns) x) = tn_meter (TopicNames_new ns) \<longleftrightarrow> (\<exists>d. x = Meter d)) \<and>
   (kr_topic (kafka_record enc (TopicNames_new ns) x) = tn_management (TopicNames_new ns) \<longleftrightarrow> (\<exists>d. x = Instance d)) \<and>
   (kr_topic (kafka_record enc (TopicNames_new ns) x) = tn_log (TopicNames_new ns) \<longleftrightarrow>
      (\<exists>d. x = Log d) \<or> (\<exists>d. x = Ping d))"
proof -
  have inj: "real_topic_name ns t = real_topic_name ns t' \<longleftrightarrow> t = t'" for t t'
    by (cases ns) (simp_all add: real_topic_name_def)
  show ?thesis
    by (cases x) (simp_all add: kafka_record_def TopicNames_new_def inj topic_defs)
qed

lemma produce_sent:
  "kp_topic_names kp = tn \<Longrightarrow>
   kp_sent (KafkaProducer_produce enc net x kp) = kp_sent kp @ [kafka_record enc tn x] \<and>
   kp_topic_names (KafkaProducer_produce enc net x kp) = tn"
  by (auto simp: KafkaProducer_produce_def Let_def split: sum.splits)

lemma kafka_run_sent:
  assumes "loop_run produce ops (KafkaProducer_produce enc) evs s = Some (s', outs)"
  shows "kp_sent (lp_sink s') =
    kp_sent (lp_sink s) @ map (kafka_record enc (kp_topic_names (lp_sink s))) (dispatched outs)"
proof -
  let ?tn = "kp_topic_names (lp_sink s)"
  have "kp_topic_names (lp_sink s') = ?tn \<and> kp_sent (lp_sink s') =
      kp_sent (lp_sink s) @ concat (map (\<lambda>x. [kafka_record enc ?tn x]) (dispatched outs))"
    by (rule loop_run_sink [where P = "\<lambda>kp. kp_topic_names kp = ?tn", OF _ assms])
      (simp_all add: produce_sent)
  then show ?thesis by simp
qed

lemma build_reporting:
  assumes "KafkaReportBuilder_build rd order create b = Inr (rep, kg)"
  shows "kg = \<lparr>kg_consumer = kb_queue b, kg_kafka_producer = KafkaProducer_new (kb_namespace b), kg_shutdown_signal = False\<rparr>"
  using assms by (cases "create (to_rdkafka_config rd order (kb_client_config b))")
    (auto simp: KafkaReportBuilder_build_def and_then_def)

text \<open>What the record of an item must be, kind by kind: the topic under the prefix of the namespace, the key
  and the encoded message.\<close>

fun right_record :: "encoders \<Rightarrow> string option \<Rightarrow> KafkaRecord \<Rightarrow> CollectItem \<Rightarrow> bool" where
  "right_record enc ns r (Trace d) \<longleftrightarrow> kr_topic r = (case ns of None \<Rightarrow> [] | Some n \<Rightarrow> n @ ''-'') @ ''skywalking-segments'' \<and>
     kr_key r = seg_trace_segment_id d \<and> kr_payload r = enc_segment enc d"
| "right_record enc ns r (Log d) \<longleftrightarrow> kr_topic r = (case ns of None \<Rightarrow> [] | Some n \<Rightarrow> n @ ''-'') @ ''skywalking-logs'' \<and>
     kr_key r = ld_service d \<and> kr_payload r = enc_log enc d"
| "right_record enc ns r (Meter d) \<longleftrightarrow> kr_topic r = (case ns of None \<Rightarrow> [] | Some n \<Rightarrow> n @ ''-'') @ ''skywalking-meters'' \<and>
     kr_key r = md_service_instance d \<and> kr_payload r = enc_meter enc d"
| "right_record enc ns r (Instance d) \<longleftrightarrow> kr_topic r = (case ns of None \<Rightarrow> [] | Some n \<Rightarrow> n @ ''-'') @ ''skywalking-managements'' \<and>
     kr_key r = ''register-'' @ ip_service_instance d \<and> kr_payload r = enc_instance enc d"
| "right_record enc ns r (Ping d) \<longleftrightarrow> kr_topic r = (case ns of None \<Rightarrow> [] | Some n \<Rightarrow> n @ ''-'') @ ''skywalking-logs'' \<and>
     kr_key r = ping_service_instance d \<and> kr_payload r = enc_ping enc d"

lemma kafka_record_right: "right_record enc ns (kafka_record enc (TopicNames_new ns) x) x"
  by (cases x; cases ns) (simp_all add: kafka_record_def TopicNames_new_def real_topic_name_def topic_defs)

text \<open>C25. Kafka receives every item in order and once, and only a late one can be lost: for whatever builder
  was built, in every interleaving of the reporting threads with the background task, on any channel
  that keeps tokio's contract, the records given to the Kafka client stand, one by one, for the items
  taken from the queue: each has the topic of its kind under the prefix of the namespace, the key of its
  kind (segment id, service, instance, \<open>register-\<close> and instance) and the encoded message.  Until the task
  drops the queue these items followed by those still queued are the accepted ones; once the flush loop
  is over the run splits at its end: everything accepted before is in them, and what was accepted
  afterwards and is lost comes from calls of \<open>report\<close> that had found the closing flag unset.  Every item
  that could not be queued was reported to the error handler.\<close>

theorem kafka_sends_in_order_exactly_once:
  assumes "mpsc_channel ch contents rx_alive tx_alive room" and "rx_alive (kb_queue b)" and "contents (kb_queue b) = []"
    and "KafkaReportBuilder_build rd order create b = Inr (rep, kg)"
    and "KafkaReporting_spawn ch enc kg evs = Some (s, outs)"
  shows "list_all2 (right_record enc (kb_namespace b)) (kp_sent (lp_sink s)) (dispatched outs) \<and>
    (\<not> is_done (lp_phase s) \<longrightarrow> accepted outs = dispatched outs @ contents (lp_queue s)) \<and>
    (is_ending (lp_phase s) \<longrightarrow> (\<exists>evs1 evs2 s1 o1 o2. evs = evs1 @ evs2 \<and> outs = o1 @ o2 \<and>
       KafkaReporting_run ch enc evs1 (KafkaReporting_start kg) = Some (s1, o1) \<and>
       KafkaReporting_run ch enc evs2 s1 = Some (s, o2) \<and> flushed [] s1 o1 o2)) \<and>
    length (failed outs) = length (lp_err_calls s)"
proof -
  have kg: "kg_consumer kg = kb_queue b" "kg_kafka_producer kg = KafkaProducer_new (kb_namespace b)"
    using build_reporting [OF assms(4)] by simp_all
  note run = KafkaReporting_spawn_run [OF assms(5), unfolded KafkaReporting_run_def KafkaReporting_start_def kg]
  have "kp_sent (lp_sink s) = map (kafka_record enc (TopicNames_new (kb_namespace b))) (dispatched outs)"
    using kafka_run_sent [OF run] by (simp add: loop_start_def KafkaProducer_new_def)
  then have "list_all2 (right_record enc (kb_namespace b)) (kp_sent (lp_sink s)) (dispatched outs)"
    by (simp add: list_all2_map1 kafka_record_right list_all2_refl)
  with collect_queue.loop_accounts [OF unbounded_collect_queue [OF assms(1)] assms(2) run] assms(3)
  show ?thesis unfolding KafkaReporting_run_def KafkaReporting_start_def kg by simp
qed

definition const_encoders :: encoders where
  "const_encoders = \<lparr>enc_segment = (\<lambda>_. ''t''), enc_log = (\<lambda>_. ''l''), enc_meter = (\<lambda>_. ''m''),
     enc_instance = (\<lambda>_. ''i''), enc_ping = (\<lambda>_. ''p'')\<rparr>"

definition sample_builder :: "(CollectItem list_chan, unit) KafkaReportBuilder" where
  "sample_builder = with_namespace ''ns'' (KafkaReportBuilder_new (\<lambda>m e h. h) (channel_new None)
     (ClientConfig_set ''bootstrap.servers'' ''broker:9092'' ClientConfig_new))"

definition sample_kafka_reporting :: "CollectItem list_chan KafkaReporting" where
  "sample_kafka_reporting = \<lparr>kg_consumer = channel_new None, kg_kafka_producer = KafkaProducer_new (Some ''ns''),
     kg_shutdown_signal = False\<rparr>"

lemma sample_builder_builds:
  "\<exists>rep. KafkaReportBuilder_build map_rd_config [''bootstrap.servers''] (\<lambda>c. Inr ()) sample_builder = Inr (rep, sample_kafka_reporting)"
  by (simp add: sample_builder_def with_namespace_def KafkaReportBuilder_new_def KafkaReportBuilder_new_with_pc_def
      KafkaReportBuilder_build_def and_then_def sample_kafka_reporting_def)

definition sample_kafka_events :: "loop_event list" where
  "sample_kafka_events = [ReportCheck sample_log, ReportCheck sample_ping, ReportProduce 0, Consume (Inl ''down''), ReportProduce 0]"

definition sample_kafka :: "(CollectItem list_chan, KafkaProducer) loop_next" where
  "sample_kafka = KafkaReporting_spawn list_mpsc const_encoders sample_kafka_reporting sample_kafka_events"

lemma sample_kafka_eq:
  "\<exists>s. sample_kafka = Some (s, [Accepted sample_log, Dispatched sample_log, Accepted sample_ping]) \<and>
     map kr_topic (kp_sent (lp_sink s)) = [''ns-skywalking-logs''] \<and>
     lp_phase s = Working \<and>
     kp_err_calls (lp_sink s) = [(''Collect data to kafka failed'', ''down'')]"
  by (simp add: sample_kafka_def KafkaReporting_spawn_def KafkaReporting_run_def KafkaReporting_start_def
      sample_kafka_reporting_def sample_kafka_events_def loop_start_def
      channel_new_def report_check_def report_produce_def UnboundedSender_produce_def list_mpsc_def
      lc_push_def work_consume_def Receiver_ops_def Receiver_consume_def sample_log_def sample_ping_def
      KafkaProducer_new_def KafkaProducer_produce_def kafka_record_def TopicNames_new_def
      real_topic_name_def topic_defs const_encoders_def remove_nth_def Let_def)

theorem kafka_sends_in_order_exactly_once_witness:
  "\<exists>s outs r. sample_kafka = Some (s, outs) \<and> kp_sent (lp_sink s) = [r] \<and> right_record const_encoders (Some ''ns'') r sample_log \<and>
     accepted outs = [sample_log] @ lc_items (lp_queue s)"
proof -
  obtain s where so: "sample_kafka = Some (s, [Accepted sample_log, Dispatched sample_log, Accepted sample_ping])"
    "lp_phase s = Working" using sample_kafka_eq by blast
  have init: "lc_rx (kb_queue sample_builder)" "lc_items (kb_queue sample_builder) = []"
    by (simp_all add: sample_builder_def with_namespace_def KafkaReportBuilder_new_def KafkaReportBuilder_new_with_pc_def channel_new_def)
  have ns: "kb_namespace sample_builder = Some ''ns''" by (simp add: sample_builder_def with_namespace_def)
  have obs: "dispatched [Accepted sample_log, Dispatched sample_log, Accepted sample_ping] = [sample_log]"
    by (simp add: dispatched_def)
  obtain rep where "KafkaReportBuilder_build map_rd_config [''bootstrap.servers''] (\<lambda>c. Inr ()) sample_builder =
      Inr (rep, sample_kafka_reporting)" using sample_builder_builds by blast
  note res = kafka_sends_in_order_exactly_once [OF lc.mpsc_channel_axioms init this so(1) [unfolded sample_kafka_def]]
  then have "list_all2 (right_record const_encoders (Some ''ns'')) (kp_sent (lp_sink s)) [sample_log]" unfolding obs ns by blast
  then obtain r where "kp_sent (lp_sink s) = [r]" "right_record const_encoders (Some ''ns'') r sample_log"
    by (auto simp: list_all2_Cons2)
  with so res show ?thesis unfolding obs by auto
qed

text \<open>C36. Graceful shutdown of the Kafka task completes: from every state it can be in while it works and
  before the signal, as long as a reporter still holds the sending end, the signal is taken up, the
  records of everything queued are sent in order, in as many steps as there are items and four
  more, and the task returns \<open>Ok\<close>, whatever the cluster answers.\<close>

theorem kafka_graceful_shutdown_completes:
  assumes "mpsc_channel ch contents rx_alive tx_alive room"
    and "KafkaReporting_spawn ch enc (KafkaReporting_with_graceful_shutdown kg) evs = Some (s, outs)"
    and "lp_phase s = Working" and "lp_signal s = AwaitingSignal" and "tx_alive (lp_queue s)"
  shows "\<exists>s' outs'. KafkaReporting_spawn ch enc (KafkaReporting_with_graceful_shutdown kg)
      (evs @ [ShutdownSignal, RecvShutdown] @ replicate (length (contents (lp_queue s))) (Flush net) @
       [Flush net, DropConsumer]) = Some (s', outs @ outs') \<and>
    loop_result s' = Some (Inr ()) \<and>
    kp_sent (lp_sink s') = kp_sent (lp_sink s) @
      map (kafka_record enc (kp_topic_names (lp_sink s))) (contents (lp_queue s))"
proof -
  let ?evs = "[ShutdownSignal, RecvShutdown] @ replicate (length (contents (lp_queue s))) (Flush net) @ [Flush net, DropConsumer]"
  obtain s' outs' where s': "KafkaReporting_run ch enc ?evs s = Some (s', outs')"
    "loop_result s' = Some (Inr ())" "dispatched outs' = contents (lp_queue s)"
    using collect_queue.graceful_shutdown [OF unbounded_collect_queue [OF assms(1)] assms(3-5)]
    unfolding KafkaReporting_run_def by metis
  then have "KafkaReporting_spawn ch enc (KafkaReporting_with_graceful_shutdown kg) (evs @ ?evs) = Some (s', outs @ outs')"
    using KafkaReporting_spawn_run [OF assms(2)]
    by (simp add: KafkaReporting_spawn_def KafkaReporting_with_graceful_shutdown_def KafkaReporting_run_def
        loop_run_append [of _ _ _ evs] del: loop_run.simps)
  with s' kafka_run_sent [OF s'(1) [unfolded KafkaReporting_run_def]] show ?thesis by auto
qed

theorem kafka_graceful_shutdown_completes_witness:
  "\<exists>s outs s' outs'. KafkaReporting_spawn list_mpsc const_encoders
      (KafkaReporting_with_graceful_shutdown sample_kafka_reporting) [ReportCheck sample_log, ReportProduce 0] = Some (s, outs) \<and>
    KafkaReporting_spawn list_mpsc const_encoders (KafkaReporting_with_graceful_shutdown sample_kafka_reporting)
      ([ReportCheck sample_log, ReportProduce 0] @ [ShutdownSignal, RecvShutdown] @
       replicate (length (lc_items (lp_queue s))) (Flush (Inl ''down'')) @
       [Flush (Inl ''down''), DropConsumer]) = Some (s', outs @ outs') \<and>
    loop_result s' = Some (Inr ())"
proof -
  obtain s outs where s: "KafkaReporting_spawn list_mpsc const_encoders
      (KafkaReporting_with_graceful_shutdown sample_kafka_reporting) [ReportCheck sample_log, ReportProduce 0] = Some (s, outs)"
    "lp_phase s = Working" "lp_signal s = AwaitingSignal" "lc_tx (lp_queue s)"
    by (simp add: KafkaReporting_spawn_def KafkaReporting_run_def KafkaReporting_start_def sample_kafka_reporting_def
        KafkaReporting_with_graceful_shutdown_def loop_start_def channel_new_def report_check_def report_produce_def
        UnboundedSender_produce_def list_mpsc_def lc_push_def remove_nth_def Let_def)
  from kafka_graceful_shutdown_completes [OF lc.mpsc_channel_axioms s] s(1) show ?thesis by blast
qed

fun set_params :: "(string \<times> string) list \<Rightarrow> ClientConfig \<Rightarrow> ClientConfig" where
  "set_params [] c = c"
| "set_params ((k, v) # kvs) c = set_params kvs (ClientConfig_set k v c)"

lemma set_params_map: "cc_params (set_params kvs c) = cc_params c ++ map_of (rev kvs)"
proof (induction kvs arbitrary: c)
  case (Cons kv kvs)
  obtain k v where "kv = (k, v)" by fastforce
  with Cons show ?case by (auto simp: ClientConfig_set_def map_add_def fun_eq_iff split: option.splits)
qed simp

text \<open>The configuration reaches the client: whatever the order in which the parameters are
  enumerated, the configuration object of the Kafka client ends up with exactly the parameters that
  were set, the last value of each, and the log level if one was set.\<close>

theorem kafka_config_carried_over:
  assumes "rd_config rd param level" and "set order = dom (map_of (rev kvs))"
  shows "param (to_rdkafka_config rd order (set_params kvs ClientConfig_new)) = map_of (rev kvs) \<and>
    level (to_rdkafka_config rd order (ClientConfig_set_log_level l (set_params kvs ClientConfig_new))) =
      Some (LogLevel_into l)"
proof -
  let ?c = "set_params kvs ClientConfig_new"
  have p: "cc_params ?c = map_of (rev kvs)" by (simp add: set_params_map ClientConfig_new_def)
  with assms(2) have "set order = dom (cc_params ?c)"
    "set order = dom (cc_params (ClientConfig_set_log_level l ?c))"
    by (simp_all add: ClientConfig_set_log_level_def)
  with p rd_config.config_carried_over [OF assms(1)] show ?thesis
    by (simp add: ClientConfig_set_log_level_def)
qed

theorem kafka_config_carried_over_witness:
  "fst (to_rdkafka_config map_rd_config [''b'', ''a'']
      (set_params [(''a'', ''1''), (''b'', ''2''), (''a'', ''3'')] ClientConfig_new)) =
     map_of (rev [(''a'', ''1''), (''b'', ''2''), (''a'', ''3'')])"
  using kafka_config_carried_over [OF map_rd.rd_config_axioms,
      of "[''b'', ''a'']" "[(''a'', ''1''), (''b'', ''2''), (''a'', ''3'')]"]
  by auto

end
