(* ===== verification/Reporter_Clones.thy ===== *)
theory Reporter_Clones
  imports Kafka_Reporter
begin

text \<open>
  \<open>Clone for GrpcReporter\<close> and \<open>Clone for KafkaReporter\<close>: the clones of a reporter share its flag and its
  producer, each may be used and dropped by a thread of its own, and the queue is disconnected when
  the last one is gone.  The machine of \<open>Report_Loop\<close> has one pool of calls and one bit for all reporters;
  here every clone has its own calls, and the theorem says that the pool and the bit are enough.
\<close>

section \<open>The machine with clones\<close>

text \<open>\<open>cl_handles\<close>: for every clone that is alive, its calls of \<open>report\<close> that have found the flag unset and have
  not produced yet.  The fields \<open>lp_calls\<close> and \<open>lp_reporters\<close> of the shared part are not used.\<close>

record ('q, 'd) Clones =
  cl_shared :: "('q, 'd) Loop"
  cl_handles :: "CollectItem list list"

datatype clone_event =
    CloneOf nat
  | DropClone nat
  | CheckOn nat CollectItem
  | ProduceOn nat nat
  | Background loop_event

type_synonym ('q, 'd) clones_next = "(('q, 'd) Clones \<times> loop_out list) option"

text \<open>\<open>report\<close> through one clone is \<open>report\<close> on what it shares with the others.\<close>

definition through_clone ::
  "nat \<Rightarrow> (('q, 'd) Loop \<Rightarrow> ('q, 'd) loop_next) \<Rightarrow> ('q, 'd) Clones \<Rightarrow> ('q, 'd) clones_next" where
  "through_clone i f s =
     (if i < length (cl_handles s) then
        map_option (\<lambda>(l, out). (\<lparr>cl_shared = l, cl_handles = (cl_handles s)[i := lp_calls l]\<rparr>, out))
          (f ((cl_shared s)\<lparr>lp_calls := cl_handles s ! i, lp_reporters := True\<rparr>))
      else None)"

definition clone_reporter :: "nat \<Rightarrow> ('q, 'd) Clones \<Rightarrow> ('q, 'd) clones_next" where
  "clone_reporter i s =
     (if i < length (cl_handles s) then Some (s\<lparr>cl_handles := cl_handles s @ [[]]\<rparr>, []) else None)"

text \<open>A clone is dropped when none of its calls is under way; the producer goes with the last one.\<close>

definition drop_reporter :: "'q consume_ops \<Rightarrow> nat \<Rightarrow> ('q, 'd) Clones \<Rightarrow> ('q, 'd) clones_next" where
  "drop_reporter ops i s =
     (if i < length (cl_handles s) \<and> cl_handles s ! i = [] then
        let rest = remove_nth i (cl_handles s); l = cl_shared s in
        Some (\<lparr>cl_shared = (if rest = [] then l\<lparr>lp_queue := cs_disconnect ops (lp_queue l)\<rparr> else l),
               cl_handles = rest\<rparr>, [])
      else None)"

fun clone_step ::
  "'q produce_fn \<Rightarrow> 'q consume_ops \<Rightarrow> ((string + unit) \<Rightarrow> CollectItem \<Rightarrow> 'd \<Rightarrow> 'd) \<Rightarrow> clone_event \<Rightarrow>
   ('q, 'd) Clones \<Rightarrow> ('q, 'd) clones_next" where
  "clone_step produce ops dispatch (CloneOf i) s = clone_reporter i s"
| "clone_step produce ops dispatch (DropClone i) s = drop_reporter ops i s"
| "clone_step produce ops dispatch (CheckOn i item) s = through_clone i (report_check item) s"
| "clone_step produce ops dispatch (ProduceOn i j) s = through_clone i (report_produce produce j) s"
| "clone_step produce ops dispatch (Background ev) s =
     (if thread_event ev then None
      else map_option (\<lambda>(l, out). (s\<lparr>cl_shared := l\<rparr>, out)) (loop_step produce ops dispatch ev (cl_shared s)))"

fun clone_run ::
  "'q produce_fn \<Rightarrow> 'q consume_ops \<Rightarrow> ((string + unit) \<Rightarrow> CollectItem \<Rightarrow> 'd \<Rightarrow> 'd) \<Rightarrow> clone_event list \<Rightarrow>
   ('q, 'd) Clones \<Rightarrow> ('q, 'd) clones_next" where
  "clone_run produce ops dispatch [] s = Some (s, [])"
| "clone_run produce ops dispatch (ev # evs) s =
     (case clone_step produce ops dispatch ev s of
        None \<Rightarrow> None
      | Some (s1, out1) \<Rightarrow>
          (case clone_run produce ops dispatch evs s1 of
             None \<Rightarrow> None
           | Some (s2, out2) \<Rightarrow> Some (s2, out1 @ out2)))"

text \<open>One reporter to begin with.\<close>

definition clones_start :: "'q \<Rightarrow> 'd \<Rightarrow> ('q, 'd) Clones" where
  "clones_start q d = \<lparr>cl_shared = loop_start q d, cl_handles = [[]]\<rparr>"

definition GrpcReporter_clones_run ::
  "('q, CollectItem) mpsc \<Rightarrow> ('ct, SegmentObject) mpsc \<Rightarrow> ('cl, LogData) mpsc \<Rightarrow> ('cm, MeterData) mpsc \<Rightarrow>
   clone_event list \<Rightarrow> ('q, ('ct, 'cl, 'cm) InnerReportSender) Clones \<Rightarrow>
   ('q, ('ct, 'cl, 'cm) InnerReportSender) clones_next" where
  "GrpcReporter_clones_run ch ct cl cm =
     clone_run (UnboundedSender_produce ch) (Receiver_ops ch) (InnerReportSender_report ct cl cm)"

definition KafkaReporter_clones_run ::
  "('q, CollectItem) mpsc \<Rightarrow> encoders \<Rightarrow> clone_event list \<Rightarrow> ('q, KafkaProducer) Clones \<Rightarrow>
   ('q, KafkaProducer) clones_next" where
  "KafkaReporter_clones_run ch enc =
     clone_run (UnboundedSender_produce ch) (Receiver_ops ch) (KafkaProducer_produce enc)"

section \<open>It refines the machine with one reporter\<close>

text \<open>What both machines share, and how the calls and the clones correspond.\<close>

definition bare :: "('q, 'd) Loop \<Rightarrow> ('q, 'd) Loop" where
  "bare l = l\<lparr>lp_calls := [], lp_reporters := True\<rparr>"

definition stands_for :: "('q, 'd) Loop \<Rightarrow> ('q, 'd) Clones \<Rightarrow> bool" where
  "stands_for a s \<longleftrightarrow> bare a = bare (cl_shared s) \<and> mset (lp_calls a) = mset (concat (cl_handles s)) \<and>
     lp_reporters a = (cl_handles s \<noteq> [])"

lemma bare_eq: "bare a = bare b \<longleftrightarrow> (\<exists>cs r. a = b\<lparr>lp_calls := cs, lp_reporters := r\<rparr>)"
  by (cases a; cases b) (auto simp: bare_def)

lemma stands_for_start: "stands_for (loop_start q d) (clones_start q d)"
  by (simp add: stands_for_def clones_start_def loop_start_def)

lemma mset_concat_update:
  "i < length xss \<Longrightarrow> mset (concat (xss[i := ys])) + mset (xss ! i) = mset (concat xss) + mset ys"
proof (induction xss arbitrary: i)
  case (Cons xs xss)
  show ?case
  proof (cases i)
    case (Suc j)
    with Cons.IH [of j] Cons.prems show ?thesis by (simp add: add.assoc)
  qed (simp add: add_ac)
qed simp

lemma concat_remove_nth_Nil: "i < length xss \<Longrightarrow> xss ! i = [] \<Longrightarrow> concat (remove_nth i xss) = concat xss"
  by (subst (2) id_take_nth_drop [of i xss]) (simp_all add: remove_nth_def)

text \<open>The background task looks neither at the calls nor at the clones.\<close>

lemma background_step:
  assumes "loop_step produce ops dispatch ev l = Some (l', out)" and "\<not> thread_event ev" and "bare a = bare l"
  shows "\<exists>a'. loop_step produce ops dispatch ev a = Some (a', out) \<and> bare a' = bare l' \<and>
    lp_calls a' = lp_calls a \<and> lp_reporters a' = lp_reporters a"
proof -
  obtain cs r where a: "a = l\<lparr>lp_calls := cs, lp_reporters := r\<rparr>" using assms(3) bare_eq by blast
  show ?thesis
    using assms(1,2) unfolding a
    by (cases l; cases ev)
      (auto simp: bare_def work_consume_def work_shutdown_def work_flush_def work_end_def shutdown_signal_def loop_result_def
        split: if_splits prod.splits sum.splits option.splits poll.splits work_phase.splits)
qed

text \<open>One step of a clone is at most one step of the single reporter, with the same observations.\<close>

definition matches :: "clone_event \<Rightarrow> loop_event list \<Rightarrow> bool" where
  "matches ev evs \<longleftrightarrow> length evs \<le> 1 \<and> (ShutdownSignal \<in> set evs \<longleftrightarrow> ev = Background ShutdownSignal)"

lemma produce_matches:
  assumes st: "stands_for a s" and step: "through_clone i (report_produce produce j) s = Some (s', out)"
  shows "\<exists>k a'. report_produce produce k a = Some (a', out) \<and> stands_for a' s'"
proof -
  let ?cs = "cl_handles s ! i" and ?l = "cl_shared s"
  from step obtain l where i: "i < length (cl_handles s)"
    and l: "report_produce produce j (?l\<lparr>lp_calls := ?cs, lp_reporters := True\<rparr>) = Some (l, out)"
    and s': "s' = \<lparr>cl_shared = l, cl_handles = (cl_handles s)[i := lp_calls l]\<rparr>"
    by (auto simp: through_clone_def split: if_splits)
  have j: "j < length ?cs" using l by (auto simp: report_produce_def split: if_splits)
  then have "?cs ! j \<in># mset (concat (cl_handles s))" using i by (auto intro!: bexI [of _ ?cs])
  then obtain k where k: "k < length (lp_calls a)" "lp_calls a ! k = ?cs ! j"
    using st by (metis in_set_conv_nth set_mset_mset stands_for_def)
  obtain cs r where a: "a = ?l\<lparr>lp_calls := cs, lp_reporters := r\<rparr>" using st bare_eq unfolding stands_for_def by blast
  have lc: "lp_calls l = remove_nth j ?cs" using l j by (auto simp: report_produce_def Let_def split: prod.splits sum.splits)
  have "\<exists>a'. report_produce produce k a = Some (a', out) \<and> bare a' = bare l \<and> lp_calls a' = remove_nth k (lp_calls a) \<and>
      lp_reporters a' = lp_reporters a"
    using l j k unfolding a
    by (auto simp: report_produce_def Let_def bare_def split: prod.splits sum.splits)
  then obtain a' where a': "report_produce produce k a = Some (a', out)" "bare a' = bare l"
    "lp_calls a' = remove_nth k (lp_calls a)" "lp_reporters a' = lp_reporters a" by blast
  have "mset (concat (cl_handles s')) + mset ?cs = mset (lp_calls a) + mset (remove_nth j ?cs)"
    using mset_concat_update [OF i] st s' lc by (simp add: stands_for_def)
  then have "mset (concat (cl_handles s')) = mset (lp_calls a')"
    using mset_remove_nth [OF j] mset_remove_nth [OF k(1)] k(2) a'(3) by simp
  then have "stands_for a' s'" using a'(2,4) st s' i by (auto simp: stands_for_def)
  with a'(1) show ?thesis by blast
qed

lemma check_matches:
  assumes st: "stands_for a s" and step: "through_clone i (report_check x) s = Some (s', out)"
  shows "\<exists>a'. report_check x a = Some (a', out) \<and> stands_for a' s'"
proof -
  obtain cs r where a: "a = (cl_shared s)\<lparr>lp_calls := cs, lp_reporters := r\<rparr>" using st bare_eq unfolding stands_for_def by blast
  have i: "i < length (cl_handles s)" using step by (auto simp: through_clone_def split: if_splits)
  then have r: "lp_reporters a" using st by (auto simp: stands_for_def)
  show ?thesis
  proof (cases "lp_closing (cl_shared s)")
    case True
    with step i have "s' = \<lparr>cl_shared = (cl_shared s)\<lparr>lp_calls := cl_handles s ! i, lp_reporters := True\<rparr>, cl_handles = cl_handles s\<rparr>"
      "out = [Refused x]" by (auto simp: through_clone_def report_check_def)
    with st r a True show ?thesis by (auto simp: stands_for_def bare_def report_check_def)
  next
    case False
    with step i have s': "s' = \<lparr>cl_shared = (cl_shared s)\<lparr>lp_calls := cl_handles s ! i @ [x], lp_reporters := True\<rparr>,
        cl_handles = (cl_handles s)[i := cl_handles s ! i @ [x]]\<rparr>" "out = []" by (auto simp: through_clone_def report_check_def)
    have "mset (concat (cl_handles s')) = mset (lp_calls a @ [x])"
      using mset_concat_update [OF i, of "cl_handles s ! i @ [x]"] st s' by (simp add: stands_for_def)
    moreover have "report_check x a = Some (a\<lparr>lp_calls := lp_calls a @ [x]\<rparr>, [])" using r a False by (simp add: report_check_def)
    ultimately show ?thesis using st r s' i by (auto simp: stands_for_def bare_def)
  qed
qed

lemma drop_matches:
  assumes st: "stands_for a s" and step: "drop_reporter ops i s = Some (s', out)"
  shows "\<exists>evs a'. loop_run produce ops dispatch evs a = Some (a', out) \<and> set evs \<subseteq> {DropReporters} \<and> length evs \<le> 1 \<and> stands_for a' s'"
proof -
  have i: "i < length (cl_handles s)" "cl_handles s ! i = []" and out: "out = []"
    using step by (auto simp: drop_reporter_def Let_def split: if_splits)
  show ?thesis
  proof (cases "remove_nth i (cl_handles s) = []")
    case True
    then have "length (cl_handles s) = 1" using i(1) length_remove_nth [OF i(1)] by simp
    then have "concat (cl_handles s) = []" using i by (cases "cl_handles s") auto
    with st have calls: "lp_calls a = []" "lp_reporters a" using i(1) by (auto simp: stands_for_def)
    have queue: "lp_queue a = lp_queue (cl_shared s)" using st by (auto simp: stands_for_def bare_def dest: arg_cong [where f = lp_queue])
    let ?a = "a\<lparr>lp_queue := cs_disconnect ops (lp_queue a), lp_reporters := False\<rparr>"
    have "loop_run produce ops dispatch [DropReporters] a = Some (?a, out)" using calls out by (simp add: drop_reporters_def)
    moreover have "stands_for ?a s'"
      using step i True st calls queue by (cases a; cases "cl_shared s") (auto simp: drop_reporter_def Let_def stands_for_def bare_def)
    ultimately show ?thesis by (intro exI [of _ "[DropReporters]"]) auto
  next
    case False
    then have "stands_for a s'" using step i st concat_remove_nth_Nil [OF i] by (auto simp: drop_reporter_def Let_def stands_for_def)
    with out show ?thesis by (intro exI [of _ "[]"]) auto
  qed
qed

lemma clone_step_matches:
  assumes st: "stands_for a s" and step: "clone_step produce ops dispatch ev s = Some (s', out)"
  shows "\<exists>evs a'. loop_run produce ops dispatch evs a = Some (a', out) \<and> matches ev evs \<and> stands_for a' s'"
proof (cases ev)
  case (CloneOf i)
  then have "stands_for a s'" "out = []" using st step by (auto simp: clone_reporter_def stands_for_def split: if_splits)
  with CloneOf show ?thesis by (intro exI [of _ "[]"]) (auto simp: matches_def)
next
  case (DropClone i)
  from drop_matches [OF st, of ops i s' out produce dispatch] step DropClone show ?thesis
    by (fastforce simp: matches_def)
next
  case (CheckOn i x)
  from check_matches [OF st, of i x s' out] step CheckOn obtain a' where
    "report_check x a = Some (a', out)" "stands_for a' s'" by auto
  with CheckOn show ?thesis by (intro exI [of _ "[ReportCheck x]"]) (auto simp: matches_def)
next
  case (ProduceOn i j)
  from produce_matches [OF st, of i produce j s' out] step ProduceOn obtain k a' where
    "report_produce produce k a = Some (a', out)" "stands_for a' s'" by auto
  with ProduceOn show ?thesis by (intro exI [of _ "[ReportProduce k]"]) (auto simp: matches_def)
next
  case (Background e)
  with step obtain l where l: "\<not> thread_event e" "loop_step produce ops dispatch e (cl_shared s) = Some (l, out)"
    "s' = s\<lparr>cl_shared := l\<rparr>" by (auto split: if_splits)
  obtain a' where "loop_step produce ops dispatch e a = Some (a', out)" "bare a' = bare l"
    "lp_calls a' = lp_calls a" "lp_reporters a' = lp_reporters a"
    using background_step [OF l(2,1), of a] st by (auto simp: stands_for_def)
  moreover from this have "stands_for a' s'" using st l(3) by (simp add: stands_for_def)
  ultimately have "loop_run produce ops dispatch [e] a = Some (a', out)" "stands_for a' s'" by simp_all
  with Background show ?thesis by (intro exI [of _ "[e]"]) (auto simp: matches_def)
qed

lemma clone_run_matches:
  "clone_run produce ops dispatch evs s = Some (s', outs) \<Longrightarrow> stands_for a s \<Longrightarrow>
   \<exists>evs' a'. loop_run produce ops dispatch evs' a = Some (a', outs) \<and> stands_for a' s' \<and>
     length evs' \<le> length evs \<and> (ShutdownSignal \<in> set evs' \<longleftrightarrow> Background ShutdownSignal \<in> set evs)"
proof (induction evs arbitrary: s a outs)
  case Nil
  then show ?case by (intro exI [of _ "[]"]) auto
next
  case (Cons ev evs)
  then obtain s1 o1 o2 where s1: "clone_step produce ops dispatch ev s = Some (s1, o1)"
    "clone_run produce ops dispatch evs s1 = Some (s', o2)" "outs = o1 @ o2"
    by (auto split: option.splits prod.splits simp del: clone_step.simps)
  obtain e1 a1 where a1: "loop_run produce ops dispatch e1 a = Some (a1, o1)" "matches ev e1" "stands_for a1 s1"
    using clone_step_matches [OF Cons.prems(2) s1(1)] by blast
  obtain e2 a2 where a2: "loop_run produce ops dispatch e2 a1 = Some (a2, o2)" "stands_for a2 s'" "length e2 \<le> length evs"
    "ShutdownSignal \<in> set e2 \<longleftrightarrow> Background ShutdownSignal \<in> set evs" using Cons.IH [OF s1(2) a1(3)] by blast
  have "loop_run produce ops dispatch (e1 @ e2) a = Some (a2, outs)" using a1(1) a2(1) s1(3) by (simp add: loop_run_append)
  then show ?case using a1(2) a2(2-4) by (intro exI [of _ "e1 @ e2"]) (auto simp: matches_def)
qed

section \<open>Properties\<close>

lemma loop_result_bare: "bare a = bare b \<Longrightarrow> loop_result a = loop_result b"
  by (cases a; cases b) (simp add: bare_def loop_result_def)

text \<open>C20. Clones of a reporter report as one: whatever any number of clones do in whatever interleaving
  (being made, reporting from their own threads, being dropped), the background task cannot tell them
  from a single reporter, so that what any of them had accepted is dispatched once and in order; the
  queue is connected exactly as long as one of them is alive; and while nobody signals, the task ends
  only after the very last one is gone, with everything accepted dispatched.\<close>

theorem clones_report_as_one:
  assumes "mpsc_channel ch contents rx_alive tx_alive room" and "rx_alive q" and "tx_alive q" and "contents q = []"
    and "GrpcReporter_clones_run ch ct cl cm evs (clones_start q d) = Some (s, outs)"
  shows "(\<exists>evs' a. ReportSender_run ch ct cl cm evs' (loop_start q d) = Some (a, outs) \<and> stands_for a s) \<and>
    (\<exists>rest. accepted outs = dispatched outs @ rest) \<and>
    tx_alive (lp_queue (cl_shared s)) = (cl_handles s \<noteq> []) \<and>
    (Background ShutdownSignal \<notin> set evs \<longrightarrow> (\<forall>r. loop_result (cl_shared s) = Some r \<longrightarrow>
       r = Inl (Other ''receiving on a closed channel'') \<and> cl_handles s = [] \<and> accepted outs = dispatched outs))"
proof -
  note cq = unbounded_collect_queue [OF assms(1)]
  obtain evs' a where a: "loop_run (UnboundedSender_produce ch) (Receiver_ops ch) (InnerReportSender_report ct cl cm) evs' (loop_start q d) =
      Some (a, outs)" "stands_for a s" "ShutdownSignal \<in> set evs' \<longleftrightarrow> Background ShutdownSignal \<in> set evs"
    using clone_run_matches [OF assms(5) [unfolded GrpcReporter_clones_run_def] stands_for_start] by blast
  have same: "lp_queue a = lp_queue (cl_shared s)" "lp_reporters a = (cl_handles s \<noteq> [])" "loop_result a = loop_result (cl_shared s)"
    using a(2) loop_result_bare by (auto simp: stands_for_def bare_eq)
  have "tx_alive (lp_queue a) = lp_reporters a"
    using collect_queue.loop_run_connected [OF cq _ a(1)] assms(3) by (simp add: loop_start_def)
  moreover have "\<exists>rest. accepted outs = dispatched outs @ rest"
    using collect_queue.loop_fifo [OF cq assms(2) a(1)] assms(4) by auto
  moreover have "r = Inl (Other ''receiving on a closed channel'') \<and> cl_handles s = [] \<and> accepted outs = dispatched outs"
    if "Background ShutdownSignal \<notin> set evs" "loop_result (cl_shared s) = Some r" for r
  proof -
    have "collect_queue.unsignalled contents rx_alive tx_alive [] outs a"
      using collect_queue.unsignalled_run [OF cq _ a(1), of "[]" "[]"] collect_queue.unsignalled_start [OF cq assms(2,3), of d]
        a(3) that(1) assms(4) by simp
    from collect_queue.unsignalled_result [OF cq this] that(2) same show ?thesis by (auto split: work_phase.splits)
  qed
  ultimately show ?thesis using a(1,2) same unfolding ReportSender_run_def by auto
qed

text \<open>The reporter is cloned, both report, the clone overtakes; both are dropped and the task ends.\<close>

definition sample_clone_events :: "clone_event list" where
  "sample_clone_events = [CloneOf 0, CheckOn 0 sample_ping, CheckOn 1 sample_log, ProduceOn 1 0, DropClone 1, ProduceOn 0 0,
     Background (Consume (Inr ())), DropClone 0, Background (Consume (Inr ())), Background (Consume (Inr ())),
     Background (Flush (Inr ())), Background DropConsumer]"

theorem clones_report_as_one_witness:
  "\<exists>s outs. GrpcReporter_clones_run list_mpsc list_mpsc list_mpsc list_mpsc sample_clone_events
      (clones_start (channel_new None) no_sender) = Some (s, outs) \<and>
    dispatched outs = [sample_log, sample_ping] \<and> accepted outs = dispatched outs \<and>
    loop_result (cl_shared s) = Some (Inl (Other ''receiving on a closed channel''))"
proof -
  have "case GrpcReporter_clones_run list_mpsc list_mpsc list_mpsc list_mpsc sample_clone_events
      (clones_start (channel_new None) no_sender) of None \<Rightarrow> False
    | Some (s, outs) \<Rightarrow> loop_result (cl_shared s) \<noteq> None \<and> dispatched outs = [sample_log, sample_ping]" by code_simp
  then obtain s outs r where s: "GrpcReporter_clones_run list_mpsc list_mpsc list_mpsc list_mpsc sample_clone_events
      (clones_start (channel_new None) no_sender) = Some (s, outs)" "loop_result (cl_shared s) = Some r"
    "dispatched outs = [sample_log, sample_ping]" by (auto split: option.splits)
  have init: "lc_rx (channel_new None)" "lc_tx (channel_new None)" "lc_items (channel_new None) = []"
    by (simp_all add: channel_new_def)
  have "Background ShutdownSignal \<notin> set sample_clone_events" by (simp add: sample_clone_events_def)
  with clones_report_as_one [OF lc.mpsc_channel_axioms init s(1)] s show ?thesis by auto
qed

text \<open>The same for Kafka: what the clones of a reporter had accepted is sent once and in order.\<close>

lemma kafka_clones_report_as_one:
  assumes "mpsc_channel ch contents rx_alive tx_alive room" and "rx_alive q" and "contents q = []"
    and "KafkaReporter_clones_run ch enc evs (clones_start q (KafkaProducer_new ns)) = Some (s, outs)"
  shows "(\<exists>rest. accepted outs = dispatched outs @ rest) \<and>
    kp_sent (lp_sink (cl_shared s)) = map (kafka_record enc (TopicNames_new ns)) (dispatched outs)"
proof -
  note cq = unbounded_collect_queue [OF assms(1)]
  obtain evs' a where a: "loop_run (UnboundedSender_produce ch) (Receiver_ops ch) (KafkaProducer_produce enc) evs'
      (loop_start q (KafkaProducer_new ns)) = Some (a, outs)" "stands_for a s"
    using clone_run_matches [OF assms(4) [unfolded KafkaReporter_clones_run_def] stands_for_start] by blast
  have "lp_sink a = lp_sink (cl_shared s)" using a(2) by (auto simp: stands_for_def bare_eq)
  moreover have "kp_sent (lp_sink a) = map (kafka_record enc (TopicNames_new ns)) (dispatched outs)"
    using kafka_run_sent [OF a(1)] by (simp add: loop_start_def KafkaProducer_new_def)
  ultimately show ?thesis using collect_queue.loop_fifo [OF cq assms(2) a(1)] assms(3) by auto
qed

end
