(* ===== verification/Stream_Sharing.thy ===== *)
theory Stream_Sharing
  imports Grpc_Stream
begin

text \<open>
  \<open>ReceiveFrom\<close> of \<^verbatim>\<open>src/src/reporter/grpc.rs\<close> with all the streams it has handed out.  They share the receiver
  behind a mutex that \<open>poll_next\<close> takes with \<open>try_lock().unwrap()\<close>.  \<open>Grpc_Stream\<close> follows a client that has
  done with a stream when its call returns; here nothing is assumed of the client: a stream may be
  polled after the call it was made for has returned, and two streams may be polled at a time.
\<close>

section \<open>The machine\<close>

text \<open>\<open>Polling\<close>: inside \<open>poll_next\<close>, the mutex taken.  \<open>Finished\<close>: the stream has given \<open>None\<close>, for the end of
  the channel or for the timeout.\<close>

datatype poll_phase = Resting | Polling | Finished | Dropped | Panicked

datatype call_phase = AtHead | InCall | TaskDone

record ('q, 'i) SharedStreams =
  sr_from :: "'q ReceiveFrom"
  sr_sender :: bool
  sr_phase :: call_phase
  sr_streams :: "(poll_phase \<times> 'i list) list"
  sr_status_calls :: "(string \<times> string) list"

datatype 'i share_event =
    PutItem 'i
  | CloseSend
  | HandOut
  | LockPoll nat
  | FinishPoll nat bool
  | DropStream nat
  | CallReturns "string + unit"

datatype 'i share_out = Took 'i | Pulled nat 'i | PollPanicked nat

type_synonym ('q, 'i) share_next = "(('q, 'i) SharedStreams \<times> 'i share_out list) option"

definition share_start :: "'q \<Rightarrow> ('q, 'i) SharedStreams" where
  "share_start q =
     \<lparr>sr_from = ReceiveFrom_new q, sr_sender = True, sr_phase = AtHead, sr_streams = [], sr_status_calls = []\<rparr>"

definition set_stream :: "nat \<Rightarrow> poll_phase \<times> 'i list \<Rightarrow> ('q, 'i) SharedStreams \<Rightarrow> ('q, 'i) SharedStreams" where
  "set_stream i x s = s\<lparr>sr_streams := (sr_streams s)[i := x]\<rparr>"

text \<open>The head of the loop of \<open>start\<close>.\<close>

definition hand_out :: "('q, 'i) SharedStreams \<Rightarrow> ('q, 'i) share_next" where
  "hand_out s =
     (if sr_phase s = AtHead then
        Some (if ReceiveFrom_stream (sr_from s)
              then s\<lparr>sr_phase := InCall, sr_streams := sr_streams s @ [(Resting, [])]\<rparr>
              else s\<lparr>sr_phase := TaskDone\<rparr>, [])
      else None)"

text \<open>\<open>self.receiver.try_lock().unwrap()\<close>.\<close>

definition lock_poll :: "nat \<Rightarrow> ('q, 'i) SharedStreams \<Rightarrow> ('q, 'i) share_next" where
  "lock_poll i s =
     (if i < length (sr_streams s) \<and> fst (sr_streams s ! i) = Resting then
        (if \<exists>x\<in>set (sr_streams s). fst x = Polling
         then Some (set_stream i (Panicked, snd (sr_streams s ! i)) s, [PollPanicked i])
         else Some (set_stream i (Polling, snd (sr_streams s ! i)) s, []))
      else None)"

text \<open>\<open>poll_recv\<close> under the lock, with the timeout around the stream, which is looked at when the channel has
  nothing ready; the lock is released at the end of the expression.\<close>

definition finish_poll :: "('q, 'i) mpsc \<Rightarrow> nat \<Rightarrow> bool \<Rightarrow> ('q, 'i) SharedStreams \<Rightarrow> ('q, 'i) share_next" where
  "finish_poll ch i elapsed s =
     (if i < length (sr_streams s) \<and> fst (sr_streams s ! i) = Polling then
        let xs = snd (sr_streams s ! i) in
        (case ReceiveFromStream_poll_next ch (sr_from s) of
           (rf', Pending) \<Rightarrow> Some (set_stream i (if elapsed then Finished else Resting, xs) (s\<lparr>sr_from := rf'\<rparr>), [])
         | (rf', Ready None) \<Rightarrow> Some (set_stream i (Finished, xs) (s\<lparr>sr_from := rf'\<rparr>), [])
         | (rf', Ready (Some x)) \<Rightarrow> Some (set_stream i (Resting, xs @ [x]) (s\<lparr>sr_from := rf'\<rparr>), [Pulled i x]))
      else None)"

definition drop_stream :: "nat \<Rightarrow> ('q, 'i) SharedStreams \<Rightarrow> ('q, 'i) share_next" where
  "drop_stream i s =
     (if i < length (sr_streams s) \<and> fst (sr_streams s ! i) \<noteq> Polling
      then Some (set_stream i (Dropped, snd (sr_streams s ! i)) s, []) else None)"

definition call_returns :: "string \<Rightarrow> (string + unit) \<Rightarrow> ('q, 'i) SharedStreams \<Rightarrow> ('q, 'i) share_next" where
  "call_returns msg r s =
     (if sr_phase s = InCall then
        Some (case r of
            Inl e \<Rightarrow> s\<lparr>sr_phase := AtHead, sr_status_calls := sr_status_calls s @ [(msg, e)]\<rparr>
          | Inr _ \<Rightarrow> s\<lparr>sr_phase := AtHead\<rparr>, [])
      else None)"

fun share_step :: "('q, 'i) mpsc \<Rightarrow> string \<Rightarrow> 'i share_event \<Rightarrow> ('q, 'i) SharedStreams \<Rightarrow> ('q, 'i) share_next" where
  "share_step ch msg (PutItem x) s =
     (if sr_sender s then
        (case mp_try_send ch x (rf_receiver (sr_from s)) of
           (q', r) \<Rightarrow> Some (s\<lparr>sr_from := (sr_from s)\<lparr>rf_receiver := q'\<rparr>\<rparr>, if r = SendOk then [Took x] else []))
      else None)"
| "share_step ch msg CloseSend s =
     (if sr_sender s then
        Some (s\<lparr>sr_sender := False,
                sr_from := (sr_from s)\<lparr>rf_receiver := mp_drop_tx ch (rf_receiver (sr_from s))\<rparr>\<rparr>, [])
      else None)"
| "share_step ch msg HandOut s = hand_out s"
| "share_step ch msg (LockPoll i) s = lock_poll i s"
| "share_step ch msg (FinishPoll i elapsed) s = finish_poll ch i elapsed s"
| "share_step ch msg (DropStream i) s = drop_stream i s"
| "share_step ch msg (CallReturns r) s = call_returns msg r s"

fun share_run ::
  "('q, 'i) mpsc \<Rightarrow> string \<Rightarrow> 'i share_event list \<Rightarrow> ('q, 'i) SharedStreams \<Rightarrow> ('q, 'i) share_next" where
  "share_run ch msg [] s = Some (s, [])"
| "share_run ch msg (ev # evs) s =
     (case share_step ch msg ev s of
        None \<Rightarrow> None
      | Some (s1, out1) \<Rightarrow>
          (case share_run ch msg evs s1 of
             None \<Rightarrow> None
           | Some (s2, out2) \<Rightarrow> Some (s2, out1 @ out2)))"

section \<open>Observations\<close>

text \<open>What the channel took, what was pulled through which stream, and which polls panicked.\<close>

definition took :: "'i share_out list \<Rightarrow> 'i list" where
  "took outs = concat (map (\<lambda>out. case out of Took x \<Rightarrow> [x] | _ \<Rightarrow> []) outs)"

definition pulls :: "'i share_out list \<Rightarrow> (nat \<times> 'i) list" where
  "pulls outs = concat (map (\<lambda>out. case out of Pulled i x \<Rightarrow> [(i, x)] | _ \<Rightarrow> []) outs)"

definition panics :: "'i share_out list \<Rightarrow> nat list" where
  "panics outs = concat (map (\<lambda>out. case out of PollPanicked i \<Rightarrow> [i] | _ \<Rightarrow> []) outs)"

definition pulled_by :: "nat \<Rightarrow> 'i share_out list \<Rightarrow> 'i list" where
  "pulled_by i outs = map snd (filter (\<lambda>p. fst p = i) (pulls outs))"

lemma share_observe [simp]:
  "took [] = []" "pulls [] = []" "panics [] = []" "pulled_by i [] = []"
  "took (xs @ ys) = took xs @ took ys" "pulls (xs @ ys) = pulls xs @ pulls ys" "panics (xs @ ys) = panics xs @ panics ys"
  "pulled_by i (xs @ ys) = pulled_by i xs @ pulled_by i ys"
  "took [Took x] = [x]" "took [Pulled j x] = []" "took [PollPanicked j] = []"
  "pulls [Took x] = []" "pulls [Pulled j x] = [(j, x)]" "pulls [PollPanicked j] = []"
  "panics [Took x] = []" "panics [Pulled j x] = []" "panics [PollPanicked j] = [j]"
  "pulled_by i [Took x] = []" "pulled_by i [Pulled j x] = (if i = j then [x] else [])" "pulled_by i [PollPanicked j] = []"
  by (simp_all add: took_def pulls_def panics_def pulled_by_def)

section \<open>Invariant\<close>

lemma set_stream_simps [simp]:
  "sr_from (set_stream i x s) = sr_from s" "sr_sender (set_stream i x s) = sr_sender s"
  "sr_phase (set_stream i x s) = sr_phase s" "sr_streams (set_stream i x s) = (sr_streams s)[i := x]"
  "sr_status_calls (set_stream i x s) = sr_status_calls s"
  by (simp_all add: set_stream_def)

definition polling :: "(poll_phase \<times> 'i list) list \<Rightarrow> nat" where
  "polling ss = length (filter (\<lambda>x. fst x = Polling) ss)"

lemma polling_update:
  "i < length ss \<Longrightarrow> polling (ss[i := x]) + (if fst (ss ! i) = Polling then 1 else 0) = polling ss + (if fst x = Polling then 1 else 0)"
  unfolding polling_def using length_filter_update [of i ss "\<lambda>x. fst x = Polling" x] by simp

lemma polling_0: "polling ss = 0 \<longleftrightarrow> (\<forall>x\<in>set ss. fst x \<noteq> Polling)"
  by (auto simp: polling_def filter_empty_conv)

context mpsc_channel
begin

definition share_inv :: "'i share_out list \<Rightarrow> ('q, 'i) SharedStreams \<Rightarrow> bool" where
  "share_inv outs s \<longleftrightarrow>
     map snd (pulls outs) @ contents (rf_receiver (sr_from s)) = took outs \<and>
     tx_alive (rf_receiver (sr_from s)) = sr_sender s \<and>
     (\<forall>i. pulled_by i outs = (if i < length (sr_streams s) then snd (sr_streams s ! i) else [])) \<and>
     polling (sr_streams s) \<le> 1 \<and> (panics outs \<noteq> [] \<longrightarrow> 2 \<le> length (sr_streams s)) \<and>
     (rf_is_closed (sr_from s) \<longrightarrow> \<not> sr_sender s \<and> contents (rf_receiver (sr_from s)) = []) \<and>
     (sr_phase s = TaskDone \<longrightarrow> rf_is_closed (sr_from s))"

lemma lock_poll_inv:
  assumes "share_inv outs s" and "lock_poll i s = Some (s', out)"
  shows "share_inv (outs @ out) s'"
proof (cases "\<exists>x\<in>set (sr_streams s). fst x = Polling")
  case True
  have i: "i < length (sr_streams s)" "fst (sr_streams s ! i) = Resting"
    "s' = set_stream i (Panicked, snd (sr_streams s ! i)) s" "out = [PollPanicked i]"
    using assms(2) True by (auto simp: lock_poll_def split: if_splits)
  obtain j where "j < length (sr_streams s)" "fst (sr_streams s ! j) = Polling" using True by (metis in_set_conv_nth)
  with i(1,2) have "2 \<le> length (sr_streams s)" by (cases "i = j") auto
  with assms(1) i polling_update [OF i(1), of "(Panicked, snd (sr_streams s ! i))"] show ?thesis
    by (auto simp: share_inv_def nth_list_update)
next
  case False
  then have "polling (sr_streams s) = 0" by (simp add: polling_0)
  moreover have i: "i < length (sr_streams s)" "fst (sr_streams s ! i) = Resting"
    "s' = set_stream i (Polling, snd (sr_streams s ! i)) s" "out = []"
    using assms(2) False by (auto simp: lock_poll_def split: if_splits)
  ultimately show ?thesis using assms(1) polling_update [OF i(1), of "(Polling, snd (sr_streams s ! i))"]
    by (auto simp: share_inv_def nth_list_update)
qed

text \<open>A stream that leaves its poll, with or without an item.\<close>

lemma leave_poll:
  assumes "i < length ss" and "fst (ss ! i) = Polling" and "polling ss \<le> 1" and "p \<noteq> Polling"
  shows "polling (ss[i := (p, xs)]) \<le> 1"
  using polling_update [OF assms(1), of "(p, xs)"] assms(2-4) by simp

lemma finish_poll_inv:
  assumes "share_inv outs s" and "finish_poll ch i elapsed s = Some (s', out)"
  shows "share_inv (outs @ out) s'"
proof -
  have i: "i < length (sr_streams s)" "fst (sr_streams s ! i) = Polling"
    using assms(2) by (auto simp: finish_poll_def split: if_splits)
  have "polling (sr_streams s) \<le> 1" using assms(1) by (simp add: share_inv_def)
  note leave = leave_poll [OF i this]
  show ?thesis
  proof (cases "contents (rf_receiver (sr_from s))")
    case Nil
    with assms i leave show ?thesis
      by (auto simp: finish_poll_def Let_def poll_next_cases share_inv_def nth_list_update poll_recv_contents poll_recv_alive
          split: if_splits)
  next
    case (Cons x xs)
    with assms i have s': "s' = set_stream i (Resting, snd (sr_streams s ! i) @ [x])
        (s\<lparr>sr_from := (sr_from s)\<lparr>rf_receiver := fst (mp_poll_recv ch (rf_receiver (sr_from s)))\<rparr>\<rparr>)" "out = [Pulled i x]"
      by (auto simp: finish_poll_def Let_def poll_next_cases)
    have "\<not> rf_is_closed (sr_from s)" using assms(1) Cons by (auto simp: share_inv_def)
    with assms(1) i leave Cons show ?thesis unfolding s'
      by (auto simp: share_inv_def nth_list_update poll_recv_contents poll_recv_alive)
  qed
qed

lemma drop_stream_inv:
  assumes "share_inv outs s" and "drop_stream i s = Some (s', out)"
  shows "share_inv (outs @ out) s'"
proof -
  have i: "i < length (sr_streams s)" "s' = set_stream i (Dropped, snd (sr_streams s ! i)) s" "out = []"
    using assms(2) by (auto simp: drop_stream_def split: if_splits)
  with assms(1) polling_update [OF i(1), of "(Dropped, snd (sr_streams s ! i))"] show ?thesis
    by (auto simp: share_inv_def nth_list_update)
qed

lemma hand_out_inv:
  assumes "share_inv outs s" and "hand_out s = Some (s', out)"
  shows "share_inv (outs @ out) s'"
  using assms by (auto simp: hand_out_def share_inv_def ReceiveFrom_stream_def polling_def nth_append split: if_splits)

lemma share_step_inv:
  assumes "share_inv outs s" and "share_step ch msg ev s = Some (s', out)"
  shows "share_inv (outs @ out) s'"
proof (cases ev)
  case (PutItem x)
  obtain q' r where q': "mp_try_send ch x (rf_receiver (sr_from s)) = (q', r)" by fastforce
  with assms PutItem try_send_contents [of x "rf_receiver (sr_from s)"] try_send_alive [of x "rf_receiver (sr_from s)"]
    try_send_result [of x "rf_receiver (sr_from s)"]
  show ?thesis by (auto simp: share_inv_def split: if_splits)
next
  case CloseSend
  with assms show ?thesis by (auto simp: share_inv_def drop_tx split: if_splits)
next
  case HandOut
  with assms hand_out_inv show ?thesis by simp
next
  case (LockPoll i)
  with assms lock_poll_inv show ?thesis by simp
next
  case (FinishPoll i elapsed)
  with assms finish_poll_inv show ?thesis by simp
next
  case (DropStream i)
  with assms drop_stream_inv show ?thesis by simp
next
  case (CallReturns r)
  with assms show ?thesis by (cases r) (auto simp: share_inv_def call_returns_def split: if_splits)
qed

lemma share_run_inv:
  "share_inv outs s \<Longrightarrow> share_run ch msg evs s = Some (s', outs') \<Longrightarrow> share_inv (outs @ outs') s'"
proof (induction evs arbitrary: s outs outs')
  case (Cons ev evs)
  then obtain s1 o1 o2 where s1: "share_step ch msg ev s = Some (s1, o1)" "share_run ch msg evs s1 = Some (s', o2)"
    "outs' = o1 @ o2" by (auto split: option.splits prod.splits simp del: share_step.simps)
  from Cons.IH [OF share_step_inv [OF Cons.prems(1) s1(1)] s1(2)] s1(3) show ?case by simp
qed simp

lemma share_start_inv: "tx_alive q \<Longrightarrow> contents q = [] \<Longrightarrow> share_inv [] (share_start q)"
  by (simp add: share_inv_def share_start_def ReceiveFrom_new_def polling_def)

end

section \<open>A client that is done with the stream when its call returns\<close>

text \<open>It polls only the stream of the call under way, and has left its poll when the call returns.\<close>

fun tidy_event :: "'i share_event \<Rightarrow> ('q, 'i) SharedStreams \<Rightarrow> bool" where
  "tidy_event (LockPoll i) s = (sr_phase s = InCall \<and> Suc i = length (sr_streams s))"
| "tidy_event (CallReturns r) s = (polling (sr_streams s) = 0)"
| "tidy_event _ s = True"

fun tidy_run :: "('q, 'i) mpsc \<Rightarrow> string \<Rightarrow> 'i share_event list \<Rightarrow> ('q, 'i) SharedStreams \<Rightarrow> bool" where
  "tidy_run ch msg [] s = True"
| "tidy_run ch msg (ev # evs) s =
     (tidy_event ev s \<and> (case share_step ch msg ev s of None \<Rightarrow> True | Some (s1, _) \<Rightarrow> tidy_run ch msg evs s1))"

text \<open>The state of the task of \<open>Grpc_Stream\<close> that corresponds to a state of this machine.\<close>

definition phase_matches :: "call_phase \<Rightarrow> (poll_phase \<times> 'i list) list \<Rightarrow> recv_phase \<Rightarrow> bool" where
  "phase_matches p ss r =
     (case p of
        AtHead \<Rightarrow> r = AtLoop
      | TaskDone \<Rightarrow> r = Returned
      | InCall \<Rightarrow> ss \<noteq> [] \<and>
          (case fst (last ss) of
             Finished \<Rightarrow> r = StreamEnded
           | Dropped \<Rightarrow> r = Streaming \<or> r = StreamEnded
           | Panicked \<Rightarrow> False
           | _ \<Rightarrow> r = Streaming))"

lemma phase_matches_simps [simp]:
  "phase_matches AtHead ss r = (r = AtLoop)" "phase_matches TaskDone ss r = (r = Returned)"
  "phase_matches InCall (ys @ [(Finished, xs)]) r = (r = StreamEnded)"
  "phase_matches InCall (ys @ [(Resting, xs)]) r = (r = Streaming)"
  "phase_matches InCall (ys @ [(Polling, xs)]) r = (r = Streaming)"
  by (simp_all add: phase_matches_def)

definition one_stream :: "('q, 'i) SharedStreams \<Rightarrow> ('q, 'i) ReceiveReporter \<Rightarrow> bool" where
  "one_stream s t \<longleftrightarrow>
     rt_from t = sr_from s \<and> rt_sender t = sr_sender s \<and> rt_sent t = map snd (sr_streams s) \<and>
     rt_status_calls t = sr_status_calls s \<and>
     (\<forall>i < length (sr_streams s). fst (sr_streams s ! i) = Polling \<longrightarrow> sr_phase s = InCall \<and> Suc i = length (sr_streams s)) \<and>
     phase_matches (sr_phase s) (sr_streams s) (rt_phase t)"

text \<open>A poll that finds nothing leaves the channel as it is (it only registers the waker).\<close>

definition quiet_poll :: "('q, 'i) mpsc \<Rightarrow> bool" where
  "quiet_poll ch \<longleftrightarrow> (\<forall>q. snd (mp_poll_recv ch q) = Pending \<longrightarrow> fst (mp_poll_recv ch q) = q)"

lemma quiet_list_mpsc: "quiet_poll list_mpsc"
  by (simp add: quiet_poll_def list_mpsc_def split: list.splits)

lemma poll_next_quiet:
  "quiet_poll ch \<Longrightarrow> ReceiveFromStream_poll_next ch rf = (rf', Pending) \<Longrightarrow> rf' = rf"
  by (cases "mp_poll_recv ch (rf_receiver rf)")
    (auto simp: ReceiveFromStream_poll_next_def quiet_poll_def split: poll.splits option.splits dest: spec [of _ "rf_receiver rf"])

lemma others_not_polling:
  assumes "one_stream s t" and "sr_streams s = ys @ [y]"
  shows "\<forall>j < length ys. fst (ys ! j) \<noteq> Polling"
proof (intro allI impI notI)
  fix j assume j: "j < length ys" "fst (ys ! j) = Polling"
  then have "j < length (sr_streams s)" "fst (sr_streams s ! j) = Polling" by (simp_all add: assms(2) nth_append)
  with assms(1) have "Suc j = length (sr_streams s)" unfolding one_stream_def by blast
  with j(1) assms(2) show False by simp
qed

lemma finish_poll_one:
  assumes "one_stream s t" and "finish_poll ch i elapsed s = Some (s', out)" and "quiet_poll ch"
  shows "\<exists>evs t'. recv_run ch msg evs t = Some t' \<and> one_stream s' t' \<and> panics out = []"
proof -
  have i: "i < length (sr_streams s)" "fst (sr_streams s ! i) = Polling"
    using assms(2) by (auto simp: finish_poll_def split: if_splits)
  with assms(1) have ph: "sr_phase s = InCall" "Suc i = length (sr_streams s)" by (auto simp: one_stream_def)
  then obtain ys xs where ss: "sr_streams s = ys @ [(Polling, xs)]" "i = length ys"
    using i by (cases "sr_streams s" rule: rev_cases) (auto simp: nth_append)
  have t: "rt_phase t = Streaming" "rt_from t = sr_from s" "rt_sent t = map snd ys @ [xs]" using assms(1) ph ss by (simp_all add: one_stream_def)
  obtain rf' res where poll: "ReceiveFromStream_poll_next ch (sr_from s) = (rf', res)" by fastforce
  note others = others_not_polling [OF assms(1) ss(1)]
  show ?thesis
  proof (cases res)
    case Pending
    then have rf': "rf' = sr_from s" using poll_next_quiet [OF assms(3)] poll by blast
    show ?thesis
    proof (cases elapsed)
      case True
      let ?t = "t\<lparr>rt_phase := StreamEnded\<rparr>"
      have "recv_run ch msg [Elapsed] t = Some ?t" using t poll Pending by simp
      moreover have "one_stream s' ?t" "panics out = []" using assms(1,2) ss poll Pending True ph rf' others
        by (auto simp: finish_poll_def one_stream_def nth_append nth_list_update less_Suc_eq)
      ultimately show ?thesis by blast
    next
      case False
      have "one_stream s' t" "panics out = []" using assms(1,2) ss poll Pending False ph rf' others
        by (auto simp: finish_poll_def one_stream_def nth_append nth_list_update less_Suc_eq)
      then show ?thesis by (intro exI [of _ "[]"]) simp
    qed
  next
    case (Ready r)
    let ?t = "case r of None \<Rightarrow> t\<lparr>rt_from := rf', rt_phase := StreamEnded\<rparr> | Some x \<Rightarrow> t\<lparr>rt_from := rf', rt_sent := map snd ys @ [xs @ [x]]\<rparr>"
    have "recv_run ch msg [PollNext] t = Some ?t" using t poll Ready by (simp split: option.splits)
    moreover have "one_stream s' ?t" "panics out = []" using assms(1,2) ss poll Ready ph others
      by (auto simp: finish_poll_def one_stream_def nth_append nth_list_update less_Suc_eq split: option.splits)
    ultimately show ?thesis by blast
  qed
qed

lemma lock_poll_one:
  assumes "one_stream s t" and "lock_poll i s = Some (s', out)" and "tidy_event (LockPoll i) s"
  shows "one_stream s' t \<and> panics out = []"
proof -
  have ph: "sr_phase s = InCall" "Suc i = length (sr_streams s)" using assms(3) by simp_all
  obtain ys xs where ss: "sr_streams s = ys @ [(Resting, xs)]" "i = length ys"
    using ph assms(2) by (cases "sr_streams s" rule: rev_cases) (auto simp: lock_poll_def nth_append split: if_splits)
  note others = others_not_polling [OF assms(1) ss(1)]
  then have "\<not> (\<exists>x\<in>set (sr_streams s). fst x = Polling)" using ss by (auto simp: in_set_conv_nth dest: spec) (metis fst_conv)
  then have "s' = set_stream i (Polling, xs) s" "out = []" using assms(2) ss by (auto simp: lock_poll_def)
  with assms(1) ss ph others show ?thesis by (auto simp: one_stream_def nth_append nth_list_update less_Suc_eq)
qed

lemma drop_stream_one:
  assumes "one_stream s t" and "drop_stream i s = Some (s', out)"
  shows "one_stream s' t \<and> panics out = []"
proof -
  have i: "i < length (sr_streams s)" "s' = set_stream i (Dropped, snd (sr_streams s ! i)) s" "out = []"
    using assms(2) by (auto simp: drop_stream_def split: if_splits)
  have "map snd (sr_streams s') = map snd (sr_streams s)"
    using i list_update_id [of "map snd (sr_streams s)" i] by (simp add: map_update)
  moreover have "last (sr_streams s') = (if Suc i = length (sr_streams s) then (Dropped, snd (sr_streams s ! i)) else last (sr_streams s))"
    using i(1) unfolding i(2) by (subst set_stream_simps(4), subst last_list_update) auto
  ultimately show ?thesis using assms(1) i
    by (auto simp: one_stream_def phase_matches_def nth_list_update split: call_phase.splits poll_phase.splits if_splits)
qed

lemma recv_run_append:
  "recv_run ch msg (xs @ ys) t = Option.bind (recv_run ch msg xs t) (recv_run ch msg ys)"
  by (induction xs arbitrary: t) (auto simp del: recv_step.simps split: Option.bind_split)

lemma hand_out_one:
  assumes "one_stream s t" and "hand_out s = Some (s', out)"
  shows "\<exists>t'. recv_run ch msg [OpenStream] t = Some t' \<and> one_stream s' t' \<and> panics out = []"
  using assms by (auto simp: hand_out_def one_stream_def ReceiveFrom_stream_def nth_append less_Suc_eq split: if_splits)

lemma call_returns_one:
  assumes "one_stream s t" and "call_returns msg r s = Some (s', out)" and "polling (sr_streams s) = 0"
  shows "\<exists>t'. recv_run ch msg [CollectReturns r] t = Some t' \<and> one_stream s' t' \<and> panics out = []"
proof -
  have "rt_phase t = Streaming \<or> rt_phase t = StreamEnded" "sr_phase s = InCall"
    using assms(1,2) by (auto simp: call_returns_def one_stream_def phase_matches_def split: if_splits poll_phase.splits)
  moreover have "\<forall>i < length (sr_streams s). fst (sr_streams s ! i) \<noteq> Polling" using assms(3) by (simp add: polling_0)
  ultimately show ?thesis using assms(1,2) by (cases r) (auto simp: call_returns_def one_stream_def)
qed

lemma share_step_one:
  assumes "one_stream s t" and "share_step ch msg ev s = Some (s', out)" and "tidy_event ev s" and "quiet_poll ch"
  shows "\<exists>evs t'. recv_run ch msg evs t = Some t' \<and> one_stream s' t' \<and> panics out = []"
proof (cases ev)
  case (PutItem x)
  obtain q' r where q': "mp_try_send ch x (rf_receiver (sr_from s)) = (q', r)" by fastforce
  have f: "rt_from t = sr_from s" "rt_sender t = sr_sender s" using assms(1) by (simp_all add: one_stream_def)
  let ?t = "t\<lparr>rt_from := (sr_from s)\<lparr>rf_receiver := q'\<rparr>\<rparr>"
  have "recv_run ch msg [SendItem x] t = Some ?t" "one_stream s' ?t" "panics out = []"
    using assms(1,2) PutItem q' f by (auto simp: one_stream_def split: if_splits)
  then show ?thesis by blast
next
  case CloseSend
  have f: "rt_from t = sr_from s" "rt_sender t = sr_sender s" using assms(1) by (simp_all add: one_stream_def)
  let ?t = "t\<lparr>rt_sender := False, rt_from := (sr_from s)\<lparr>rf_receiver := mp_drop_tx ch (rf_receiver (sr_from s))\<rparr>\<rparr>"
  have "recv_run ch msg [DropSender] t = Some ?t" "one_stream s' ?t" "panics out = []"
    using assms(1,2) CloseSend f by (auto simp: one_stream_def split: if_splits)
  then show ?thesis by blast
next
  case HandOut
  with hand_out_one [OF assms(1)] assms(2) show ?thesis by (metis share_step.simps(3))
next
  case (LockPoll i)
  with lock_poll_one [OF assms(1)] assms(2,3) have "recv_run ch msg [] t = Some t \<and> one_stream s' t \<and> panics out = []" by simp
  then show ?thesis by blast
next
  case (FinishPoll i elapsed)
  with finish_poll_one [OF assms(1) _ assms(4)] assms(2) show ?thesis by simp
next
  case (DropStream i)
  with drop_stream_one [OF assms(1)] assms(2) have "recv_run ch msg [] t = Some t \<and> one_stream s' t \<and> panics out = []" by simp
  then show ?thesis by blast
next
  case (CallReturns r)
  with call_returns_one [OF assms(1)] assms(2,3) show ?thesis by (metis share_step.simps(7) tidy_event.simps(2))
qed

lemma share_run_one:
  "share_run ch msg evs s = Some (s', outs) \<Longrightarrow> one_stream s t \<Longrightarrow> tidy_run ch msg evs s \<Longrightarrow> quiet_poll ch \<Longrightarrow>
   \<exists>evs' t'. recv_run ch msg evs' t = Some t' \<and> one_stream s' t' \<and> panics outs = []"
proof (induction evs arbitrary: s t outs)
  case Nil
  then show ?case by (intro exI [of _ "[]"]) simp
next
  case (Cons ev evs)
  then obtain s1 o1 o2 where s1: "share_step ch msg ev s = Some (s1, o1)" "share_run ch msg evs s1 = Some (s', o2)" "outs = o1 @ o2"
    by (auto split: option.splits prod.splits simp del: share_step.simps)
  have tidy: "tidy_event ev s" "tidy_run ch msg evs s1" using Cons.prems(3) s1(1) by (simp_all del: share_step.simps)
  obtain e1 t1 where t1: "recv_run ch msg e1 t = Some t1" "one_stream s1 t1" "panics o1 = []"
    using share_step_one [OF Cons.prems(2) s1(1) tidy(1) Cons.prems(4)] by blast
  obtain e2 t2 where t2: "recv_run ch msg e2 t1 = Some t2" "one_stream s' t2" "panics o2 = []"
    using Cons.IH [OF s1(2) t1(2) tidy(2) Cons.prems(4)] by blast
  have "recv_run ch msg (e1 @ e2) t = Some t2" using t1(1) t2(1) by (simp add: recv_run_append bind_eq_Some_conv)
  with t1(3) t2(2,3) s1(3) show ?case by (intro exI [of _ "e1 @ e2"]) simp
qed

section \<open>Properties\<close>

text \<open>C27. The streams of one channel share its items: whatever the client does with the streams it was given,
  polling them in any interleaving, also those of calls that have returned, what the channel took is
  what was pulled, in order, followed by what is still in it, each item is pulled through exactly one
  stream, at most one poll is inside the mutex, a poll can panic only once two streams have been handed
  out, and the task returns only when the sending end is gone and the channel is empty.\<close>

theorem streams_share_their_channel:
  assumes "mpsc_channel ch contents rx_alive tx_alive room" and "tx_alive q" and "contents q = []"
    and "share_run ch msg evs (share_start q) = Some (s, outs)"
  shows "took outs = map snd (pulls outs) @ contents (rf_receiver (sr_from s)) \<and>
    map snd (sr_streams s) = map (\<lambda>i. pulled_by i outs) [0..<length (sr_streams s)] \<and>
    (\<forall>(i, x)\<in>set (pulls outs). i < length (sr_streams s)) \<and>
    length (filter (\<lambda>x. fst x = Polling) (sr_streams s)) \<le> 1 \<and>
    (panics outs \<noteq> [] \<longrightarrow> 2 \<le> length (sr_streams s)) \<and>
    (sr_phase s = TaskDone \<longrightarrow> \<not> sr_sender s \<and> contents (rf_receiver (sr_from s)) = [])"
proof -
  have inv: "mpsc_channel.share_inv contents tx_alive outs s"
    using mpsc_channel.share_run_inv [OF assms(1) mpsc_channel.share_start_inv [OF assms(1-3)] assms(4)] by simp
  note inv = inv [unfolded mpsc_channel.share_inv_def [OF assms(1)]]
  then have by_stream: "pulled_by i outs = (if i < length (sr_streams s) then snd (sr_streams s ! i) else [])" for i by blast
  have "map snd (sr_streams s) = map (\<lambda>i. pulled_by i outs) [0..<length (sr_streams s)]"
    by (rule nth_equalityI) (simp_all add: by_stream)
  moreover have "\<forall>(i, x)\<in>set (pulls outs). i < length (sr_streams s)"
  proof (clarify, rule ccontr)
    fix i x assume x: "(i, x) \<in> set (pulls outs)" and "\<not> i < length (sr_streams s)"
    then have "pulled_by i outs = []" by (simp add: by_stream)
    with x show False by (auto simp: pulled_by_def filter_empty_conv)
  qed
  ultimately show ?thesis using inv by (auto simp: polling_def)
qed

text \<open>The first call fails and its stream is left behind: it takes an item away from the second stream, and
  the second stream panics when it is polled while the first one is.\<close>

definition sample_share_events :: "nat share_event list" where
  "sample_share_events = [HandOut, PutItem 1, PutItem 2, LockPoll 0, FinishPoll 0 False, CallReturns (Inl ''gone''), HandOut,
     LockPoll 0, FinishPoll 0 False, PutItem 3, LockPoll 0, LockPoll 1]"

lemma sample_share_runs:
  "map_option (\<lambda>(s, outs). (sr_streams s, panics outs, took outs))
     (share_run list_mpsc ''m'' sample_share_events (share_start (channel_new (Some 2)))) =
   Some ([(Polling, [1, 2]), (Panicked, [])], [1], [1, 2, 3])"
  by code_simp

theorem streams_share_their_channel_witness:
  "\<exists>s outs. share_run list_mpsc ''m'' sample_share_events (share_start (channel_new (Some 2))) = Some (s, outs) \<and>
    panics outs = [1] \<and> map snd (pulls outs) @ lc_items (rf_receiver (sr_from s)) = [1, 2, 3]"
proof -
  obtain s outs where s: "share_run list_mpsc ''m'' sample_share_events (share_start (channel_new (Some 2))) = Some (s, outs)"
    "panics outs = [1]" "took outs = [1, 2, 3]" using sample_share_runs by auto
  have init: "lc_tx (channel_new (Some 2))" "lc_items (channel_new (Some 2)) = []" by (simp_all add: channel_new_def)
  from streams_share_their_channel [OF lc.mpsc_channel_axioms init s(1)] s(3)
  have "map snd (pulls outs) @ lc_items (rf_receiver (sr_from s)) = [1, 2, 3]" by simp
  with s(1,2) show ?thesis by blast
qed

text \<open>C28. With a client that is done with a stream when its call returns, the streams are those of the task
  of \<open>Grpc_Stream\<close>: in every interleaving no poll panics, and some run of that task streams the same
  items, stream by stream, and calls the status handler with the same errors.\<close>

theorem tidy_clients_give_the_task:
  assumes "share_run ch msg evs (share_start q) = Some (s, outs)" and "tidy_run ch msg evs (share_start q)" and "quiet_poll ch"
  shows "panics outs = [] \<and> (\<exists>evs' t. recv_run ch msg evs' (ReceiveReporter_start q) = Some t \<and>
    rt_sent t = map snd (sr_streams s) \<and> rt_status_calls t = sr_status_calls s \<and> rt_from t = sr_from s \<and>
    (sr_phase s = TaskDone \<longleftrightarrow> rt_phase t = Returned))"
proof -
  have "one_stream (share_start q) (ReceiveReporter_start q)"
    by (simp add: one_stream_def share_start_def ReceiveReporter_start_def)
  from share_run_one [OF assms(1) this assms(2,3)] obtain evs' t where
    t: "recv_run ch msg evs' (ReceiveReporter_start q) = Some t" "one_stream s t" "panics outs = []" by blast
  from t(2) have "sr_phase s = TaskDone \<longleftrightarrow> rt_phase t = Returned"
    by (auto simp: one_stream_def phase_matches_def split: call_phase.splits poll_phase.splits)
  with t show ?thesis by (auto simp: one_stream_def)
qed

definition tidy_share_events :: "nat share_event list" where
  "tidy_share_events = [HandOut, PutItem 1, LockPoll 0, FinishPoll 0 False, LockPoll 0, FinishPoll 0 True, CallReturns (Inr ()),
     HandOut, DropStream 0, PutItem 2, LockPoll 1, CloseSend, FinishPoll 1 False, LockPoll 1, FinishPoll 1 False,
     CallReturns (Inl ''down''), HandOut]"

theorem tidy_clients_give_the_task_witness:
  "\<exists>s outs. share_run list_mpsc ''m'' tidy_share_events (share_start (channel_new (Some 2))) = Some (s, outs) \<and>
    panics outs = [] \<and> sr_phase s = TaskDone \<and>
    (\<exists>evs' t. recv_run list_mpsc ''m'' evs' (ReceiveReporter_start (channel_new (Some 2))) = Some t \<and>
       rt_sent t = [[1], [2 :: nat]] \<and> rt_phase t = Returned \<and> rt_status_calls t = [(''m'', ''down'')])"
proof -
  have "map_option (\<lambda>(s, outs). (map snd (sr_streams s), sr_phase s, sr_status_calls s))
      (share_run list_mpsc ''m'' tidy_share_events (share_start (channel_new (Some 2)))) =
    Some ([[1], [2]], TaskDone, [(''m'', ''down'')])" by code_simp
  then obtain s outs where s: "share_run list_mpsc ''m'' tidy_share_events (share_start (channel_new (Some 2))) = Some (s, outs)"
    "map snd (sr_streams s) = [[1], [2]]" "sr_phase s = TaskDone" "sr_status_calls s = [(''m'', ''down'')]" by auto
  have "tidy_run list_mpsc ''m'' tidy_share_events (share_start (channel_new (Some 2)))" by code_simp
  note tidy = tidy_clients_give_the_task [OF s(1) this quiet_list_mpsc]
  then have "panics outs = []" by blast
  moreover from tidy obtain evs' t where "recv_run list_mpsc ''m'' evs' (ReceiveReporter_start (channel_new (Some 2))) = Some t"
    "rt_sent t = [[1], [2 :: nat]]" "rt_phase t = Returned" "rt_status_calls t = [(''m'', ''down'')]" unfolding s(2-4) by blast
  ultimately show ?thesis using s(1,3) by blast
qed

end
