(* ===== verification/E2e_Services.thy ===== *)
theory E2e_Services
  imports Propagation Logging Metricer Kafka_Reporter
begin

text \<open>
  \<^verbatim>\<open>src/e2e/src/main.rs\<close>: the two services of the end-to-end set-up.  The producer answers \<open>/ping\<close> with
  a request to the consumer's \<open>/pong\<close> and a piece of work on another thread; both trace and log what
  they do, the consumer also keeps meters, and everything goes to a gRPC and a Kafka reporter at
  once.  Local values with destructors are scopes: leaving one, also by a panic, drops the value.
\<close>

section \<open>Scopes\<close>

definition seq :: "('s, 'a) outcome \<Rightarrow> ('a \<Rightarrow> 's \<Rightarrow> ('s, 'b) outcome) \<Rightarrow> ('s, 'b) outcome" where
  "seq out f = (case out of (s, Inl p) \<Rightarrow> (s, Inl p) | (s, Inr x) \<Rightarrow> f x s)"

definition scope :: "('s \<Rightarrow> ('s, unit) outcome) \<Rightarrow> ('s, 'a) outcome \<Rightarrow> ('s, 'a) outcome" where
  "scope drop_value out =
     (case out of
        (s, Inl Abort) \<Rightarrow> (s, Inl Abort)
      | (s, Inl (Panic m)) \<Rightarrow> unwind (Panic m) (drop_value s)
      | (s, Inr x) \<Rightarrow> seq (drop_value s) (\<lambda>_ s'. (s', Inr x)))"

text \<open>A function that owns a tracing context: the context, what it shares with its spans, and the
  world outside.\<close>

record 'w Frame =
  fr_ctx :: TracingContext
  fr_shared :: Shared
  fr_world :: 'w

definition on_context ::
  "(TracingContext \<times> SpanStack \<Rightarrow> (TracingContext \<times> SpanStack, 'a) outcome) \<Rightarrow> 'w Frame \<Rightarrow> ('w Frame, 'a) outcome" where
  "on_context f fr =
     (case f (fr_ctx fr, sh_stack (fr_shared fr)) of
        ((tc, st), r) \<Rightarrow> (fr\<lparr>fr_ctx := tc, fr_shared := (fr_shared fr)\<lparr>sh_stack := st\<rparr>\<rparr>, r))"

definition on_world :: "('w \<Rightarrow> ('w, 'a) outcome) \<Rightarrow> 'w Frame \<Rightarrow> ('w Frame, 'a) outcome" where
  "on_world f fr = (case f (fr_world fr) of (w, r) \<Rightarrow> (fr\<lparr>fr_world := w\<rparr>, r))"

definition drop_span :: "build \<Rightarrow> SystemTime \<Rightarrow> Span \<Rightarrow> 'w Frame \<Rightarrow> ('w Frame, unit) outcome" where
  "drop_span cfg now sp fr = (case Span_drop cfg now sp (fr_shared fr) of (sh, r) \<Rightarrow> (fr\<lparr>fr_shared := sh\<rparr>, r))"

definition drop_context :: "'w report_fn \<Rightarrow> Tracer option \<Rightarrow> 'w Frame \<Rightarrow> ('w Frame, unit) outcome" where
  "drop_context report tracer fr =
     (case TracingContext_drop report tracer (fr_ctx fr) (sh_stack (fr_shared fr), fr_world fr) of
        ((st, w), r) \<Rightarrow> (fr\<lparr>fr_shared := (fr_shared fr)\<lparr>sh_stack := st\<rparr>, fr_world := w\<rparr>, r))"

text \<open>\<open>ended\<close> is the clock when the guard is dropped.\<close>

definition with_span_guard ::
  "build \<Rightarrow> SystemTime \<Rightarrow> (TracingContext \<times> SpanStack \<Rightarrow> (TracingContext \<times> SpanStack, Span) outcome) \<Rightarrow>
   (Span \<Rightarrow> 'w Frame \<Rightarrow> ('w Frame, 'a) outcome) \<Rightarrow> 'w Frame \<Rightarrow> ('w Frame, 'a) outcome" where
  "with_span_guard cfg ended create body fr =
     seq (on_context create fr) (\<lambda>sp fr'. scope (drop_span cfg ended sp) (body sp fr'))"

text \<open>\<open>in_context\<close> owns a context; \<open>with_context\<close> has it created by the global tracer.\<close>

definition in_context ::
  "'w report_fn \<Rightarrow> Tracer option \<Rightarrow> TracingContext \<Rightarrow> ('w Frame \<Rightarrow> ('w Frame, 'a) outcome) \<Rightarrow> 'w \<Rightarrow> ('w, 'a) outcome" where
  "in_context report tracer tc body w =
     (case scope (drop_context report tracer)
             (body \<lparr>fr_ctx = tc, fr_shared = \<lparr>sh_stack = SpanStack_default, sh_wg = WaitGroup_default\<rparr>, fr_world = w\<rparr>) of
        (fr, r) \<Rightarrow> (fr_world fr, r))"

definition with_context ::
  "'w report_fn \<Rightarrow> Tracer option \<Rightarrow> u128 \<Rightarrow> u128 \<Rightarrow> ('w Frame \<Rightarrow> ('w Frame, 'a) outcome) \<Rightarrow> 'w \<Rightarrow> ('w, 'a) outcome" where
  "with_context report tracer u1 u2 body w =
     (case global_create_trace_context u1 u2 tracer of
        Inl p \<Rightarrow> (w, Inl p)
      | Inr tc \<Rightarrow> in_context report tracer tc body w)"

section \<open>HTTP\<close>

text \<open>
  What the services use of \<open>hyper\<close>: building a \<open>GET\<close> request with one header (\<open>body(..).unwrap()\<close>), its
  method and path, and \<open>headers()[key].to_str().unwrap()\<close>.  Connecting, sending and waiting for the
  response is the argument \<open>send\<close> of the handlers, a failure being the panic of the \<open>unwrap\<close>.
\<close>

record 'q http =
  http_get :: "string \<Rightarrow> string \<times> string \<Rightarrow> 'q res"
  req_method :: "'q \<Rightarrow> string"
  req_path :: "'q \<Rightarrow> string"
  req_header :: "'q \<Rightarrow> string \<Rightarrow> string res"

record Response =
  status :: nat
  body :: string

definition NOT_FOUND_MSG :: string where "NOT_FOUND_MSG = ''not found''"
definition SUCCESS_MSG :: string where "SUCCESS_MSG = ''Success''"

definition ok_response :: Response where "ok_response = \<lparr>status = 200, body = ''ok''\<rparr>"
definition health_response :: Response where "health_response = \<lparr>status = 200, body = SUCCESS_MSG\<rparr>"
definition not_found_response :: Response where "not_found_response = \<lparr>status = 404, body = NOT_FOUND_MSG\<rparr>"

section \<open>The services\<close>

record Globals =
  GLOBAL_TRACER :: "Tracer option"
  GLOBAL_LOGGER :: "Logger option"

text \<open>The clock and the random numbers are read at the numbered points of a handler.\<close>

definition ping_record :: LogRecord where
  "ping_record =
     LogRecord_content ''{\"message\": \"handle ping\"}'' (LogRecord_record_type JsonType
       (LogRecord_endpoint ''/ping'' (LogRecord_add_tag ''level'' ''DEBUG'' LogRecord_new)))"

definition pong_record :: LogRecord where
  "pong_record =
     LogRecord_content ''{\"message\": \"handle pong\"}'' (LogRecord_record_type JsonType
       (LogRecord_endpoint ''/pong'' (LogRecord_add_tag ''level'' ''DEBUG'' LogRecord_new)))"

definition request_record :: "TracingContext \<Rightarrow> Span \<Rightarrow> LogRecord res" where
  "request_record tc span2 =
     map_sum id (\<lambda>r. LogRecord_content ''do http request'' (LogRecord_record_type TextType r))
       (with_span span2 (with_tracing_context tc
          (LogRecord_endpoint ''/ping'' (LogRecord_add_tag ''level'' ''INFO'' LogRecord_new))))"

definition ping_request ::
  "base64_engine \<Rightarrow> 'q http \<Rightarrow> ('q \<Rightarrow> 'w \<Rightarrow> ('w, unit) outcome) \<Rightarrow> 'w report_fn \<Rightarrow> build \<Rightarrow> (nat \<Rightarrow> SystemTime) \<Rightarrow>
   Globals \<Rightarrow> 'w Frame \<Rightarrow> ('w Frame, unit) outcome" where
  "ping_request engine ht send report cfg clk g =
     with_span_guard cfg (clk 4) (create_exit_span cfg (clk 2) ''/pong'' ''127.0.0.1:8082'') (\<lambda>span2 fr.
       (case http_get ht ''http://127.0.0.1:8082/pong''
               (SKYWALKING_HTTP_CONTEXT_HEADER_KEY,
                encode_propagation engine (fr_ctx fr, sh_stack (fr_shared fr)) ''/pong'' ''127.0.0.1:8082'') of
          Inl p \<Rightarrow> (fr, Inl p)
        | Inr req \<Rightarrow>
            (case request_record (fr_ctx fr) span2 of
               Inl p \<Rightarrow> (fr, Inl p)
             | Inr rec \<Rightarrow>
                 seq (on_world (global_log report cfg (clk 3) (GLOBAL_LOGGER g) rec) fr)
                   (\<lambda>_. on_world (send req)))))"

definition async_callback ::
  "'w report_fn \<Rightarrow> build \<Rightarrow> (nat \<Rightarrow> SystemTime) \<Rightarrow> (nat \<Rightarrow> u128) \<Rightarrow> Tracer option \<Rightarrow> ContextSnapshot \<Rightarrow> 'w \<Rightarrow>
   ('w, unit) outcome" where
  "async_callback report cfg clk ids tracer snapshot =
     with_context report tracer (ids 2) (ids 3)
       (with_span_guard cfg (clk 7) (create_entry_span cfg (clk 6) ''async-callback'')
          (\<lambda>_. on_context (continued tracer snapshot)))"

text \<open>\<open>spawn(..).await.unwrap()\<close>: a panic of the task becomes one of the caller.\<close>

definition join_unwrap :: "('w, unit) outcome \<Rightarrow> ('w, unit) outcome" where
  "join_unwrap out =
     (fst out, case snd out of
        Inr _ \<Rightarrow> Inr ()
      | Inl Abort \<Rightarrow> Inl Abort
      | Inl (Panic m) \<Rightarrow> Inl (Panic ''called `Result::unwrap()` on an `Err` value: JoinError::Panic(..)''))"

definition ping_async ::
  "'w report_fn \<Rightarrow> build \<Rightarrow> (nat \<Rightarrow> SystemTime) \<Rightarrow> (nat \<Rightarrow> u128) \<Rightarrow> Globals \<Rightarrow> 'w Frame \<Rightarrow> ('w Frame, unit) outcome" where
  "ping_async report cfg clk ids g =
     with_span_guard cfg (clk 8) (create_local_span cfg (clk 5) ''async-job'') (\<lambda>_ fr.
       let snapshot = capture (fr_ctx fr, sh_stack (fr_shared fr))
       in on_world (\<lambda>w. join_unwrap (async_callback report cfg clk ids (GLOBAL_TRACER g) snapshot w)) fr)"

definition handle_ping ::
  "base64_engine \<Rightarrow> 'q http \<Rightarrow> ('q \<Rightarrow> 'w \<Rightarrow> ('w, unit) outcome) \<Rightarrow> 'w report_fn \<Rightarrow> build \<Rightarrow> (nat \<Rightarrow> SystemTime) \<Rightarrow>
   (nat \<Rightarrow> u128) \<Rightarrow> Globals \<Rightarrow> 'w \<Rightarrow> ('w, Response) outcome" where
  "handle_ping engine ht send report cfg clk ids g w =
     seq (global_log report cfg (clk 0) (GLOBAL_LOGGER g) ping_record w) (\<lambda>_.
       with_context report (GLOBAL_TRACER g) (ids 0) (ids 1)
         (with_span_guard cfg (clk 9) (create_entry_span cfg (clk 1) ''/ping'') (\<lambda>_ fr.
            seq (ping_request engine ht send report cfg clk g fr) (\<lambda>_ fr.
            seq (ping_async report cfg clk ids g fr) (\<lambda>_ fr.
              (fr, Inr ok_response))))))"

definition producer_response ::
  "base64_engine \<Rightarrow> 'q http \<Rightarrow> ('q \<Rightarrow> 'w \<Rightarrow> ('w, unit) outcome) \<Rightarrow> 'w report_fn \<Rightarrow> build \<Rightarrow> (nat \<Rightarrow> SystemTime) \<Rightarrow>
   (nat \<Rightarrow> u128) \<Rightarrow> Globals \<Rightarrow> 'q \<Rightarrow> 'w \<Rightarrow> ('w, Response) outcome" where
  "producer_response engine ht send report cfg clk ids g req w =
     (if req_method ht req = ''GET'' \<and> req_path ht req = ''/ping''
      then handle_ping engine ht send report cfg clk ids g w
      else if req_method ht req = ''GET'' \<and> req_path ht req = ''/healthCheck'' then (w, Inr health_response)
      else (w, Inr not_found_response))"

definition handle_pong ::
  "base64_engine \<Rightarrow> 'q http \<Rightarrow> 'w report_fn \<Rightarrow> build \<Rightarrow> (nat \<Rightarrow> SystemTime) \<Rightarrow> (nat \<Rightarrow> u128) \<Rightarrow> Globals \<Rightarrow> 'q \<Rightarrow> 'w \<Rightarrow>
   ('w, Response) outcome" where
  "handle_pong engine ht report cfg clk ids g req w =
     seq (global_log report cfg (clk 0) (GLOBAL_LOGGER g) pong_record w) (\<lambda>_ w.
       (case req_header ht req SKYWALKING_HTTP_CONTEXT_HEADER_KEY of
          Inl p \<Rightarrow> (w, Inl p)
        | Inr header \<Rightarrow>
            (case decode_propagation engine header of
               Inl e \<Rightarrow> (w, Inl (Panic ''called `Result::unwrap()` on an `Err` value''))
             | Inr ctx \<Rightarrow>
                 with_context report (GLOBAL_TRACER g) (ids 0) (ids 1)
                   (with_span_guard cfg (clk 2) (create_entry_span_with_propagation cfg (clk 1) ''/pong'' ctx)
                      (\<lambda>_ fr. (fr, Inr ok_response))) w)))"

definition consumer_response ::
  "base64_engine \<Rightarrow> 'q http \<Rightarrow> 'w report_fn \<Rightarrow> build \<Rightarrow> (nat \<Rightarrow> SystemTime) \<Rightarrow> (nat \<Rightarrow> u128) \<Rightarrow> Globals \<Rightarrow> 'q \<Rightarrow> 'w \<Rightarrow>
   ('w, Response) outcome" where
  "consumer_response engine ht report cfg clk ids g req w =
     (if req_method ht req = ''GET'' \<and> req_path ht req = ''/pong''
      then handle_pong engine ht report cfg clk ids g req w
      else if req_method ht req = ''GET'' \<and> req_path ht req = ''/healthCheck'' then (w, Inr health_response)
      else (w, Inr not_found_response))"

section \<open>Meters of the consumer\<close>

text \<open>The two \<open>Arc\<close>s that the function keeps are the addresses of the counter and the histogram, whose
  values lie in known buckets, so that \<open>add_value\<close> does not index out of range.\<close>

definition consumer_counter :: Counter where
  "consumer_counter = Counter_add_label ''az'' ''az-1'' (Counter_add_label ''region'' ''us-west''
     (Counter_new ''instance_trace_count''))"

definition consumer_gauge :: "'e Gauge" where
  "consumer_gauge = Gauge_add_label ''az'' ''az-3'' (Gauge_add_label ''region'' ''us-east''
     (Gauge_new ''instance_trace_count'' (\<lambda>_. f64_of_nat 20)))"

definition consumer_histogram :: Histogram where
  "consumer_histogram = Histogram_add_label ''az'' ''az-1'' (Histogram_add_label ''region'' ''us-north''
     (Histogram_new ''instance_trace_count'' [f64_of_nat 10, f64_of_nat 20, f64_of_nat 30]))"

definition update_meters :: "(nat \<times> meter_op) list \<Rightarrow> 'e meter list \<Rightarrow> 'e meter list" where
  "update_meters ops heap = foldl (\<lambda>h (a, op). h[a := meter_update op (h ! a)]) heap ops"

definition run_consumer_metric :: "Metricer \<Rightarrow> 'r \<Rightarrow> ('e, 'r) Boot" where
  "run_consumer_metric metricer r =
     (let (s1, counter) = register (MCounter consumer_counter) (metricer, []);
          (s2, _) = register (MGauge consumer_gauge) s1;
          ((mt, heap), histogram) = register (MHistogram consumer_histogram) s2
      in Metricer_boot mt
           (update_meters [(counter, AddCount (f64_of_nat 10)), (counter, AddCount (f64_of_nat 20)),
              (histogram, AddValue (f64_of_nat 10)), (histogram, AddValue (f64_of_nat 29)),
              (histogram, AddValue (f64_of_nat 20))] heap) r)"

section \<open>The combined reporter\<close>

record ('g, 'k) CombineReporter =
  grpc_reporter :: 'g
  kafka_reporter :: 'k
  printed_types :: "string list"

fun item_type :: "CollectItem \<Rightarrow> string" where
  "item_type (Trace _) = ''trace''"
| "item_type (Log _) = ''log''"
| "item_type (Meter _) = ''meter''"
| "item_type _ = ''unknown''"

definition CombineReporter_report ::
  "'g report_fn \<Rightarrow> 'k report_fn \<Rightarrow> ('g, 'k) CombineReporter report_fn" where
  "CombineReporter_report grpc_report kafka_report item r =
     (let r = r\<lparr>printed_types := printed_types r @ [item_type item]\<rparr> in
      (case grpc_report item (grpc_reporter r) of
         (g', Inl p) \<Rightarrow> (r\<lparr>grpc_reporter := g'\<rparr>, Inl p)
       | (g', Inr _) \<Rightarrow>
           (case kafka_report item (kafka_reporter r) of
              (k', x) \<Rightarrow> (r\<lparr>grpc_reporter := g', kafka_reporter := k'\<rparr>, x))))"

text \<open>Start of a process: the globals of each mode.  Any other mode is \<open>unreachable!()\<close>.\<close>

definition start_globals :: "string \<Rightarrow> Globals res" where
  "start_globals srv =
     (case set_global_tracer (Tracer_new srv ''node_0'') None of
        (t, Inl p) \<Rightarrow> Inl p
      | (t, Inr _) \<Rightarrow>
          (case set_global_logger (Logger_new srv ''node_0'') None of
             (l, Inl p) \<Rightarrow> Inl p
           | (l, Inr _) \<Rightarrow> Inr \<lparr>GLOBAL_TRACER = t, GLOBAL_LOGGER = l\<rparr>))"

definition start_process :: "string \<Rightarrow> Globals res" where
  "start_process mode =
     (if mode = ''consumer'' then start_globals ''consumer''
      else if mode = ''producer'' then start_globals ''producer''
      else Inl unreachable_panic)"

section \<open>Lemmas\<close>

text \<open>Two reporters behind one: accepting when both accept, each receives everything.\<close>

lemma reporter_Combine:
  assumes "reporter gr dg ag" and "reporter kr dk ak"
  shows "reporter (CombineReporter_report gr kr) (\<lambda>r. dg (grpc_reporter r))
      (\<lambda>r. ag (grpc_reporter r) \<and> ak (kafka_reporter r))"
    and "reporter (CombineReporter_report gr kr) (\<lambda>r. dk (kafka_reporter r))
      (\<lambda>r. ag (grpc_reporter r) \<and> ak (kafka_reporter r))"
proof -
  have "snd (CombineReporter_report gr kr x r) = Inr () \<and>
      dg (grpc_reporter (fst (CombineReporter_report gr kr x r))) = dg (grpc_reporter r) @ [x] \<and>
      ag (grpc_reporter (fst (CombineReporter_report gr kr x r))) \<and>
      dk (kafka_reporter (fst (CombineReporter_report gr kr x r))) = dk (kafka_reporter r) @ [x] \<and>
      ak (kafka_reporter (fst (CombineReporter_report gr kr x r)))"
    if acc: "ag (grpc_reporter r) \<and> ak (kafka_reporter r)" for x and r :: "('a, 'b) CombineReporter"
  proof -
    obtain g' where g: "gr x (grpc_reporter r) = (g', Inr ())" "dg g' = dg (grpc_reporter r) @ [x]" "ag g'"
      using reporter.report_accepting [OF assms(1)] acc by blast
    obtain k' where k: "kr x (kafka_reporter r) = (k', Inr ())" "dk k' = dk (kafka_reporter r) @ [x]" "ak k'"
      using reporter.report_accepting [OF assms(2)] acc by blast
    from g k show ?thesis by (simp add: CombineReporter_report_def)
  qed
  then show "reporter (CombineReporter_report gr kr) (\<lambda>r. dg (grpc_reporter r))
      (\<lambda>r. ag (grpc_reporter r) \<and> ak (kafka_reporter r))"
    and "reporter (CombineReporter_report gr kr) (\<lambda>r. dk (kafka_reporter r))
      (\<lambda>r. ag (grpc_reporter r) \<and> ak (kafka_reporter r))"
    by (unfold_locales; blast)+
qed

lemma seq_simps [simp]:
  "seq (s, Inl p) f = (s, Inl p)"
  "seq (s, Inr x) f = f x s"
  by (simp_all add: seq_def)

lemma seq_cong: "(\<And>x s. f x s = g x s) \<Longrightarrow> seq out f = seq out g"
  by (simp add: seq_def split: prod.splits sum.splits)

lemma scope_Inr [simp]: "scope d (s, Inr x) = seq (d s) (\<lambda>_ s'. (s', Inr x))"
  by (simp add: scope_def)

end
