(* ===== verification/E2e_Checks.thy ===== *)
theory E2e_Checks
  imports E2e_Services
begin

text \<open>
  \<^verbatim>\<open>src/e2e/src/e2e_kafka.rs\<close>: the program that reads the topics after one \<open>/ping\<close> and asserts what every
  segment, meter and log record must look like.  A failed assertion is a panic.
\<close>

section \<open>Assertions\<close>

definition assert_that :: "bool \<Rightarrow> unit res" where
  "assert_that b = (if b then Inr () else Inl (Panic ''assertion `left == right` failed''))"

definition index :: "'a list \<Rightarrow> nat \<Rightarrow> 'a res" where
  "index xs i = (if i < length xs then Inr (xs ! i) else Inl (Panic ''index out of bounds''))"

lemma assert_that_True [simp]: "assert_that True = Inr ()"
  by (simp add: assert_that_def)

lemma index_less [simp]: "i < length xs \<Longrightarrow> index xs i = Inr (xs ! i)"
  by (simp add: index_def)

section \<open>Segments\<close>

text \<open>The eleven assertions that are made of every span.\<close>

definition check_span ::
  "i32 \<Rightarrow> i32 \<Rightarrow> string option \<Rightarrow> string \<Rightarrow> SpanType \<Rightarrow> SpanLayer \<Rightarrow> nat \<Rightarrow> SpanObject \<Rightarrow> unit res" where
  "check_span sid parent opname pr stype layer nrefs ob =
     and_then (assert_that (span_id ob = sid)) (\<lambda>_.
     and_then (assert_that (parent_span_id ob = parent)) (\<lambda>_.
     and_then (case opname of Some n \<Rightarrow> assert_that (operation_name ob = n) | None \<Rightarrow> Inr ()) (\<lambda>_.
     and_then (assert_that (peer ob = pr)) (\<lambda>_.
     and_then (assert_that (span_type ob = stype)) (\<lambda>_.
     and_then (assert_that (span_layer ob = layer)) (\<lambda>_.
     and_then (assert_that (component_id ob = 11000)) (\<lambda>_.
     and_then (assert_that (is_error ob = False)) (\<lambda>_.
     and_then (assert_that (length (tags ob) = 0)) (\<lambda>_.
     and_then (assert_that (length (logs ob) = 0)) (\<lambda>_.
       assert_that (length (refs ob) = nrefs)))))))))))"

definition check_ref ::
  "RefType \<Rightarrow> i32 \<Rightarrow> string \<Rightarrow> string \<Rightarrow> string \<Rightarrow> string \<Rightarrow> SegmentReference \<Rightarrow> unit res" where
  "check_ref rtype parent srv inst endpoint address r =
     and_then (assert_that (ref_type r = rtype)) (\<lambda>_.
     and_then (assert_that (ref_parent_span_id r = parent)) (\<lambda>_.
     and_then (assert_that (parent_service r = srv)) (\<lambda>_.
     and_then (assert_that (parent_service_instance r = inst)) (\<lambda>_.
     and_then (assert_that (parent_endpoint r = endpoint)) (\<lambda>_.
       assert_that (network_address_used_at_peer r = address))))))"

definition check_segment :: "SegmentObject \<Rightarrow> unit res" where
  "check_segment seg =
     and_then (assert_that (seg_service_instance seg = ''node_0'')) (\<lambda>_.
     if seg_service seg = ''consumer'' then
       and_then (assert_that (length (seg_spans seg) = 1)) (\<lambda>_.
       and_then (index (seg_spans seg) 0) (\<lambda>s0.
       and_then (check_span 0 (-1) (Some ''/pong'') [] Entry Http 1 s0) (\<lambda>_.
       and_then (index (refs s0) 0) (\<lambda>r.
         check_ref CrossProcess 1 ''producer'' ''node_0'' ''/pong'' ''127.0.0.1:8082'' r))))
     else if seg_service seg = ''producer'' then
       (case last_opt (seg_spans seg) of
          None \<Rightarrow> Inl unwrap_none_panic
        | Some l \<Rightarrow>
            if operation_name l = ''/ping'' then
              and_then (assert_that (length (seg_spans seg) = 3)) (\<lambda>_.
              and_then (index (seg_spans seg) 0) (\<lambda>s0.
              and_then (check_span 1 0 (Some ''/pong'') ''127.0.0.1:8082'' Exit Unknown 0 s0) (\<lambda>_.
              and_then (index (seg_spans seg) 1) (\<lambda>s1.
              and_then (check_span 2 0 (Some ''async-job'') [] Local Unknown 0 s1) (\<lambda>_.
              and_then (index (seg_spans seg) 2) (\<lambda>s2.
                check_span 0 (-1) (Some ''/ping'') [] Entry Http 0 s2))))))
            else if operation_name l = ''async-callback'' then
              and_then (assert_that (length (seg_spans seg) = 1)) (\<lambda>_.
              and_then (index (seg_spans seg) 0) (\<lambda>s0.
              and_then (check_span 0 (-1) None [] Entry Http 1 s0) (\<lambda>_.
              and_then (index (refs s0) 0) (\<lambda>r.
                check_ref CrossThread 2 ''producer'' ''node_0'' ''async-job'' [] r))))
            else Inl (Panic (''unknown operation_name '' @ operation_name l)))
     else Inl (Panic (''unknown service '' @ seg_service seg)))"

section \<open>Meters\<close>

definition is_label :: "string \<Rightarrow> string \<Rightarrow> Label \<Rightarrow> bool" where
  "is_label n v l \<longleftrightarrow> label_name l = n \<and> label_value l = v"

definition check_label :: "string \<Rightarrow> string \<Rightarrow> Label list \<Rightarrow> nat \<Rightarrow> unit res" where
  "check_label n v ls i = and_then (index ls i) (\<lambda>l. assert_that (is_label n v l))"

definition check_bucket :: "f64 \<Rightarrow> i64 \<Rightarrow> MeterBucketValue list \<Rightarrow> nat \<Rightarrow> unit res" where
  "check_bucket b n vs i =
     and_then (index vs i) (\<lambda>v. and_then (assert_that (f64_eq (mbv_bucket v) b)) (\<lambda>_.
       assert_that (mbv_count v = n)))"

definition check_meter :: "MeterData \<Rightarrow> unit res" where
  "check_meter meter =
     and_then (assert_that (md_service meter = ''consumer'')) (\<lambda>_.
     and_then (assert_that (md_service_instance meter = ''node_0'')) (\<lambda>_.
     case md_metric meter of
       Some (SingleValue name labels value) \<Rightarrow>
         and_then (assert_that (name = ''instance_trace_count'')) (\<lambda>_.
         and_then (index labels 0) (\<lambda>l0.
         if is_label ''region'' ''us-west'' l0 then
           and_then (check_label ''az'' ''az-1'' labels 1) (\<lambda>_. assert_that (f64_eq value (f64_of_nat 30)))
         else if is_label ''region'' ''us-east'' l0 then
           and_then (check_label ''az'' ''az-3'' labels 1) (\<lambda>_. assert_that (f64_eq value (f64_of_nat 20)))
         else Inl (Panic ''unknown label'')))
     | Some (HistogramValues name labels values) \<Rightarrow>
         and_then (assert_that (name = ''instance_trace_count'')) (\<lambda>_.
         and_then (check_label ''region'' ''us-north'' labels 0) (\<lambda>_.
         and_then (check_label ''az'' ''az-1'' labels 1) (\<lambda>_.
         and_then (check_bucket (f64_of_nat 10) 1 values 0) (\<lambda>_.
         and_then (check_bucket (f64_of_nat 20) 2 values 1) (\<lambda>_.
           check_bucket (f64_of_nat 30) 0 values 2)))))
     | None \<Rightarrow> Inl (Panic ''unknown metric'')))"

section \<open>Logs\<close>

definition level_tags :: "string \<Rightarrow> KeyStringValuePair list option" where
  "level_tags l = Some [\<lparr>kv_key = ''level'', kv_value = l\<rparr>]"

definition log_content :: "LogData \<Rightarrow> Content option res" where
  "log_content l = (case ld_body l of Some b \<Rightarrow> Inr (body_content b) | None \<Rightarrow> Inl unwrap_none_panic)"

definition check_log :: "LogData \<Rightarrow> unit res" where
  "check_log l =
     (if ld_service l = ''producer'' \<and> ld_service_instance l = ''node_0'' then
        and_then (assert_that (ld_endpoint l = ''/ping'')) (\<lambda>_.
        and_then (log_content l) (\<lambda>c.
        case c of
          Some (Json json) \<Rightarrow>
            and_then (assert_that (json = ''{\"message\": \"handle ping\"}'')) (\<lambda>_.
            and_then (assert_that (ld_trace_context l = None)) (\<lambda>_.
              assert_that (ld_tags l = level_tags ''DEBUG'')))
        | Some (Text txt) \<Rightarrow>
            and_then (assert_that (txt = ''do http request'')) (\<lambda>_.
            case ld_trace_context l of
              None \<Rightarrow> Inl unwrap_none_panic
            | Some t \<Rightarrow>
                and_then (assert_that (tctx_span_id t = 1)) (\<lambda>_.
                  assert_that (ld_tags l = level_tags ''INFO'')))
        | _ \<Rightarrow> Inl (Panic ''unknown log body'')))
      else if ld_service l = ''consumer'' \<and> ld_service_instance l = ''node_0'' then
        and_then (assert_that (ld_endpoint l = ''/pong'')) (\<lambda>_.
        and_then (log_content l) (\<lambda>c.
        and_then (assert_that (c = Some (Json ''{\"message\": \"handle pong\"}''))) (\<lambda>_.
        and_then (assert_that (ld_trace_context l = None)) (\<lambda>_.
          assert_that (ld_tags l = level_tags ''DEBUG'')))))
      else Inl (Panic (''unknown log '' @ ld_service l @ '' '' @ ld_service_instance l)))"

section \<open>Reading the topics\<close>

text \<open>
  A topic is the sequence of the items sent to it; \<open>consumer_recv\<close> takes the next message and decodes
  it (the wire format of \<open>prost\<close> is not part of the model), and panics after the timeout when there
  is none.
\<close>

fun as_segment :: "CollectItem \<Rightarrow> SegmentObject option" where
  "as_segment (Trace s) = Some s" | "as_segment _ = None"

fun as_meter :: "CollectItem \<Rightarrow> MeterData option" where
  "as_meter (Meter m) = Some m" | "as_meter _ = None"

fun as_log :: "CollectItem \<Rightarrow> LogData option" where
  "as_log (Log l) = Some l" | "as_log _ = None"

definition consumer_recv :: "(CollectItem \<Rightarrow> 'm option) \<Rightarrow> CollectItem list \<Rightarrow> ('m \<times> CollectItem list) res" where
  "consumer_recv decode topic =
     (case topic of
        [] \<Rightarrow> Inl (Panic ''called `Result::unwrap()` on an `Err` value: Elapsed(())'')
      | x # rest \<Rightarrow>
          (case decode x of
             Some m \<Rightarrow> Inr (m, rest)
           | None \<Rightarrow> Inl (Panic ''called `Result::unwrap()` on an `Err` value: DecodeError'')))"

fun recv_and_check :: "nat \<Rightarrow> (CollectItem \<Rightarrow> 'm option) \<Rightarrow> ('m \<Rightarrow> unit res) \<Rightarrow> CollectItem list \<Rightarrow> unit res" where
  "recv_and_check 0 decode check topic = Inr ()"
| "recv_and_check (Suc n) decode check topic =
     and_then (consumer_recv decode topic) (\<lambda>(m, rest).
     and_then (check m) (\<lambda>_. recv_and_check n decode check rest))"

definition create_consumer :: "string \<Rightarrow> CollectItem list \<Rightarrow> CollectItem list" where
  "create_consumer topic sent = filter (\<lambda>x. fst (topic_and_key (TopicNames_new None) x) = topic) sent"

definition e2e_segment :: "CollectItem list \<Rightarrow> unit res" where
  "e2e_segment sent = recv_and_check 3 as_segment check_segment (create_consumer ''skywalking-segments'' sent)"

definition e2e_meter :: "CollectItem list \<Rightarrow> unit res" where
  "e2e_meter sent = recv_and_check 3 as_meter check_meter (create_consumer ''skywalking-meters'' sent)"

definition e2e_log :: "CollectItem list \<Rightarrow> unit res" where
  "e2e_log sent = recv_and_check 3 as_log check_log (create_consumer ''skywalking-logs'' sent)"

definition e2e_kafka_main :: "CollectItem list \<Rightarrow> unit res" where
  "e2e_kafka_main sent =
     and_then (e2e_segment sent) (\<lambda>_. and_then (e2e_meter sent) (\<lambda>_. e2e_log sent))"

end
