(* ===== verification/E2e_Run.thy ===== *)
theory E2e_Run
  imports E2e_Checks
begin

text \<open>
  One \<open>/ping\<close> through both services of the end-to-end set-up: what the handlers report, for every
  clock, all random numbers and any two accepting reporters, and that the checks of the reader hold
  of it.
\<close>

section \<open>Contracts of the libraries between the services\<close>

text \<open>Base64 text consists of visible ASCII characters, which a header value may contain.\<close>

definition header_char :: "char \<Rightarrow> bool" where
  "header_char c \<longleftrightarrow> (let k = of_char c :: nat in 32 \<le> k \<and> k < 127)"

locale base64_ascii = base64 +
  assumes encode_visible: "list_all header_char (b64_encode engine bs)"

text \<open>
  A request that was built with a header value of such characters carries it, with the method and
  the path it was built for; sending it runs the service behind the address, whose answer ends the
  call.
\<close>

locale http_link =
  fixes ht :: "'q http"
    and send :: "'q \<Rightarrow> 'p \<times> 'c \<Rightarrow> ('p \<times> 'c, unit) outcome"
    and service :: "'q \<Rightarrow> 'c \<Rightarrow> ('c, Response) outcome"
  assumes get_pong: "list_all header_char v \<Longrightarrow>
      \<exists>q. http_get ht ''http://127.0.0.1:8082/pong'' (k, v) = Inr q \<and>
        req_method ht q = ''GET'' \<and> req_path ht q = ''/pong'' \<and> req_header ht q k = Inr v"
    and send_served: "service q c = (c', Inr resp) \<Longrightarrow> send q (p, c) = ((p, c'), Inr ())"

lemma show_nat_visible: "list_all header_char (show_nat n)"
proof -
  have "digit_val c \<noteq> None \<Longrightarrow> header_char c" for c
    by (auto simp: digit_val_def header_char_def Let_def split: if_splits)
  then show ?thesis using show_nat_digits by (auto simp: list_all_iff)
qed

lemma i32_to_string_visible: "list_all header_char (i32_to_string w)"
  by (simp add: i32_to_string_def show_int_def show_nat_visible) (simp add: header_char_def)

context base64_ascii
begin

lemma header_visible: "list_all header_char (encode_propagation engine cs endpoint address)"
  by (simp add: encode_propagation_def encode_visible i32_to_string_visible split: prod.splits)
    (simp add: header_char_def)

end

section \<open>What the handlers report\<close>

definition callback_segment ::
  "build \<Rightarrow> (nat \<Rightarrow> SystemTime) \<Rightarrow> (nat \<Rightarrow> u128) \<Rightarrow> Tracer \<Rightarrow> ContextSnapshot \<Rightarrow> SegmentObject" where
  "callback_segment cfg clk ids t snap =
     \<lparr>seg_trace_id = snap_trace_id snap, seg_trace_segment_id = RandomGenerator_generate (ids 3),
      seg_spans = [close_obj (fetch_time cfg (clk 7) End) (Some (snapshot_ref t snap))
        (Span_new_obj cfg (clk 6) 0 (-1) ''async-callback'' [] Entry Http False)],
      seg_service = service_name t, seg_service_instance = instance_name t, is_size_limited = False\<rparr>"

definition ping_segment :: "build \<Rightarrow> (nat \<Rightarrow> SystemTime) \<Rightarrow> (nat \<Rightarrow> u128) \<Rightarrow> Tracer \<Rightarrow> SegmentObject" where
  "ping_segment cfg clk ids t =
     \<lparr>seg_trace_id = RandomGenerator_generate (ids 0), seg_trace_segment_id = RandomGenerator_generate (ids 1),
      seg_spans =
        [close_obj (fetch_time cfg (clk 4) End) None
           (Span_new_obj cfg (clk 2) 1 0 ''/pong'' ''127.0.0.1:8082'' Exit Unknown False),
         close_obj (fetch_time cfg (clk 8) End) None
           (Span_new_obj cfg (clk 5) 2 0 ''async-job'' [] Local Unknown False),
         close_obj (fetch_time cfg (clk 9) End) None
           (Span_new_obj cfg (clk 1) 0 (-1) ''/ping'' [] Entry Http False)],
      seg_service = service_name t, seg_service_instance = instance_name t, is_size_limited = False\<rparr>"

definition pong_segment ::
  "build \<Rightarrow> (nat \<Rightarrow> SystemTime) \<Rightarrow> (nat \<Rightarrow> u128) \<Rightarrow> Tracer \<Rightarrow> PropagationContext \<Rightarrow> SegmentObject" where
  "pong_segment cfg clk ids t pc =
     \<lparr>seg_trace_id = pc_parent_trace_id pc, seg_trace_segment_id = RandomGenerator_generate (ids 1),
      seg_spans = [close_obj (fetch_time cfg (clk 2) End) None
        ((Span_new_obj cfg (clk 1) 0 (-1) ''/pong'' [] Entry Http False)
           \<lparr>refs := [propagation_ref (pc_parent_trace_id pc) pc]\<rparr>)],
      seg_service = service_name t, seg_service_instance = instance_name t, is_size_limited = False\<rparr>"

lemmas frame_defs =
  with_context_def in_context_def with_span_guard_def on_context_def on_world_def drop_span_def drop_context_def
  global_create_trace_context_def global_tracer_def create_trace_context_def TracingContext_new_def
  SpanStack_default_def TracingContext_drop_def upgrade_tracer_def finalize_context_def
  convert_to_segment_object_def Span_drop_def finalize_span_def pop_active_def

lemmas create_defs =
  create_span_def inc_next_span_id_def add_i32_def push_active_span_def generate_span_uid_def
  Span_new_def ActiveSpan_new_def parent_or_root_def peek_active_span_id_def active_span_def last_opt_def
  create_entry_span_def create_exit_span_def create_local_span_def create_common_span_def

lemma async_callback_reports:
  assumes "ContextSnapshot_is_valid snap"
  shows "async_callback report cfg clk ids (Some t) snap w = report (Trace (callback_segment cfg clk ids t snap)) w"
  using assms
  by (cases "report (Trace (callback_segment cfg clk ids t snap)) w"; cases "snd (report (Trace (callback_segment cfg clk ids t snap)) w)")
    (simp_all add: async_callback_def frame_defs create_defs continued_def active_span_mut_def callback_segment_def
      FinalizeSpan_new_def Let_def)

lemma handle_pong_reports:
  assumes "GLOBAL_TRACER g = Some t" and "req_header ht req SKYWALKING_HTTP_CONTEXT_HEADER_KEY = Inr h"
    and "decode_propagation engine h = Inr pc"
    and "global_log report cfg (clk 0) (GLOBAL_LOGGER g) pong_record w = (w1, Inr ())"
    and "report (Trace (pong_segment cfg clk ids t pc)) w1 = (w2, Inr ())"
  shows "handle_pong engine ht report cfg clk ids g req w = (w2, Inr ok_response)"
  using assms
  by (simp add: handle_pong_def frame_defs create_defs create_entry_span_with_propagation_def span_object_mut_def
      pong_segment_def FinalizeSpan_new_def Let_def)

text \<open>The state in which the producer sends its request, the log record it writes there and the
  snapshot it takes afterwards.\<close>

definition ping_ctx :: "(nat \<Rightarrow> u128) \<Rightarrow> Tracer \<Rightarrow> TracingContext \<times> SpanStack" where
  "ping_ctx ids t =
     ((create_trace_context (ids 0) (ids 1) t)
        \<lparr>tc_next_span_id := 2, tc_primary_endpoint_name := ''/pong'', tc_span_uid_generator := 2\<rparr>,
      \<lparr>finalized = [], active = [ActiveSpan_new 0 0, ActiveSpan_new 1 1]\<rparr>)"

definition ping_request_record :: "(nat \<Rightarrow> u128) \<Rightarrow> LogRecord" where
  "ping_request_record ids = build_record
     [RTag ''level'' ''INFO'', REndpoint ''/ping'', RType TextType, RContent ''do http request'']
     \<lparr>lr_trace_id := Some (RandomGenerator_generate (ids 0)),
      lr_trace_segment_id := Some (RandomGenerator_generate (ids 1)), lr_span_id := Some 1\<rparr>"

definition ping_snapshot :: "(nat \<Rightarrow> u128) \<Rightarrow> ContextSnapshot" where
  "ping_snapshot ids =
     \<lparr>snap_trace_id = RandomGenerator_generate (ids 0), snap_trace_segment_id = RandomGenerator_generate (ids 1),
      snap_span_id = 2, snap_parent_endpoint = ''async-job''\<rparr>"

lemma ping_snapshot_valid: "ContextSnapshot_is_valid (ping_snapshot ids)"
  by (simp add: ping_snapshot_def ContextSnapshot_is_valid_def)

lemma handle_ping_reports:
  assumes "GLOBAL_TRACER g = Some t"
    and "global_log report cfg (clk 0) (GLOBAL_LOGGER g) ping_record w = (w1, Inr ())"
    and "http_get ht ''http://127.0.0.1:8082/pong'' (SKYWALKING_HTTP_CONTEXT_HEADER_KEY,
           encode_propagation engine (ping_ctx ids t) ''/pong'' ''127.0.0.1:8082'') = Inr req"
    and "global_log report cfg (clk 3) (GLOBAL_LOGGER g) (ping_request_record ids) w1 = (w2, Inr ())"
    and "send req w2 = (w3, Inr ())"
    and "report (Trace (callback_segment cfg clk ids t (ping_snapshot ids))) w3 = (w4, Inr ())"
    and "report (Trace (ping_segment cfg clk ids t)) w4 = (w5, Inr ())"
  shows "handle_ping engine ht send report cfg clk ids g w = (w5, Inr ok_response)"
proof -
  let ?st = "\<lparr>finalized = [], active = [ActiveSpan_new 0 0]\<rparr>"
  let ?tc = "(create_trace_context (ids 0) (ids 1) t)
    \<lparr>tc_next_span_id := 1, tc_primary_endpoint_name := ''/ping'', tc_span_uid_generator := 1\<rparr>"
  let ?fr = "\<lparr>fr_ctx = ?tc, fr_shared = \<lparr>sh_stack = ?st, sh_wg = WaitGroup_default\<rparr>, fr_world = w1\<rparr>"
  let ?exit = "close_obj (fetch_time cfg (clk 4) End) None
           (Span_new_obj cfg (clk 2) 1 0 ''/pong'' ''127.0.0.1:8082'' Exit Unknown False)"
  let ?job = "close_obj (fetch_time cfg (clk 8) End) None (Span_new_obj cfg (clk 5) 2 0 ''async-job'' [] Local Unknown False)"
  let ?fr1 = "\<lparr>fr_ctx = fst (ping_ctx ids t), fr_shared = \<lparr>sh_stack = ?st\<lparr>finalized := [FinalizeSpan_new 1 (Some ?exit) None]\<rparr>,
    sh_wg = WaitGroup_default\<rparr>, fr_world = w3\<rparr>"
  have req: "ping_request engine ht send report cfg clk g ?fr = (?fr1, Inr ())"
    using assms(3-5)
    by (simp add: ping_request_def frame_defs create_defs request_record_def record_defs ping_ctx_def
        ping_request_record_def build_record_def LogRecord_new_def FinalizeSpan_new_def Let_def)
  let ?fr2 = "\<lparr>fr_ctx = (fst (ping_ctx ids t))\<lparr>tc_next_span_id := 3, tc_primary_endpoint_name := ''async-job'', tc_span_uid_generator := 3\<rparr>,
    fr_shared = \<lparr>sh_stack = ?st\<lparr>finalized := [FinalizeSpan_new 1 (Some ?exit) None, FinalizeSpan_new 2 (Some ?job) None]\<rparr>,
      sh_wg = WaitGroup_default\<rparr>, fr_world = w4\<rparr>"
  have async: "ping_async report cfg clk ids g ?fr1 = (?fr2, Inr ())"
    using assms(1,6) async_callback_reports [OF ping_snapshot_valid, of report cfg clk ids t ids w3]
    by (simp add: ping_async_def frame_defs create_defs ping_ctx_def capture_def ping_snapshot_def
        join_unwrap_def FinalizeSpan_new_def Let_def)
  have "handle_ping engine ht send report cfg clk ids g w =
      with_context report (Some t) (ids 0) (ids 1)
         (with_span_guard cfg (clk 9) (create_entry_span cfg (clk 1) ''/ping'') (\<lambda>_ fr.
            seq (ping_request engine ht send report cfg clk g fr) (\<lambda>_ fr.
            seq (ping_async report cfg clk ids g fr) (\<lambda>_ fr. (fr, Inr ok_response))))) w1"
    using assms(1,2) by (simp add: handle_ping_def)
  also have "\<dots> = (w5, Inr ok_response)"
    using req async assms(7)
    by (simp add: frame_defs create_defs ping_ctx_def ping_segment_def FinalizeSpan_new_def Let_def)
  finally show ?thesis .
qed

section \<open>One request, three linked segments\<close>

text \<open>The world of the handler is the producer's reporter beside the consumer's.\<close>

definition on_fst :: "'p report_fn \<Rightarrow> ('p \<times> 'c) report_fn" where
  "on_fst report x w = (case w of (p, c) \<Rightarrow> (case report x p of (p', r) \<Rightarrow> ((p', c), r)))"

lemma on_fst_Inr: "report x p = (p', Inr ()) \<Longrightarrow> on_fst report x (p, c) = ((p', c), Inr ())"
  by (simp add: on_fst_def)

text \<open>The messages, and that they pass the checks of the reader.\<close>

definition log_of :: "build \<Rightarrow> SystemTime \<Rightarrow> string \<Rightarrow> LogRecord \<Rightarrow> LogData" where
  "log_of cfg now srv r = convert_to_log_data cfg now srv ''node_0'' r"

lemma start_process_globals:
  "start_process m = Inr g \<Longrightarrow> GLOBAL_TRACER g = Some (Tracer_new m ''node_0'') \<and> GLOBAL_LOGGER g = Some (Logger_new m ''node_0'')"
  by (auto simp: start_process_def start_globals_def set_global_tracer_def set_global_logger_def split: if_splits)

lemma global_log_reports:
  assumes "start_process m = Inr g"
  shows "global_log report cfg now (GLOBAL_LOGGER g) r w = report (Log (log_of cfg now m r)) w"
  using start_process_globals [OF assms]
  by (simp add: global_log_def global_logger_def Logger_log_def Logger_new_def log_of_def)

lemmas log_defs = log_of_def convert_to_log_data_def record_defs LogRecord_new_def log_content_def
  level_tags_def kv_pair_def Let_def

lemma ping_logs_pass:
  "check_log (log_of cfg now ''producer'' ping_record) = Inr ()"
  "check_log (log_of cfg now ''consumer'' pong_record) = Inr ()"
  "check_log (log_of cfg now ''producer'' (ping_request_record ids)) = Inr ()"
  by (simp_all add: check_log_def ping_record_def pong_record_def ping_request_record_def build_record_def log_defs)

lemma ping_request_log_context:
  "ld_trace_context (log_of cfg now srv (ping_request_record ids)) =
     Some \<lparr>tctx_trace_id = RandomGenerator_generate (ids 0),
       tctx_trace_segment_id = RandomGenerator_generate (ids 1), tctx_span_id = 1\<rparr>"
  by (simp add: ping_request_record_def build_record_def log_defs)

lemma new_obj_more [simp]:
  "span_layer (Span_new_obj cfg now i p n r t l s) = l"
  "component_id (Span_new_obj cfg now i p n r t l s) = 11000"
  "is_error (Span_new_obj cfg now i p n r t l s) = False"
  "tags (Span_new_obj cfg now i p n r t l s) = []"
  "logs (Span_new_obj cfg now i p n r t l s) = []"
  by (simp_all add: Span_new_obj_def SKYWALKING_RUST_COMPONENT_ID_def)

lemma close_obj_more [simp]:
  "component_id (close_obj e r ob) = component_id ob"
  "is_error (close_obj e r ob) = is_error ob"
  by (simp_all add: close_obj_def)

lemma segments_pass:
  "check_segment (ping_segment cfg clk ids (Tracer_new ''producer'' ''node_0'')) = Inr ()"
  "check_segment (callback_segment cfg clk ids (Tracer_new ''producer'' ''node_0'') (ping_snapshot ids)) = Inr ()"
  "check_segment (pong_segment cfg clk ids (Tracer_new ''consumer'' ''node_0'')
     (PropagationContext_new True tid seg 1 ''producer'' ''node_0'' ''/pong'' ''127.0.0.1:8082'')) = Inr ()"
  by (simp_all add: check_segment_def ping_segment_def callback_segment_def pong_segment_def check_span_def
      check_ref_def Tracer_new_def last_opt_def ping_snapshot_def snapshot_ref_def propagation_ref_def
      PropagationContext_new_def)

lemma ping_header_decodes:
  assumes "base64 engine"
  shows "decode_propagation engine
      (encode_propagation engine (ping_ctx ids (Tracer_new ''producer'' ''node_0'')) ''/pong'' ''127.0.0.1:8082'') =
    Inr (PropagationContext_new True (RandomGenerator_generate (ids 0)) (RandomGenerator_generate (ids 1)) 1
      ''producer'' ''node_0'' ''/pong'' ''127.0.0.1:8082'')"
proof -
  let ?c = "ping_ctx ids (Tracer_new ''producer'' ''node_0'')"
  have ascii: "utf8_valid ''producer''" "utf8_valid ''node_0''" "utf8_valid ''/pong''" "utf8_valid ''127.0.0.1:8082''"
    by code_simp+
  have id: "header_span_id (snd ?c) = 1"
    by (simp add: ping_ctx_def header_span_id_def peek_active_span_id_def active_span_def ActiveSpan_new_def last_opt_def)
  have "ctx_utf8 (fst ?c)"
    using ascii by (simp add: ctx_utf8_def ping_ctx_def create_trace_context_def TracingContext_new_def Tracer_new_def)
  from base64.decode_encoded_header [OF assms this ascii(3,4), of "snd ?c"] id show ?thesis
    by (simp add: ping_ctx_def create_trace_context_def TracingContext_new_def Tracer_new_def)
qed

text \<open>The run, with the messages named.\<close>

lemma ping_pong_run:
  assumes engine: "base64_ascii engine"
    and link: "http_link ht send (consumer_response engine ht rc cfg' clk' ids' gc)"
    and g: "start_process ''producer'' = Inr gp" "start_process ''consumer'' = Inr gc"
    and rp: "reporter rp dp ap" "ap p" and rc: "reporter rc dc ac" "ac c"
  shows "\<exists>p' c'. handle_ping engine ht send (on_fst rp) cfg clk ids gp (p, c) = ((p', c'), Inr ok_response) \<and>
    dp p' = dp p @ [Log (log_of cfg (clk 0) ''producer'' ping_record),
      Log (log_of cfg (clk 3) ''producer'' (ping_request_record ids)),
      Trace (callback_segment cfg clk ids (Tracer_new ''producer'' ''node_0'') (ping_snapshot ids)),
      Trace (ping_segment cfg clk ids (Tracer_new ''producer'' ''node_0''))] \<and>
    dc c' = dc c @ [Log (log_of cfg' (clk' 0) ''consumer'' pong_record),
      Trace (pong_segment cfg' clk' ids' (Tracer_new ''consumer'' ''node_0'')
        (PropagationContext_new True (RandomGenerator_generate (ids 0)) (RandomGenerator_generate (ids 1)) 1
          ''producer'' ''node_0'' ''/pong'' ''127.0.0.1:8082''))]"
proof -
  let ?t = "Tracer_new ''producer'' ''node_0''"
  let ?h = "encode_propagation engine (ping_ctx ids ?t) ''/pong'' ''127.0.0.1:8082''"
  obtain q where q: "http_get ht ''http://127.0.0.1:8082/pong'' (SKYWALKING_HTTP_CONTEXT_HEADER_KEY, ?h) = Inr q"
    "req_method ht q = ''GET''" "req_path ht q = ''/pong''" "req_header ht q SKYWALKING_HTTP_CONTEXT_HEADER_KEY = Inr ?h"
    using http_link.get_pong [OF link base64_ascii.header_visible [OF engine]] by blast
  note p_step = reporter.report_accepting [OF rp(1)] and c_step = reporter.report_accepting [OF rc(1)]
  obtain p1 where p1: "rp (Log (log_of cfg (clk 0) ''producer'' ping_record)) p = (p1, Inr ())" "ap p1"
    "dp p1 = dp p @ [Log (log_of cfg (clk 0) ''producer'' ping_record)]"
    using p_step [OF rp(2)] by blast
  obtain p2 where p2: "rp (Log (log_of cfg (clk 3) ''producer'' (ping_request_record ids))) p1 = (p2, Inr ())" "ap p2"
    "dp p2 = dp p1 @ [Log (log_of cfg (clk 3) ''producer'' (ping_request_record ids))]"
    using p_step [OF p1(2)] by blast
  obtain p3 where p3: "rp (Trace (callback_segment cfg clk ids ?t (ping_snapshot ids))) p2 = (p3, Inr ())" "ap p3"
    "dp p3 = dp p2 @ [Trace (callback_segment cfg clk ids ?t (ping_snapshot ids))]"
    using p_step [OF p2(2)] by blast
  obtain p4 where p4: "rp (Trace (ping_segment cfg clk ids ?t)) p3 = (p4, Inr ())"
    "dp p4 = dp p3 @ [Trace (ping_segment cfg clk ids ?t)]"
    using p_step [OF p3(2)] by blast
  obtain c1 where c1: "rc (Log (log_of cfg' (clk' 0) ''consumer'' pong_record)) c = (c1, Inr ())" "ac c1"
    "dc c1 = dc c @ [Log (log_of cfg' (clk' 0) ''consumer'' pong_record)]"
    using c_step [OF rc(2)] by blast
  let ?pc = "PropagationContext_new True (RandomGenerator_generate (ids 0)) (RandomGenerator_generate (ids 1)) 1
      ''producer'' ''node_0'' ''/pong'' ''127.0.0.1:8082''"
  obtain c2 where c2: "rc (Trace (pong_segment cfg' clk' ids' (Tracer_new ''consumer'' ''node_0'') ?pc)) c1 = (c2, Inr ())"
    "dc c2 = dc c1 @ [Trace (pong_segment cfg' clk' ids' (Tracer_new ''consumer'' ''node_0'') ?pc)]"
    using c_step [OF c1(2)] by blast
  have "global_log rc cfg' (clk' 0) (GLOBAL_LOGGER gc) pong_record c = (c1, Inr ())"
    by (simp only: global_log_reports [OF g(2)] c1(1))
  from handle_pong_reports [where clk = clk' and report = rc, OF start_process_globals [OF g(2), THEN conjunct1] q(4)
      ping_header_decodes [OF base64_ascii.axioms(1) [OF engine], of ids] this c2(1)]
  have "handle_pong engine ht rc cfg' clk' ids' gc q c = (c2, Inr ok_response)" .
  then have pong: "consumer_response engine ht rc cfg' clk' ids' gc q c = (c2, Inr ok_response)"
    using q(2,3) by (simp add: consumer_response_def)
  have "global_log (on_fst rp) cfg (clk 0) (GLOBAL_LOGGER gp) ping_record (p, c) = ((p1, c), Inr ())"
    "global_log (on_fst rp) cfg (clk 3) (GLOBAL_LOGGER gp) (ping_request_record ids) (p1, c) = ((p2, c), Inr ())"
    by (simp_all only: global_log_reports [OF g(1)] on_fst_Inr [where report = rp, OF p1(1)] on_fst_Inr [where report = rp, OF p2(1)])
  from handle_ping_reports [where clk = clk and send = send and report = "on_fst rp", OF start_process_globals [OF g(1), THEN conjunct1] this(1) q(1) this(2)
      http_link.send_served [OF link pong] on_fst_Inr [where report = rp, OF p3(1)] on_fst_Inr [where report = rp, OF p4(1)]]
  have "handle_ping engine ht send (on_fst rp) cfg clk ids gp (p, c) = ((p4, c2), Inr ok_response)" .
  with p1 p2 p3 p4 c1 c2 show ?thesis by auto
qed

text \<open>C9. One request, one distributed trace: a \<open>/ping\<close> that the producer answers with a request to the
  consumer and a task on another thread runs to the end without a panic, for every clock, all random
  numbers and any accepting reporters.  The producer reports its two log records, the segment of the
  task and its own segment, in this order; the consumer its log record and its segment.  All three
  segments belong to one trace; the references of the task's and of the consumer's segment name the
  producer's segment, in which the spans they name (2 and 1) are the local job and the exit span,
  and the log record written inside the exit span points to it.  Every message passes the checks of
  the end-to-end reader.\<close>

theorem ping_pong_is_one_distributed_trace:
  assumes "base64_ascii engine"
    and "http_link ht send (consumer_response engine ht rc cfg' clk' ids' gc)"
    and "start_process ''producer'' = Inr gp" and "start_process ''consumer'' = Inr gc"
    and "reporter rp dp ap" and "ap p" and "reporter rc dc ac" and "ac c"
  shows "\<exists>p' c' l1 l2 task ping l3 pong.
    handle_ping engine ht send (on_fst rp) cfg clk ids gp (p, c) = ((p', c'), Inr ok_response) \<and>
    dp p' = dp p @ [Log l1, Log l2, Trace task, Trace ping] \<and> dc c' = dc c @ [Log l3, Trace pong] \<and>
    list_all (\<lambda>s. check_segment s = Inr () \<and> seg_trace_id s = seg_trace_id ping) [task, ping, pong] \<and>
    list_all (\<lambda>l. check_log l = Inr ()) [l1, l2, l3] \<and>
    list_all (\<lambda>s. \<forall>r \<in> set (concat (map refs (seg_spans s))). ref_trace_id r = seg_trace_id ping \<and>
        parent_trace_segment_id r = seg_trace_segment_id ping) [task, pong] \<and>
    map (\<lambda>ob. (span_id ob, operation_name ob, span_type ob)) (seg_spans ping) =
      [(1, ''/pong'', Exit), (2, ''async-job'', Local), (0, ''/ping'', Entry)] \<and>
    ld_trace_context l2 = Some \<lparr>tctx_trace_id = seg_trace_id ping,
      tctx_trace_segment_id = seg_trace_segment_id ping, tctx_span_id = 1\<rparr>"
proof -
  let ?t = "Tracer_new ''producer'' ''node_0''"
  let ?task = "callback_segment cfg clk ids ?t (ping_snapshot ids)" and ?ping = "ping_segment cfg clk ids ?t"
  let ?pong = "pong_segment cfg' clk' ids' (Tracer_new ''consumer'' ''node_0'')
      (PropagationContext_new True (RandomGenerator_generate (ids 0)) (RandomGenerator_generate (ids 1)) 1
          ''producer'' ''node_0'' ''/pong'' ''127.0.0.1:8082'')"
  have ids: "seg_trace_id ?ping = RandomGenerator_generate (ids 0)"
      "seg_trace_segment_id ?ping = RandomGenerator_generate (ids 1)"
      "seg_trace_id ?task = RandomGenerator_generate (ids 0)" "seg_trace_id ?pong = RandomGenerator_generate (ids 0)"
    by (simp_all add: ping_segment_def callback_segment_def pong_segment_def ping_snapshot_def PropagationContext_new_def)
  have refs: "\<forall>r \<in> set (concat (map refs (seg_spans s))). ref_trace_id r = RandomGenerator_generate (ids 0) \<and>
      parent_trace_segment_id r = RandomGenerator_generate (ids 1)" if "s = ?task \<or> s = ?pong" for s
    using that by (auto simp: callback_segment_def pong_segment_def ping_snapshot_def PropagationContext_new_def
        snapshot_ref_def propagation_ref_def)
  have spans: "map (\<lambda>ob. (span_id ob, operation_name ob, span_type ob)) (seg_spans ?ping) =
      [(1, ''/pong'', Exit), (2, ''async-job'', Local), (0, ''/ping'', Entry)]"
    by (simp add: ping_segment_def)
  from ping_pong_run [OF assms, of cfg clk ids] obtain p' c' where
    "handle_ping engine ht send (on_fst rp) cfg clk ids gp (p, c) = ((p', c'), Inr ok_response)"
    "dp p' = dp p @ [Log (log_of cfg (clk 0) ''producer'' ping_record),
      Log (log_of cfg (clk 3) ''producer'' (ping_request_record ids)), Trace ?task, Trace ?ping]"
    "dc c' = dc c @ [Log (log_of cfg' (clk' 0) ''consumer'' pong_record), Trace ?pong]" by blast
  moreover have "list_all (\<lambda>s. check_segment s = Inr () \<and> seg_trace_id s = seg_trace_id ?ping) [?task, ?ping, ?pong]"
    using ids segments_pass by (simp del: One_nat_def)
  moreover have "list_all (\<lambda>s. \<forall>r \<in> set (concat (map refs (seg_spans s))). ref_trace_id r = seg_trace_id ?ping \<and>
        parent_trace_segment_id r = seg_trace_segment_id ?ping) [?task, ?pong]"
    unfolding ids using refs [of ?task] refs [of ?pong] by (simp del: One_nat_def)
  moreover have "list_all (\<lambda>l. check_log l = Inr ()) [log_of cfg (clk 0) ''producer'' ping_record,
      log_of cfg (clk 3) ''producer'' (ping_request_record ids), log_of cfg' (clk' 0) ''consumer'' pong_record]"
    by (simp add: ping_logs_pass)
  moreover have "ld_trace_context (log_of cfg (clk 3) ''producer'' (ping_request_record ids)) =
      Some \<lparr>tctx_trace_id = seg_trace_id ?ping, tctx_trace_segment_id = seg_trace_segment_id ?ping, tctx_span_id = 1\<rparr>"
    unfolding ids by (rule ping_request_log_context)
  ultimately show ?thesis using spans by - ((rule exI conjI | assumption)+)
qed

text \<open>Concrete libraries: RFC 4648, and a request that is its method, path and header.\<close>

lemma b64_char_visible: "header_char (b64_char n)"
  by (auto simp: header_char_def b64_char_def Let_def of_char_of)

interpretation rfc4648a: base64_ascii rfc4648
proof unfold_locales
  fix bs
  show "list_all header_char (b64_encode rfc4648 bs)"
    unfolding rfc4648_def
    by (induction bs rule: rfc4648_encode.induct)
      (simp_all add: b64_char_visible Let_def, simp_all add: header_char_def)
qed

definition uri_path :: "string \<Rightarrow> string" where
  "uri_path u = dropWhile (\<lambda>c. c \<noteq> CHR ''/'') (drop 7 u)"

definition plain_http :: "(string \<times> string \<times> string \<times> string) http" where
  "plain_http = \<lparr>http_get = (\<lambda>u (k, v). if list_all header_char v then Inr (''GET'', uri_path u, k, v)
       else Inl (Panic ''called `Result::unwrap()` on an `Err` value'')),
     req_method = (\<lambda>(m, p, k, v). m), req_path = (\<lambda>(m, p, k, v). p),
     req_header = (\<lambda>(m, p, k, v) key. if key = k then Inr v else Inl (Panic ''no entry found for key''))\<rparr>"

definition plain_send :: "('q \<Rightarrow> 'c \<Rightarrow> ('c, Response) outcome) \<Rightarrow> 'q \<Rightarrow> 'p \<times> 'c \<Rightarrow> ('p \<times> 'c, unit) outcome" where
  "plain_send service q w =
     (case w of (p, c) \<Rightarrow>
        (case service q c of
           (c', Inr _) \<Rightarrow> ((p, c'), Inr ())
         | (c', Inl _) \<Rightarrow> ((p, c'), Inl (Panic ''called `Result::unwrap()` on an `Err` value: hyper::Error''))))"

interpretation plain: http_link plain_http "plain_send service" service for service
  by unfold_locales (simp_all add: plain_http_def plain_send_def uri_path_def)

definition no_output :: "PrintReporter \<times> console" where
  "no_output = (PrintReporter_new, \<lparr>stdout_lines = [], stderr_lines = []\<rparr>)"

definition e2e_globals :: "string \<Rightarrow> Globals" where
  "e2e_globals m = \<lparr>GLOBAL_TRACER = Some (Tracer_new m ''node_0''), GLOBAL_LOGGER = Some (Logger_new m ''node_0'')\<rparr>"

lemma e2e_globals_start: "start_process ''producer'' = Inr (e2e_globals ''producer'')"
  "start_process ''consumer'' = Inr (e2e_globals ''consumer'')"
  by (simp_all add: start_process_def start_globals_def set_global_tracer_def set_global_logger_def e2e_globals_def)

theorem ping_pong_is_one_distributed_trace_witness:
  "\<exists>p' c' l1 l2 task ping l3 pong.
    handle_ping rfc4648 plain_http
      (plain_send (consumer_response rfc4648 plain_http PrintReporter_report release_build (\<lambda>n. int n) (\<lambda>n. of_nat (n + 7))
        (e2e_globals ''consumer''))) (on_fst PrintReporter_report) release_build (\<lambda>n. int n) of_nat
      (e2e_globals ''producer'') (no_output, no_output) = ((p', c'), Inr ok_response) \<and>
    printed p' = printed no_output @ [Log l1, Log l2, Trace task, Trace ping] \<and>
    printed c' = printed no_output @ [Log l3, Trace pong] \<and>
    seg_trace_id pong = seg_trace_id ping \<and> seg_trace_id task = seg_trace_id ping"
  using ping_pong_is_one_distributed_trace [OF rfc4648a.base64_ascii_axioms plain.http_link_axioms e2e_globals_start
      print.reporter_axioms TrueI print.reporter_axioms TrueI, of release_build "\<lambda>n. int n" "\<lambda>n. of_nat (n + 7)"
        release_build "\<lambda>n. int n" of_nat no_output no_output]
  by fastforce

section \<open>The meters of the consumer\<close>

definition filled_counter :: Counter where
  "filled_counter = Counter_increment (f64_of_nat 20) (Counter_increment (f64_of_nat 10) consumer_counter)"

definition filled_histogram :: Histogram where
  "filled_histogram = fst (Histogram_add_value (f64_of_nat 20) (fst (Histogram_add_value (f64_of_nat 29)
     (fst (Histogram_add_value (f64_of_nat 10) consumer_histogram)))))"

lemma filled_counter_value: "ctr_count filled_counter = f64_of_nat 30"
  unfolding filled_counter_def consumer_counter_def Counter_increment_def Counter_add_label_def Counter_new_def
  using f64_add_of_nat [of 0 10] f64_add_of_nat [of 10 20] by (simp add: f64_of_nat_0)

lemma filled_histogram_buckets:
  "hg_buckets filled_histogram =
     [\<lparr>bk_bucket = f64_of_nat 10, bk_count = 1\<rparr>, \<lparr>bk_bucket = f64_of_nat 20, bk_count = 2\<rparr>,
      \<lparr>bk_bucket = f64_of_nat 30, bk_count = 0\<rparr>]"
  by (simp add: filled_histogram_def consumer_histogram_def cmp_or_equal_def f64_eq_def f64_partial_cmp_of_nat int_cmp_def
      Histogram_new_def Histogram_add_label_def Histogram_add_value_def find_bucket_def binary_search_by_def
      bs_loop.simps sort_by_def Bucket_new_def)

definition consumer_heap :: "'e meter list" where
  "consumer_heap = [MCounter filled_counter, MGauge consumer_gauge, MHistogram filled_histogram]"

definition consumer_map :: "MeterId \<rightharpoonup> nat" where
  "consumer_map = [ctr_id filled_counter \<mapsto> 0, gg_id (consumer_gauge :: unit Gauge) \<mapsto> 1, hg_id filled_histogram \<mapsto> 2]"

lemmas meter_defs = consumer_counter_def consumer_gauge_def consumer_histogram_def filled_counter_def filled_histogram_def
  Counter_new_def Counter_add_label_def Counter_increment_def Gauge_new_def Gauge_add_label_def Histogram_new_def
  Histogram_add_label_def MeterId_add_label_def

lemma hg_id_add_value [simp]: "hg_id (fst (Histogram_add_value v h)) = hg_id h"
  by (simp add: Histogram_add_value_def split: option.splits)

definition consumer_metricer :: Metricer where
  "consumer_metricer = (Metricer_new ''consumer'' ''node_0'')\<lparr>meter_map := consumer_map\<rparr>"

lemma run_consumer_metric_boot:
  "run_consumer_metric (Metricer_new ''consumer'' ''node_0'') r = Metricer_boot consumer_metricer consumer_heap r"
  by (simp add: run_consumer_metric_def register_def consumer_metricer_def consumer_map_def consumer_heap_def
      update_meters_def Metricer_new_def meter_defs numeral_2_eq_2)

lemma consumer_meters:
  "registry_ok consumer_map consumer_heap" "card (dom consumer_map) = 3"
  by (auto simp: registry_ok_def consumer_map_def consumer_heap_def meter_defs card_insert_if split: if_splits)

lemma consumer_meter_fields [simp]:
  "meter_labels (ctr_id filled_counter) =
     [\<lparr>label_name = ''region'', label_value = ''us-west''\<rparr>, \<lparr>label_name = ''az'', label_value = ''az-1''\<rparr>]"
  "meter_labels (gg_id consumer_gauge) =
     [\<lparr>label_name = ''region'', label_value = ''us-east''\<rparr>, \<lparr>label_name = ''az'', label_value = ''az-3''\<rparr>]"
  "meter_labels (hg_id filled_histogram) =
     [\<lparr>label_name = ''region'', label_value = ''us-north''\<rparr>, \<lparr>label_name = ''az'', label_value = ''az-1''\<rparr>]"
  "mid_name (ctr_id filled_counter) = ''instance_trace_count''"
  "mid_name (gg_id consumer_gauge) = ''instance_trace_count''"
  "mid_name (hg_id filled_histogram) = ''instance_trace_count''"
  "gg_getter consumer_gauge env = f64_of_nat 20" "ctr_mode filled_counter = INCREMENT"
  by (simp_all add: meter_labels_def meter_defs)

lemma consumer_meter_passes:
  assumes "m \<in> set consumer_heap"
  shows "fst (meter_transform cfg now env ''consumer'' ''node_0'' m) = m"
    and "check_meter (snd (meter_transform cfg now env ''consumer'' ''node_0'' m)) = Inr ()"
proof -
  have eq: "f64_eq (f64_of_nat n) (f64_of_nat n)" if "n < 2 ^ 53" for n
    using that by (simp add: f64_eq_def f64_partial_cmp_of_nat)
  show "fst (meter_transform cfg now env ''consumer'' ''node_0'' m) = m"
    using assms by (auto simp: consumer_heap_def Counter_transform_def)
  show "check_meter (snd (meter_transform cfg now env ''consumer'' ''node_0'' m)) = Inr ()"
    using assms eq filled_counter_value filled_histogram_buckets
    by (auto simp: consumer_heap_def Counter_transform_def Gauge_transform_def Histogram_transform_def single_value_def
        Counter_get_def Gauge_get_def check_meter_def is_label_def check_label_def check_bucket_def bucket_value_def)
qed

text \<open>After the start the program leaves its meters alone, so that every item the task reports passes.\<close>

fun leaves_meters :: "'e boot_event \<Rightarrow> bool" where
  "leaves_meters (AppUpdate a op) = False"
| "leaves_meters _ = True"

definition passing_meter :: "CollectItem \<Rightarrow> bool" where
  "passing_meter x \<longleftrightarrow> (\<exists>m. x = Meter m \<and> check_meter m = Inr ())"

context reporter
begin

lemma consumer_step:
  assumes "boot_step report cfg ev b = Some b'" and "leaves_meters ev"
    and "bt_metricer b = consumer_metricer" and "bt_heap b = consumer_heap" and "accepting (bt_reporter b)"
  shows "bt_metricer b' = consumer_metricer \<and> bt_heap b' = consumer_heap \<and> accepting (bt_reporter b') \<and>
    (\<exists>ms. delivered (bt_reporter b') = delivered (bt_reporter b) @ ms \<and> list_all passing_meter ms)"
proof (cases ev)
  case (CollectOne now env)
  with assms obtain i ids a where
    a: "bt_phase b = Collecting (i # ids)" "meter_map (bt_metricer b) i = Some a"
    by (auto split: boot_phase.splits list.splits option.splits)
  with assms(3) have "a < length consumer_heap"
    using consumer_meters(1) by (auto simp: registry_ok_def consumer_metricer_def)
  note m = consumer_meter_passes [OF nth_mem [OF this], of cfg now env]
  let ?md = "snd (meter_transform cfg now env ''consumer'' ''node_0'' (consumer_heap ! a))"
  obtain r' where "report (Meter ?md) (bt_reporter b) = (r', Inr ())"
    "delivered r' = delivered (bt_reporter b) @ [Meter ?md]" "accepting r'"
    using report_accepting [OF assms(5)] by blast
  with assms a m CollectOne show ?thesis
    by (auto simp: consumer_metricer_def Metricer_new_def passing_meter_def case_prod_beta)
qed (use assms in \<open>auto split: if_splits\<close>)

lemma consumer_run:
  assumes "boot_run report cfg evs b = Some b'" and "list_all leaves_meters evs"
    and "bt_metricer b = consumer_metricer" and "bt_heap b = consumer_heap" and "accepting (bt_reporter b)"
  shows "\<exists>ms. delivered (bt_reporter b') = delivered (bt_reporter b) @ ms \<and> list_all passing_meter ms"
  using assms
proof (induction evs arbitrary: b)
  case (Cons ev evs)
  then obtain b1 where b1: "boot_step report cfg ev b = Some b1" "boot_run report cfg evs b1 = Some b'"
    by (auto split: option.splits)
  with Cons.prems consumer_step [OF b1(1)] Cons.IH [OF b1(2)] show ?case by fastforce
qed simp

lemma consumer_reports:
  assumes run: "boot_run report cfg evs (run_consumer_metric (Metricer_new ''consumer'' ''node_0'') m) = Some b"
    and "list_all leaves_meters evs" and "accepting m" and "to_collect (bt_phase b) = []" and "1 \<le> passes evs"
  shows "\<exists>ms. delivered (bt_reporter b) = delivered m @ ms \<and> list_all passing_meter ms \<and> 3 \<le> length ms"
proof -
  let ?b = "Metricer_boot consumer_metricer consumer_heap m"
  note run' = run [unfolded run_consumer_metric_boot]
  obtain ms where ms: "delivered (bt_reporter b) = delivered m @ ms" "list_all passing_meter ms"
    using consumer_run [OF run' assms(2)] assms(3) by (auto simp: Metricer_boot_def)
  have "boot_inv delivered accepting consumer_map (delivered m) [] ?b"
    using assms(3) consumer_meters(1) by (simp add: boot_inv_def Metricer_boot_def consumer_metricer_def Metricer_new_def)
  from boot_run_inv [OF this run'] ms(1) assms(4) have "map item_key ms = map id_key (pass_orders evs)"
    by (auto simp: boot_inv_def)
  then have len: "length ms = length (pass_orders evs)" by (metis length_map)
  have "dom consumer_map \<subseteq> set (pass_orders evs)"
  proof
    fix i assume "i \<in> dom consumer_map"
    then have "count_list (pass_orders evs) i \<noteq> 0"
      using boot_run_counts [OF run', of i] assms(5)
      by (simp add: Metricer_boot_def consumer_metricer_def Metricer_new_def)
    then show "i \<in> set (pass_orders evs)" by (meson count_list_0_iff)
  qed
  then have "3 \<le> length (pass_orders evs)"
    using consumer_meters(2) card_mono [OF finite_set] card_length [of "pass_orders evs"] by (metis le_trans)
  with ms len show ?thesis by auto
qed

end

section \<open>The reader\<close>

lemma recv_and_check_ok:
  "n \<le> length topic \<Longrightarrow> \<forall>x\<in>set topic. \<exists>m. decode x = Some m \<and> check m = Inr () \<Longrightarrow>
   recv_and_check n decode check topic = Inr ()"
proof (induction n arbitrary: topic)
  case (Suc n)
  then obtain x rest where "topic = x # rest" by (cases topic) auto
  with Suc show ?case by (auto simp: consumer_recv_def)
qed simp

lemma length_filter_shuffles:
  assumes "zs \<in> shuffles xs ys"
  shows "length (filter P zs) = length (filter P xs) + length (filter P ys)"
proof -
  have "filter P zs \<in> shuffles (filter P xs) (filter P ys)" using assms filter_shuffles [of P xs ys] by blast
  then show ?thesis by (rule length_shuffles)
qed

text \<open>The topic an item goes to.\<close>

lemma topic_of_item:
  "fst (topic_and_key (TopicNames_new None) x) =
     (case x of Trace _ \<Rightarrow> ''skywalking-segments'' | Log _ \<Rightarrow> ''skywalking-logs'' | Meter _ \<Rightarrow> ''skywalking-meters''
      | Instance _ \<Rightarrow> ''skywalking-managements'' | Ping _ \<Rightarrow> ''skywalking-logs'')"
  by (cases x) (simp_all add: TopicNames_new_def real_topic_name_def topic_defs)

definition passing_item :: "CollectItem \<Rightarrow> bool" where
  "passing_item x \<longleftrightarrow> (\<exists>s. x = Trace s \<and> check_segment s = Inr ()) \<or>
     (\<exists>l. x = Log l \<and> check_log l = Inr ()) \<or> passing_meter x"

lemma e2e_kafka_main_ok:
  assumes "list_all passing_item sent"
    and "\<And>t. t \<in> {''skywalking-segments'', ''skywalking-meters'', ''skywalking-logs''} \<Longrightarrow> 3 \<le> length (create_consumer t sent)"
  shows "e2e_kafka_main sent = Inr ()"
proof -
  have "e2e_segment sent = Inr ()" "e2e_meter sent = Inr ()" "e2e_log sent = Inr ()"
    unfolding e2e_segment_def e2e_meter_def e2e_log_def
    by (intro recv_and_check_ok assms(2); use assms(1) in \<open>auto simp: create_consumer_def topic_of_item passing_item_def
        passing_meter_def list_all_iff split: CollectItem.splits\<close>)+
  then show ?thesis by (simp add: e2e_kafka_main_def)
qed

lemma create_consumer_count:
  assumes "sent \<in> shuffles P cs" and "cs \<in> shuffles C M"
  shows "length (create_consumer t sent) =
    length (create_consumer t P) + length (create_consumer t C) + length (create_consumer t M)"
  using length_filter_shuffles [OF assms(1)] length_filter_shuffles [OF assms(2)] by (simp add: create_consumer_def)

text \<open>C10. The end-to-end test passes in every run: let one \<open>/ping\<close> run through both services and let the
  metricer that the consumer set up be between two passes after at least one.  In whatever order the
  broker sees what the three sources of items have sent (each source in its own order), the reader
  finds three messages in every topic it subscribes to and all its assertions hold.\<close>

theorem reader_accepts_every_interleaving:
  assumes "base64_ascii engine"
    and "http_link ht send (consumer_response engine ht rc cfg' clk' ids' gc)"
    and "start_process ''producer'' = Inr gp" and "start_process ''consumer'' = Inr gc"
    and "reporter rp dp ap" and "ap p" and "reporter rc dc ac" and "ac c"
    and "reporter rm dm am" and "am m"
    and "boot_run rm cfg'' evs (run_consumer_metric (Metricer_new ''consumer'' ''node_0'') m) = Some b"
    and "list_all leaves_meters evs" and "to_collect (bt_phase b) = []" and "1 \<le> passes evs"
  shows "\<exists>p' c' P C M.
    handle_ping engine ht send (on_fst rp) cfg clk ids gp (p, c) = ((p', c'), Inr ok_response) \<and>
    dp p' = dp p @ P \<and> dc c' = dc c @ C \<and> dm (bt_reporter b) = dm m @ M \<and>
    (\<forall>consumer \<in> shuffles C M. \<forall>sent \<in> shuffles P consumer. e2e_kafka_main sent = Inr ())"
proof -
  let ?t = "Tracer_new ''producer'' ''node_0''"
  let ?P = "[Log (log_of cfg (clk 0) ''producer'' ping_record),
      Log (log_of cfg (clk 3) ''producer'' (ping_request_record ids)),
      Trace (callback_segment cfg clk ids ?t (ping_snapshot ids)), Trace (ping_segment cfg clk ids ?t)]"
  let ?C = "[Log (log_of cfg' (clk' 0) ''consumer'' pong_record),
      Trace (pong_segment cfg' clk' ids' (Tracer_new ''consumer'' ''node_0'')
        (PropagationContext_new True (RandomGenerator_generate (ids 0)) (RandomGenerator_generate (ids 1)) 1
          ''producer'' ''node_0'' ''/pong'' ''127.0.0.1:8082''))]"
  obtain M where M: "dm (bt_reporter b) = dm m @ M" "list_all passing_meter M" "3 \<le> length M"
    using reporter.consumer_reports [OF assms(9,11,12,10,13,14)] by blast
  have pass: "list_all passing_item (?P @ ?C @ M)"
    using M(2) by (simp add: passing_item_def ping_logs_pass segments_pass list_all_iff del: One_nat_def)
  have "create_consumer ''skywalking-meters'' M = M" "create_consumer ''skywalking-logs'' M = []"
    "create_consumer ''skywalking-segments'' M = []"
    using M(2) by (auto simp: create_consumer_def topic_of_item passing_meter_def list_all_iff filter_id_conv
        filter_empty_conv)
  moreover have "length (create_consumer ''skywalking-segments'' ?P) + length (create_consumer ''skywalking-segments'' ?C) = 3"
    "length (create_consumer ''skywalking-logs'' ?P) + length (create_consumer ''skywalking-logs'' ?C) = 3"
    by (simp_all add: create_consumer_def topic_of_item)
  ultimately have count: "3 \<le> length (create_consumer t ?P) + length (create_consumer t ?C) + length (create_consumer t M)"
    if "t \<in> {''skywalking-segments'', ''skywalking-meters'', ''skywalking-logs''}" for t
    using that M(3) by (elim insertE emptyE) simp_all
  have "e2e_kafka_main sent = Inr ()" if "consumer \<in> shuffles ?C M" "sent \<in> shuffles ?P consumer" for consumer sent
  proof (rule e2e_kafka_main_ok)
    show "list_all passing_item sent"
      using pass set_shuffles [OF that(1)] set_shuffles [OF that(2)] by (auto simp: list_all_iff)
  qed (use count create_consumer_count [OF that(2,1)] in simp)
  with ping_pong_run [OF assms(1-8), of cfg clk ids] M(1) show ?thesis by blast
qed

text \<open>The instance: combined reporters on unbounded channels, and one pass of the metricer.\<close>

abbreviation combine_report where
  "combine_report \<equiv> CombineReporter_report (GrpcReporter_report (UnboundedSender_produce list_mpsc))
     (KafkaReporter_report (UnboundedSender_produce list_mpsc))"

definition kafka_items :: "((CollectItem list_chan, unit, unit) GrpcReporter \<times> unit,
    (CollectItem list_chan, unit) KafkaReporter \<times> unit) CombineReporter \<Rightarrow> CollectItem list" where
  "kafka_items r = lc_items (kf_queue (fst (kafka_reporter r)))"

definition both_accept :: "((CollectItem list_chan, unit, unit) GrpcReporter \<times> unit,
    (CollectItem list_chan, unit) KafkaReporter \<times> unit) CombineReporter \<Rightarrow> bool" where
  "both_accept r \<longleftrightarrow> \<not> gr_is_closing (fst (grpc_reporter r)) \<and> lc_rx (gr_queue (fst (grpc_reporter r))) \<and>
     \<not> kf_is_closing (fst (kafka_reporter r)) \<and> lc_rx (kf_queue (fst (kafka_reporter r)))"

interpretation combined: reporter combine_report kafka_items both_accept
  using reporter_Combine(2) [OF grpc.reporter_axioms kafka.reporter_axioms]
  by (simp add: kafka_items_def [abs_def] both_accept_def [abs_def] case_prod_beta conj_assoc)

definition fresh_reporter :: "((CollectItem list_chan, unit, unit) GrpcReporter \<times> unit,
    (CollectItem list_chan, unit) KafkaReporter \<times> unit) CombineReporter" where
  "fresh_reporter = \<lparr>grpc_reporter = (GrpcReporter_new (\<lambda>m e h. h) (channel_new None), ()),
     kafka_reporter = (\<lparr>kf_is_closing = False, kf_queue = channel_new None, kf_err_handle = (\<lambda>m e h. h)\<rparr>, ()),
     printed_types = []\<rparr>"

lemma fresh_reporter_accepts: "both_accept fresh_reporter" "kafka_items fresh_reporter = []"
  by (simp_all add: both_accept_def kafka_items_def fresh_reporter_def GrpcReporter_new_def GrpcReporter_new_with_pc_def
      channel_new_def)

definition consumer_ids :: "MeterId list" where
  "consumer_ids = [hg_id filled_histogram, ctr_id filled_counter, gg_id (consumer_gauge :: unit Gauge)]"

lemma consumer_ids_enumerate: "enumerates consumer_ids consumer_map"
  by (auto simp: enumerates_def consumer_ids_def consumer_map_def meter_defs)

definition one_pass :: "unit boot_event list" where
  "one_pass = [BeginPass consumer_ids, CollectOne 0 (), CollectOne 1 (), CollectOne 2 (), EndPass]"

lemma one_pass_runs:
  "\<exists>b. boot_run combine_report release_build one_pass
      (run_consumer_metric (Metricer_new ''consumer'' ''node_0'') fresh_reporter) = Some b \<and> to_collect (bt_phase b) = []"
proof -
  note step = combined.report_accepting
  let ?md = "\<lambda>now a. Meter (snd (meter_transform release_build now () ''consumer'' ''node_0'' (consumer_heap ! a)))"
  obtain r1 where r1: "combine_report (?md 0 2) fresh_reporter = (r1, Inr ())" "both_accept r1"
    using step [OF fresh_reporter_accepts(1)] by blast
  obtain r2 where r2: "combine_report (?md 1 0) r1 = (r2, Inr ())" "both_accept r2"
    using step [OF r1(2)] by blast
  obtain r3 where r3: "combine_report (?md 2 1) r2 = (r3, Inr ())" using step [OF r2(2)] by blast
  have map: "consumer_map (hg_id filled_histogram) = Some 2" "consumer_map (ctr_id filled_counter) = Some 0"
    "consumer_map (gg_id (consumer_gauge :: unit Gauge)) = Some 1"
    by (simp_all add: consumer_map_def meter_defs)
  have same: "fst (meter_transform release_build now () ''consumer'' ''node_0'' (consumer_heap ! a)) = consumer_heap ! a"
    if "a < 3" for now a
    using that by (intro consumer_meter_passes(1) nth_mem) (simp add: consumer_heap_def)
  show ?thesis
    unfolding run_consumer_metric_boot one_pass_def consumer_ids_def
    using r1(1) r2(1) r3 map same consumer_ids_enumerate [unfolded consumer_ids_def]
    by (simp add: Metricer_boot_def consumer_metricer_def Metricer_new_def case_prod_beta)
qed

theorem reader_accepts_every_interleaving_witness:
  "\<exists>p' c' b P C M.
    handle_ping rfc4648 plain_http
      (plain_send (consumer_response rfc4648 plain_http combine_report release_build (\<lambda>n. int n) (\<lambda>n. of_nat (n + 7))
        (e2e_globals ''consumer''))) (on_fst combine_report) release_build (\<lambda>n. int n) of_nat
      (e2e_globals ''producer'') (fresh_reporter, fresh_reporter) = ((p', c'), Inr ok_response) \<and>
    boot_run combine_report release_build one_pass
      (run_consumer_metric (Metricer_new ''consumer'' ''node_0'') fresh_reporter) = Some b \<and>
    kafka_items p' = P \<and> kafka_items c' = C \<and> kafka_items (bt_reporter b) = M \<and>
    e2e_kafka_main (P @ C @ M) = Inr ()"
proof -
  obtain b where b: "boot_run combine_report release_build one_pass
      (run_consumer_metric (Metricer_new ''consumer'' ''node_0'') fresh_reporter) = Some b" "to_collect (bt_phase b) = []"
    using one_pass_runs by blast
  have evs: "list_all leaves_meters one_pass" "1 \<le> passes one_pass" by (simp_all add: one_pass_def)
  have app: "xs @ ys \<in> shuffles xs ys" for xs ys :: "CollectItem list"
    by (induction xs) (auto intro: Cons_in_shuffles_leftI)
  note acc = fresh_reporter_accepts(1)
  from reader_accepts_every_interleaving [OF rfc4648a.base64_ascii_axioms plain.http_link_axioms e2e_globals_start
      combined.reporter_axioms acc combined.reporter_axioms acc combined.reporter_axioms acc b(1) evs(1) b(2) evs(2),
      of release_build "\<lambda>n. int n" "\<lambda>n. of_nat (n + 7)" release_build "\<lambda>n. int n" of_nat] b(1) app
  show ?thesis unfolding fresh_reporter_accepts(2) append_Nil by blast
qed

end
