(* ===== verification/Programs.thy ===== *)
theory Programs
  imports Grpc_System
begin

text \<open>
  A program beside the background tasks of its gRPC reporter: one thread that reports, in two halves
  as \<open>report\<close> does, and may drop its reporter, and the tasks of \<open>Grpc_System\<close>.  Three ways of using
  the reporter are followed to the end: having reported and keeping it, reporting and then dropping
  it, and reporting on and on while keeping it.
\<close>

section \<open>A program beside the tasks\<close>

text \<open>What a thread does with its reporter: a call of \<open>report\<close>, the second half of one that has found the
  flag unset, and dropping the reporter, of which no other clone is left.\<close>

datatype action = CallReport CollectItem | Producing CollectItem | DropReporter

record ('q, 'ct, 'cl, 'cm) Program =
  pg_sys :: "('q, 'ct, 'cl, 'cm) GrpcSystem"
  pg_todo :: "action list"

datatype prog_event = ThreadStep | TaskStep sys_event

fun task_event :: "sys_event \<Rightarrow> bool" where
  "task_event (LoopEv ev) = (\<not> thread_event ev)"
| "task_event _ = True"

fun prog_step ::
  "('q, CollectItem) mpsc \<Rightarrow> ('ct, SegmentObject) mpsc \<Rightarrow> ('cl, LogData) mpsc \<Rightarrow> ('cm, MeterData) mpsc \<Rightarrow>
   prog_event \<Rightarrow> ('q, 'ct, 'cl, 'cm) Program \<Rightarrow> (('q, 'ct, 'cl, 'cm) Program \<times> loop_out list) option" where
  "prog_step ch ct cl cm ThreadStep p =
     (case pg_todo p of
        [] \<Rightarrow> None
      | CallReport x # todo \<Rightarrow>
          map_option (\<lambda>(g, out). (\<lparr>pg_sys = g, pg_todo = (if out = [] then Producing x # todo else todo)\<rparr>, out))
            (gs_step ch ct cl cm (LoopEv (ReportCheck x)) (pg_sys p))
      | Producing x # todo \<Rightarrow>
          map_option (\<lambda>(g, out). (\<lparr>pg_sys = g, pg_todo = todo\<rparr>, out))
            (gs_step ch ct cl cm (LoopEv (ReportProduce 0)) (pg_sys p))
      | DropReporter # todo \<Rightarrow>
          map_option (\<lambda>(g, out). (\<lparr>pg_sys = g, pg_todo = todo\<rparr>, out))
            (gs_step ch ct cl cm (LoopEv DropReporters) (pg_sys p)))"
| "prog_step ch ct cl cm (TaskStep ev) p =
     (if task_event ev
      then map_option (\<lambda>(g, out). (p\<lparr>pg_sys := g\<rparr>, out)) (gs_step ch ct cl cm ev (pg_sys p))
      else None)"

fun prog_run ::
  "('q, CollectItem) mpsc \<Rightarrow> ('ct, SegmentObject) mpsc \<Rightarrow> ('cl, LogData) mpsc \<Rightarrow> ('cm, MeterData) mpsc \<Rightarrow>
   prog_event list \<Rightarrow> ('q, 'ct, 'cl, 'cm) Program \<Rightarrow> (('q, 'ct, 'cl, 'cm) Program \<times> loop_out list) option" where
  "prog_run ch ct cl cm [] p = Some (p, [])"
| "prog_run ch ct cl cm (ev # evs) p =
     (case prog_step ch ct cl cm ev p of
        None \<Rightarrow> None
      | Some (p1, out1) \<Rightarrow>
          (case prog_run ch ct cl cm evs p1 of
             None \<Rightarrow> None
           | Some (p2, out2) \<Rightarrow> Some (p2, out1 @ out2)))"

text \<open>\<open>handle.await?\<close> at the end of \<open>main\<close>.\<close>

definition await_handle :: "('q, 'ct, 'cl, 'cm) Program \<Rightarrow> unit sw_result poll" where
  "await_handle p = ReportingJoinHandle_poll (gs_handles (pg_sys p))"

section \<open>Steps of the program are steps of the system\<close>

lemma gs_step_loop:
  assumes "gs_step ch ct cl cm ev g = Some (g', out)"
  shows "(\<exists>e lp d. ev = LoopEv e \<and> gs_loop g' = lp\<lparr>lp_sink := d\<rparr> \<and>
      loop_step (UnboundedSender_produce ch) (Receiver_ops ch) (InnerReportSender_report ct cl cm) e (gs_loop g) = Some (lp, out)) \<or>
    (out = [] \<and> (\<forall>e. ev \<noteq> LoopEv e) \<and> (\<exists>d. gs_loop g' = (gs_loop g)\<lparr>lp_sink := d\<rparr>))"
proof (cases ev)
  case (LoopEv e)
  with assms obtain lp where lp: "loop_step (UnboundedSender_produce ch) (Receiver_ops ch) (InnerReportSender_report ct cl cm) e (gs_loop g) =
      Some (lp, out)" by (auto split: if_splits option.splits)
  with LoopEv assms have "gs_loop g' = lp\<lparr>lp_sink := drop_senders ct cl cm (lp_sink lp)\<rparr> \<or> gs_loop g' = lp\<lparr>lp_sink := lp_sink lp\<rparr>"
    by (auto split: if_splits)
  with LoopEv lp show ?thesis by blast
qed (use assms in \<open>auto simp: set_sink_def split: if_splits\<close>)

text \<open>The dispatching task does not look at its sink.\<close>

lemma loop_step_any_sink:
  assumes "loop_step produce ops dispatch ev s = Some (s', out)"
  shows "\<exists>d'. loop_step produce ops dispatch ev (s\<lparr>lp_sink := d\<rparr>) = Some (s'\<lparr>lp_sink := d'\<rparr>, out)"
  using assms
  by (cases s; cases ev)
    (auto simp: report_check_def report_produce_def work_consume_def work_shutdown_def work_flush_def work_end_def
      shutdown_signal_def loop_result_def drop_reporters_def Let_def
      split: if_splits prod.splits sum.splits option.splits poll.splits work_phase.splits)

lemma lift_loop_any:
  assumes "loop_run (UnboundedSender_produce ch) (Receiver_ops ch) (InnerReportSender_report ct cl cm) evs s = Some (s', outs)"
    and "gs_loop g = s\<lparr>lp_sink := d\<rparr>" and "gs_signal g"
  shows "\<exists>g' d'. gs_run ch ct cl cm (map LoopEv evs) g = Some (g', outs) \<and> gs_loop g' = s'\<lparr>lp_sink := d'\<rparr>"
  using assms
proof (induction evs arbitrary: s g d outs)
  case (Cons ev evs)
  let ?step = "loop_step (UnboundedSender_produce ch) (Receiver_ops ch) (InnerReportSender_report ct cl cm)"
  from Cons.prems(1) obtain s1 o1 o2 where s1: "?step ev s = Some (s1, o1)"
    "loop_run (UnboundedSender_produce ch) (Receiver_ops ch) (InnerReportSender_report ct cl cm) evs s1 = Some (s', o2)" "outs = o1 @ o2"
    by (auto split: option.splits prod.splits)
  obtain d1 where d1: "?step ev (gs_loop g) = Some (s1\<lparr>lp_sink := d1\<rparr>, o1)"
    using loop_step_any_sink [OF s1(1)] Cons.prems(2) by metis
  then obtain g1 d2 where g1: "gs_step ch ct cl cm (LoopEv ev) g = Some (g1, o1)" "gs_loop g1 = s1\<lparr>lp_sink := d2\<rparr>"
    using Cons.prems(3) by (cases "ev = DropConsumer") auto
  have "gs_signal g1" using gs_run_signal [of ch ct cl cm "[LoopEv ev]" g g1 o1] g1(1) Cons.prems(3) by simp
  from Cons.IH [OF s1(2) g1(2) this] g1(1) s1(3) show ?case by (auto simp del: gs_step.simps)
qed auto

lemma prog_run_append:
  "prog_run ch ct cl cm (xs @ ys) p =
   (case prog_run ch ct cl cm xs p of
      None \<Rightarrow> None
    | Some (p1, o1) \<Rightarrow>
        (case prog_run ch ct cl cm ys p1 of None \<Rightarrow> None | Some (p2, o2) \<Rightarrow> Some (p2, o1 @ o2)))"
  by (induction xs arbitrary: p) (auto split: option.splits prod.splits simp del: prog_step.simps)

text \<open>A run of the tasks is a run of the program.\<close>

lemma lift_tasks:
  "gs_run ch ct cl cm evs (pg_sys p) = Some (g, outs) \<Longrightarrow> list_all task_event evs \<Longrightarrow>
   prog_run ch ct cl cm (map TaskStep evs) p = Some (p\<lparr>pg_sys := g\<rparr>, outs)"
proof (induction evs arbitrary: p outs)
  case (Cons ev evs)
  then obtain g1 o1 o2 where g1: "gs_step ch ct cl cm ev (pg_sys p) = Some (g1, o1)"
    "gs_run ch ct cl cm evs g1 = Some (g, o2)" "outs = o1 @ o2"
    by (auto split: option.splits prod.splits simp del: gs_step.simps)
  then show ?case using Cons.IH [of "p\<lparr>pg_sys := g1\<rparr>" o2] Cons.prems(2) by (simp del: gs_step.simps)
qed simp

lemma prog_step_system:
  assumes "prog_step ch ct cl cm ev p = Some (p', out)"
  shows "\<exists>e. gs_step ch ct cl cm e (pg_sys p) = Some (pg_sys p', out) \<and> (ev = TaskStep e \<or> ev = ThreadStep \<and> \<not> task_event e)"
  using assms by (cases ev) (auto split: list.splits action.splits if_splits simp del: gs_step.simps)

lemma prog_run_signal: "prog_run ch ct cl cm evs p = Some (p', outs) \<Longrightarrow> gs_signal (pg_sys p') = gs_signal (pg_sys p)"
proof (induction evs arbitrary: p outs)
  case (Cons ev evs)
  then obtain p1 o1 o2 where p1: "prog_step ch ct cl cm ev p = Some (p1, o1)" "prog_run ch ct cl cm evs p1 = Some (p', o2)"
    by (auto split: option.splits prod.splits simp del: prog_step.simps)
  obtain e where "gs_step ch ct cl cm e (pg_sys p) = Some (pg_sys p1, o1)" using prog_step_system [OF p1(1)] by blast
  then have "gs_signal (pg_sys p1) = gs_signal (pg_sys p)" using gs_run_signal [of ch ct cl cm "[e]" "pg_sys p"] by simp
  with Cons.IH [OF p1(2)] show ?case by simp
qed simp

text \<open>The join handle of the four tasks.\<close>

lemma await_handle_ready:
  "await_handle p = Ready r \<longleftrightarrow> loop_result (gs_loop (pg_sys p)) = Some r \<and> rt_phase (gs_trace (pg_sys p)) = Returned \<and>
     rt_phase (gs_log (pg_sys p)) = Returned \<and> rt_phase (gs_meter (pg_sys p)) = Returned"
proof (cases "loop_result (gs_loop (pg_sys p))")
  case (Some x)
  then show ?thesis
    by (cases x) (auto simp: await_handle_def gs_handles_def receive_handle_def ReportingJoinHandle_poll_def map_filter_def)
qed (auto simp: await_handle_def gs_handles_def receive_handle_def ReportingJoinHandle_poll_def map_filter_def)

context grpc_channels
begin

lemma unsignalled_sink [simp]: "cq.unsignalled before outs (lp\<lparr>lp_sink := d\<rparr>) = cq.unsignalled before outs lp"
  by (simp add: cq.unsignalled_def)

lemma held_sink [simp]: "cq.held before outs (lp\<lparr>lp_sink := d\<rparr>) = cq.held before outs lp"
  by (simp add: cq.held_def)

lemma gs_step_unsignalled:
  assumes "cq.unsignalled before outs (gs_loop g)" and "gs_step ch ct cl cm ev g = Some (g', out)"
    and "ev \<noteq> LoopEv ShutdownSignal"
  shows "cq.unsignalled before (outs @ out) (gs_loop g')"
  using gs_step_loop [OF assms(2)]
proof (elim disjE exE conjE)
  fix e lp d
  assume e: "ev = LoopEv e" "gs_loop g' = lp\<lparr>lp_sink := d\<rparr>"
    "loop_step (UnboundedSender_produce ch) (Receiver_ops ch) (InnerReportSender_report ct cl cm) e (gs_loop g) = Some (lp, out)"
  from cq.unsignalled_step [OF assms(1) e(3)] e(1,2) assms(3) show ?thesis by simp
qed (use assms(1) in simp)

lemma gs_step_held:
  assumes "cq.held before outs (gs_loop g)" and "gs_step ch ct cl cm ev g = Some (g', out)" and "task_event ev"
  shows "cq.held before (outs @ out) (gs_loop g')"
  using gs_step_loop [OF assms(2)]
proof (elim disjE exE conjE)
  fix e lp d
  assume e: "ev = LoopEv e" "gs_loop g' = lp\<lparr>lp_sink := d\<rparr>"
    "loop_step (UnboundedSender_produce ch) (Receiver_ops ch) (InnerReportSender_report ct cl cm) e (gs_loop g) = Some (lp, out)"
  from cq.held_step [OF assms(1) e(3)] e(1,2) assms(3) show ?thesis by simp
qed (use assms(1) in simp)

text \<open>A program that has nothing to do but keeps its reporter.\<close>

lemma idle_run:
  assumes "prog_run ch ct cl cm evs p = Some (p', outs')" and "pg_todo p = []"
    and "gs_inv before outs (pg_sys p)" and "cq.held before outs (gs_loop (pg_sys p))"
  shows "pg_todo p' = [] \<and> gs_inv before (outs @ outs') (pg_sys p') \<and> cq.held before (outs @ outs') (gs_loop (pg_sys p'))"
  using assms
proof (induction evs arbitrary: p outs outs')
  case (Cons ev evs)
  then obtain p1 o1 o2 where p1: "prog_step ch ct cl cm ev p = Some (p1, o1)" "prog_run ch ct cl cm evs p1 = Some (p', o2)"
    "outs' = o1 @ o2" by (auto split: option.splits prod.splits simp del: prog_step.simps)
  then obtain e where e: "ev = TaskStep e" "task_event e" "gs_step ch ct cl cm e (pg_sys p) = Some (pg_sys p1, o1)" "pg_todo p1 = []"
    using Cons.prems(2) by (cases ev) (auto split: if_splits simp del: gs_step.simps)
  have "gs_inv before (outs @ o1) (pg_sys p1)" "cq.held before (outs @ o1) (gs_loop (pg_sys p1))"
    using gs_step_inv [OF Cons.prems(3) e(3)] gs_step_held [OF Cons.prems(4) e(3,2)] by simp_all
  from Cons.IH [OF p1(2) e(4) this] p1(3) show ?case by simp
qed simp

end
section \<open>A program that keeps its reporter and reports no more\<close>

lemma loop_result_cases:
  "loop_result s = Some r \<Longrightarrow> lp_phase s = WorkDone r \<or> lp_signal s = Signalled r"
  by (auto simp: loop_result_def split: work_phase.splits signal_phase.splits sum.splits)

lemma subseq_singleton: "subseq xs [x] \<Longrightarrow> xs = [] \<or> xs = [x]"
  by (cases xs) (auto split: if_splits dest: list_emb_Nil2)

lemma only_log_share:
  assumes "shares [Log x] s ts ls ms"
  shows "ts = [] \<and> ms = [] \<and> (ls = [x] \<or> length (irs_err_calls s) = 1)"
  using assms by (auto simp: shares_def dest!: subseq_singleton list_emb_Nil2)

lemma only_trace_share:
  assumes "shares [Trace x] s ts ls ms"
  shows "ls = [] \<and> ms = [] \<and> (ts = [x] \<or> length (irs_err_calls s) = 1)"
  using assms by (auto simp: shares_def dest!: subseq_singleton list_emb_Nil2)

context grpc_channels
begin

lemma idle_result:
  assumes "gs_inv before outs (pg_sys p)" and "cq.held before outs (gs_loop (pg_sys p))" and "await_handle p = Ready r"
  shows "r = Inr () \<and> dispatched outs = before \<and> shares before (lp_sink (gs_loop (pg_sys p)))
    (concat (rt_sent (gs_trace (pg_sys p)))) (concat (rt_sent (gs_log (pg_sys p)))) (concat (rt_sent (gs_meter (pg_sys p))))"
proof -
  note ready = assms(3) [unfolded await_handle_ready]
  have "lp_phase (gs_loop (pg_sys p)) = WorkDone (Inr ()) \<and> r = Inr ()"
    using ready assms(2) by (auto simp: cq.held_def loop_result_def split: work_phase.splits signal_phase.splits sum.splits)
  moreover from this have "dispatched outs = before" using assms(2) by (auto simp: cq.held_def)
  ultimately show ?thesis using gs_inv_ended [OF assms(1)] ready by auto
qed

lemma receivers_end_tasks:
  assumes "gs_inv before outs (pg_sys p)" and "is_done (lp_phase (gs_loop (pg_sys p)))"
    and "loop_result (gs_loop (pg_sys p)) = Some r"
  shows "\<exists>evs p'. prog_run ch ct cl cm (map TaskStep evs) p = Some (p', []) \<and> pg_todo p' = pg_todo p \<and>
    await_handle p' = Ready r \<and> list_all task_event evs \<and> LoopEv ShutdownSignal \<notin> set evs"
proof -
  obtain evs g' where g': "gs_run ch ct cl cm evs (pg_sys p) = Some (g', [])" "same_task (gs_loop g') (gs_loop (pg_sys p))"
    "rt_phase (gs_trace g') = Returned" "rt_phase (gs_log g') = Returned" "rt_phase (gs_meter g') = Returned"
    "\<forall>e. LoopEv e \<notin> set evs" using receivers_end [OF assms(1,2)] by blast
  then have tasks: "list_all task_event evs" by (metis list_all_iff sys_event.exhaust task_event.simps(2-4))
  have "await_handle (p\<lparr>pg_sys := g'\<rparr>) = Ready r"
    unfolding await_handle_ready using g' loop_result_same_task [OF g'(2)] assms(3) by simp
  with lift_tasks [OF g'(1) tasks] g'(6) tasks show ?thesis
    by (intro exI [of _ evs] exI [of _ "p\<lparr>pg_sys := g'\<rparr>"]) simp
qed

lemma idle_can_end:
  assumes "gs_inv before outs (pg_sys p)" and "cq.held before outs (gs_loop (pg_sys p))" and "gs_signal (pg_sys p)"
  shows "\<exists>evs p' outs'. prog_run ch ct cl cm evs p = Some (p', outs') \<and> await_handle p' = Ready (Inr ())"
proof -
  obtain e1 lp o1 where lp: "loop_run (UnboundedSender_produce ch) (Receiver_ops ch) (InnerReportSender_report ct cl cm) e1 (gs_loop (pg_sys p)) =
      Some (lp, o1)" "is_done (lp_phase lp)" "lp_signal lp = Signalled (Inr ())" "list_all (\<lambda>ev. \<not> thread_event ev) e1"
    using cq.held_ends [OF assms(2)] by blast
  obtain g1 d where g1: "gs_run ch ct cl cm (map LoopEv e1) (pg_sys p) = Some (g1, o1)" "gs_loop g1 = lp\<lparr>lp_sink := d\<rparr>"
    using lift_loop_any [OF lp(1) _ assms(3)] by (metis Loop.surjective Loop.update_convs(2))
  have tasks: "list_all task_event (map LoopEv e1)" using lp(4) by (simp add: list_all_iff)
  have inv1: "gs_inv before (outs @ o1) g1" by (rule gs_run_inv [OF assms(1) g1(1)])
  have "pg_todo (p\<lparr>pg_todo := []\<rparr>) = []" by simp
  have "prog_run ch ct cl cm (map TaskStep (map LoopEv e1)) (p\<lparr>pg_todo := []\<rparr>) = Some (p\<lparr>pg_todo := [], pg_sys := g1\<rparr>, o1)"
    using lift_tasks [of ch ct cl cm "map LoopEv e1" "p\<lparr>pg_todo := []\<rparr>"] g1(1) tasks by simp
  from idle_run [OF this] assms(1,2) have "cq.held before (outs @ o1) (gs_loop g1)" by simp
  with lp(2,3) g1(2) have res: "loop_result (gs_loop g1) = Some (Inr ())"
    by (auto simp: cq.held_def loop_result_def is_done_def split: work_phase.splits)
  obtain e2 p2 where "prog_run ch ct cl cm (map TaskStep e2) (p\<lparr>pg_sys := g1\<rparr>) = Some (p2, [])" "await_handle p2 = Ready (Inr ())"
    using receivers_end_tasks [of before "outs @ o1" "p\<lparr>pg_sys := g1\<rparr>" "Inr ()"] inv1 res g1(2) lp(2) by auto
  with lift_tasks [OF g1(1) tasks] show ?thesis
    by (intro exI [of _ "map TaskStep (map LoopEv e1) @ map TaskStep e2"] exI [of _ p2]) (auto simp: prog_run_append)
qed

end

section \<open>A program that reports and drops its reporter\<close>

fun todo_items :: "action list \<Rightarrow> CollectItem list" where
  "todo_items [] = []"
| "todo_items (CallReport x # todo) = x # todo_items todo"
| "todo_items (Producing x # todo) = x # todo_items todo"
| "todo_items (DropReporter # todo) = todo_items todo"

fun calls_of :: "action list \<Rightarrow> CollectItem list" where
  "calls_of (Producing x # todo) = [x]"
| "calls_of _ = []"

fun work_left :: "action list \<Rightarrow> nat" where
  "work_left [] = 0"
| "work_left (CallReport x # todo) = Suc (Suc (work_left todo))"
| "work_left (a # todo) = Suc (work_left todo)"

text \<open>Reports, then possibly the drop; only the first report can be half done.\<close>

fun well_formed :: "action list \<Rightarrow> action list \<Rightarrow> bool" where
  "well_formed final (Producing x # todo) = (\<exists>xs. todo = map CallReport xs @ final)"
| "well_formed final todo = (\<exists>xs. todo = map CallReport xs @ final)"

lemma todo_items_reports [simp]: "todo_items (map CallReport xs @ todo) = xs @ todo_items todo"
  by (induction xs) simp_all

lemma task_step_observations:
  assumes "gs_step ch ct cl cm ev g = Some (g', out)" and "task_event ev"
  shows "lp_calls (gs_loop g') = lp_calls (gs_loop g) \<and> lp_reporters (gs_loop g') = lp_reporters (gs_loop g) \<and> accepted out = []"
proof -
  have "lp_calls s' = lp_calls s \<and> lp_reporters s' = lp_reporters s \<and> accepted out = []"
    if "loop_step produce ops dispatch e s = Some (s', out)" "\<not> thread_event e" for produce ops dispatch e s s'
    using that
    by (cases e) (auto simp: work_consume_def work_shutdown_def work_flush_def work_end_def shutdown_signal_def
      split: if_splits prod.splits sum.splits option.splits poll.splits work_phase.splits)
  with gs_step_loop [OF assms(1)] assms(2) show ?thesis by fastforce
qed

lemma thread_step_loop:
  assumes "gs_step ch ct cl cm (LoopEv ev) g = Some (g', out)" and "thread_event ev"
  shows "loop_step (UnboundedSender_produce ch) (Receiver_ops ch) (InnerReportSender_report ct cl cm) ev (gs_loop g) = Some (gs_loop g', out)"
  using assms by (cases ev) (auto split: option.splits)

context grpc_channels
begin

definition dropping :: "CollectItem list \<Rightarrow> loop_out list \<Rightarrow> ('q, 'ct, 'cl, 'cm) Program \<Rightarrow> bool" where
  "dropping xs outs p \<longleftrightarrow> gs_inv [] outs (pg_sys p) \<and> cq.unsignalled [] outs (gs_loop (pg_sys p)) \<and>
     accepted outs @ todo_items (pg_todo p) = xs \<and> lp_calls (gs_loop (pg_sys p)) = calls_of (pg_todo p) \<and>
     (if lp_reporters (gs_loop (pg_sys p)) then well_formed [DropReporter] (pg_todo p) else pg_todo p = [])"

lemma working_facts:
  assumes "gs_inv before outs g" and "cq.unsignalled before outs (gs_loop g)" and "lp_reporters (gs_loop g)"
  shows "lp_phase (gs_loop g) = Working" "\<not> lp_closing (gs_loop g)" "q_rx (lp_queue (gs_loop g))"
  using assms by (auto simp: gs_inv_def cq.unsignalled_def cq.loop_inv_def)

text \<open>The next step of the thread, whatever the tasks do.\<close>

lemma dropping_thread:
  assumes "dropping xs outs p" and "pg_todo p \<noteq> []"
  shows "\<exists>p' out. prog_step ch ct cl cm ThreadStep p = Some (p', out) \<and>
    accepted (outs @ out) @ todo_items (pg_todo p') = xs \<and> lp_calls (gs_loop (pg_sys p')) = calls_of (pg_todo p') \<and>
    (if lp_reporters (gs_loop (pg_sys p')) then well_formed [DropReporter] (pg_todo p') else pg_todo p' = []) \<and>
    work_left (pg_todo p') < work_left (pg_todo p)"
proof -
  let ?s = "gs_loop (pg_sys p)"
  have facts: "lp_reporters ?s" "lp_phase ?s = Working" "\<not> lp_closing ?s" "q_rx (lp_queue ?s)"
    "lp_calls ?s = calls_of (pg_todo p)" "accepted outs @ todo_items (pg_todo p) = xs" "well_formed [DropReporter] (pg_todo p)"
    using assms working_facts [of "[]" outs "pg_sys p"] by (auto simp: dropping_def split: if_splits)
  show ?thesis
  proof (cases "pg_todo p")
    case (Cons a todo)
    show ?thesis
    proof (cases a)
      case (CallReport x)
      obtain ys where "todo = map CallReport ys @ [DropReporter]"
        using facts(7) Cons CallReport by (auto simp: Cons_eq_append_conv Cons_eq_map_conv)
      then show ?thesis using facts Cons CallReport by (simp add: report_check_def) blast
    next
      case (Producing x)
      obtain q' where "UnboundedSender_produce ch x (lp_queue ?s) = (q', Inr (Inr ()))"
        using cq.produce_attached [OF facts(4)] by blast
      moreover obtain ys where "todo = map CallReport ys @ [DropReporter]" using facts(7) Cons Producing by auto
      ultimately show ?thesis using facts Cons Producing by (cases ys) (auto simp: report_produce_def remove_nth_def)
    next
      case DropReporter
      then have "todo = []" using facts(7) Cons by (auto simp: Cons_eq_append_conv)
      then show ?thesis using facts Cons DropReporter by (simp add: drop_reporters_def)
    qed
  qed (use assms in simp)
qed

lemma dropping_step:
  assumes "dropping xs outs p" and "prog_step ch ct cl cm ev p = Some (p', out)" and "ev \<noteq> TaskStep (LoopEv ShutdownSignal)"
  shows "dropping xs (outs @ out) p'"
proof -
  obtain e where e: "gs_step ch ct cl cm e (pg_sys p) = Some (pg_sys p', out)" "ev = TaskStep e \<or> ev = ThreadStep \<and> \<not> task_event e"
    using prog_step_system [OF assms(2)] by blast
  have inv: "gs_inv [] (outs @ out) (pg_sys p')" using gs_step_inv [OF _ e(1)] assms(1) by (simp add: dropping_def)
  have "e \<noteq> LoopEv ShutdownSignal" using e(2) assms(3) by auto
  then have uns: "cq.unsignalled [] (outs @ out) (gs_loop (pg_sys p'))"
    using gs_step_unsignalled [OF _ e(1)] assms(1) by (simp add: dropping_def)
  show ?thesis
  proof (cases ev)
    case ThreadStep
    then have "pg_todo p \<noteq> []" using assms(2) by auto
    from dropping_thread [OF assms(1) this] assms(2) ThreadStep inv uns show ?thesis by (auto simp: dropping_def)
  next
    case (TaskStep e')
    then have "task_event e" "pg_todo p' = pg_todo p" using assms(2) e(2) by (auto split: if_splits)
    with task_step_observations [OF e(1)] assms(1) inv uns show ?thesis by (simp add: dropping_def)
  qed
qed

lemma dropping_run:
  assumes "dropping xs outs p" and "prog_run ch ct cl cm evs p = Some (p', outs')" and "TaskStep (LoopEv ShutdownSignal) \<notin> set evs"
  shows "dropping xs (outs @ outs') p'"
  using assms
proof (induction evs arbitrary: p outs outs')
  case (Cons ev evs)
  then obtain p1 o1 o2 where p1: "prog_step ch ct cl cm ev p = Some (p1, o1)" "prog_run ch ct cl cm evs p1 = Some (p', o2)"
    "outs' = o1 @ o2" by (auto split: option.splits prod.splits simp del: prog_step.simps)
  have "dropping xs (outs @ o1) p1" using dropping_step [OF Cons.prems(1) p1(1)] Cons.prems(3) by auto
  from Cons.IH [OF this p1(2)] Cons.prems(3) p1(3) show ?case by simp
qed simp

lemma dropping_result:
  assumes "dropping xs outs p" and "await_handle p = Ready r"
  shows "pg_todo p = [] \<and> r = Inl (Other ''receiving on a closed channel'') \<and> dispatched outs = xs \<and>
    shares xs (lp_sink (gs_loop (pg_sys p)))
      (concat (rt_sent (gs_trace (pg_sys p)))) (concat (rt_sent (gs_log (pg_sys p)))) (concat (rt_sent (gs_meter (pg_sys p))))"
proof -
  note ready = assms(2) [unfolded await_handle_ready]
  have inv: "gs_inv [] outs (pg_sys p)" using assms(1) by (simp add: dropping_def)
  have ph: "lp_phase (gs_loop (pg_sys p)) = WorkDone r"
    using ready assms(1) by (auto simp: dropping_def cq.unsignalled_def dest!: loop_result_cases)
  then have gone: "\<not> lp_reporters (gs_loop (pg_sys p))" using assms(1) by (auto simp: dropping_def cq.unsignalled_def)
  then have todo: "pg_todo p = []" using assms(1) by (simp add: dropping_def)
  have "r = Inl (Other ''receiving on a closed channel'')" "accepted outs = dispatched outs"
    using assms(1) ph by (simp_all add: dropping_def cq.unsignalled_def)
  with assms(1) todo have "r = Inl (Other ''receiving on a closed channel'') \<and> dispatched outs = xs" by (simp add: dropping_def)
  with gs_inv_ended [OF inv] ready todo show ?thesis by auto
qed

lemma thread_finishes:
  "dropping xs outs p \<Longrightarrow> \<exists>n p' outs'. prog_run ch ct cl cm (replicate n ThreadStep) p = Some (p', outs') \<and> pg_todo p' = []"
proof (induction "work_left (pg_todo p)" arbitrary: p outs rule: less_induct)
  case less
  show ?case
  proof (cases "pg_todo p = []")
    case True
    then show ?thesis by (intro exI [of _ 0] exI [of _ p]) simp
  next
    case False
    from dropping_thread [OF less.prems this] obtain p1 o1 where p1: "prog_step ch ct cl cm ThreadStep p = Some (p1, o1)"
      "work_left (pg_todo p1) < work_left (pg_todo p)"
      by blast
    have "dropping xs (outs @ o1) p1" by (rule dropping_step [OF less.prems p1(1)]) simp
    from less.hyps [OF p1(2) this] obtain n p' o2 where
      "prog_run ch ct cl cm (replicate n ThreadStep) p1 = Some (p', o2)" "pg_todo p' = []" by blast
    with p1(1) have "prog_run ch ct cl cm (replicate (Suc n) ThreadStep) p = Some (p', o1 @ o2) \<and> pg_todo p' = []"
      by (simp del: prog_step.simps)
    then show ?thesis by blast
  qed
qed

lemma dropping_can_end:
  assumes "dropping xs outs p" and "gs_signal (pg_sys p)"
  shows "\<exists>evs p' outs' r. prog_run ch ct cl cm evs p = Some (p', outs') \<and> await_handle p' = Ready r \<and>
    TaskStep (LoopEv ShutdownSignal) \<notin> set evs"
proof -
  obtain n p1 o1 where p1: "prog_run ch ct cl cm (replicate n ThreadStep) p = Some (p1, o1)" "pg_todo p1 = []"
    using thread_finishes [OF assms(1)] by blast
  have d1: "dropping xs (outs @ o1) p1" by (rule dropping_run [OF assms(1) p1(1)]) simp
  then have "\<not> lp_reporters (gs_loop (pg_sys p1))" using p1(2) by (auto simp: dropping_def)
  then have "\<not> q_tx (lp_queue (gs_loop (pg_sys p1)))" using d1 by (simp add: dropping_def cq.unsignalled_def)
  then obtain e2 lp o2 where lp: "loop_run (UnboundedSender_produce ch) (Receiver_ops ch) (InnerReportSender_report ct cl cm) e2 (gs_loop (pg_sys p1)) =
      Some (lp, o2)" "is_done (lp_phase lp)" "set e2 \<subseteq> {Consume (Inr ()), Flush (Inr ()), DropConsumer}"
    using cq.working_ends [of "gs_loop (pg_sys p1)" "InnerReportSender_report ct cl cm"] by blast
  have sig: "gs_signal (pg_sys p1)" using prog_run_signal [OF p1(1)] assms(2) by simp
  obtain g2 d where g2: "gs_run ch ct cl cm (map LoopEv e2) (pg_sys p1) = Some (g2, o2)" "gs_loop g2 = lp\<lparr>lp_sink := d\<rparr>"
    using lift_loop_any [OF lp(1) _ sig] by (metis Loop.surjective Loop.update_convs(2))
  have tasks: "list_all task_event (map LoopEv e2)" using lp(3) by (auto simp: list_all_iff)
  note run2 = lift_tasks [OF g2(1) tasks]
  have quiet: "TaskStep (LoopEv ShutdownSignal) \<notin> set (map TaskStep (map LoopEv e2))" using lp(3) by auto
  have d2: "dropping xs ((outs @ o1) @ o2) (p1\<lparr>pg_sys := g2\<rparr>)" by (rule dropping_run [OF d1 run2 quiet])
  have dn: "is_done (lp_phase (gs_loop g2))" using g2(2) lp(2) by simp
  obtain r where res: "loop_result (gs_loop g2) = Some r"
    using d2 dn by (auto simp: dropping_def cq.unsignalled_def loop_result_def is_done_def split: work_phase.splits)
  have "gs_inv [] ((outs @ o1) @ o2) g2" using d2 by (simp add: dropping_def)
  with receivers_end_tasks [of "[]" "(outs @ o1) @ o2" "p1\<lparr>pg_sys := g2\<rparr>" r] dn res obtain e3 p3 where
    p3: "prog_run ch ct cl cm (map TaskStep e3) (p1\<lparr>pg_sys := g2\<rparr>) = Some (p3, [])" "await_handle p3 = Ready r"
    "LoopEv ShutdownSignal \<notin> set e3" by auto
  let ?evs = "replicate n ThreadStep @ map TaskStep (map LoopEv e2) @ map TaskStep e3"
  have "prog_run ch ct cl cm ?evs p = Some (p3, o1 @ o2)" using p1(1) run2 p3(1) by (simp add: prog_run_append)
  moreover have "TaskStep (LoopEv ShutdownSignal) \<notin> set ?evs" using quiet p3(3) by auto
  ultimately show ?thesis using p3(2) by blast
qed

end

section \<open>A program that keeps its reporter while it reports\<close>

lemma task_step_closing:
  assumes "gs_step ch ct cl cm ev g = Some (g', out)" and "task_event ev" and "lp_closing (gs_loop g)"
  shows "lp_closing (gs_loop g')"
proof -
  have "lp_closing s \<Longrightarrow> lp_closing s'"
    if "loop_step produce ops dispatch e s = Some (s', out)" "\<not> thread_event e" for produce ops dispatch e s s'
    using that
    by (cases e) (auto simp: work_consume_def work_shutdown_def work_flush_def work_end_def shutdown_signal_def
      split: if_splits prod.splits sum.splits option.splits poll.splits work_phase.splits)
  with gs_step_loop [OF assms(1)] assms(2,3) show ?thesis by fastforce
qed

lemma well_formed_reports: "calls_of (map CallReport zs) = []" "well_formed [] (map CallReport zs)"
proof -
  show "calls_of (map CallReport zs) = []" by (cases zs) simp_all
  show "well_formed [] (map CallReport zs)"
  proof (cases zs)
    case (Cons a as)
    have "well_formed [] (CallReport a # map CallReport as)"
      unfolding well_formed.simps by (rule exI [of _ "a # as"]) simp
    with Cons show ?thesis by (simp del: well_formed.simps)
  qed simp
qed

context grpc_channels
begin

definition keeping :: "CollectItem list \<Rightarrow> loop_out list \<Rightarrow> ('q, 'ct, 'cl, 'cm) Program \<Rightarrow> bool" where
  "keeping xs outs p \<longleftrightarrow> gs_inv [] outs (pg_sys p) \<and> lp_reporters (gs_loop (pg_sys p)) \<and> q_tx (lp_queue (gs_loop (pg_sys p))) \<and>
     lp_calls (gs_loop (pg_sys p)) = calls_of (pg_todo p) \<and> well_formed [] (pg_todo p) \<and>
     (\<exists>ys. xs = ys @ todo_items (pg_todo p) \<and> prefix (accepted outs) ys \<and>
        (\<not> lp_closing (gs_loop (pg_sys p)) \<or> calls_of (pg_todo p) \<noteq> [] \<longrightarrow> accepted outs = ys))"

lemma gs_step_connected:
  assumes "gs_step ch ct cl cm ev g = Some (g', out)" and "q_tx (lp_queue (gs_loop g)) = lp_reporters (gs_loop g)"
  shows "q_tx (lp_queue (gs_loop g')) = lp_reporters (gs_loop g')"
  using gs_step_loop [OF assms(1)]
proof (elim disjE exE conjE)
  fix e lp d
  assume e: "gs_loop g' = lp\<lparr>lp_sink := d\<rparr>"
    "loop_step (UnboundedSender_produce ch) (Receiver_ops ch) (InnerReportSender_report ct cl cm) e (gs_loop g) = Some (lp, out)"
  from cq.loop_step_connected [OF assms(2) e(2)] e(1) show ?thesis by simp
qed (use assms(2) in simp)

lemma keeping_thread:
  assumes k: "keeping xs outs p" and step: "prog_step ch ct cl cm ThreadStep p = Some (p', out)"
  shows "lp_reporters (gs_loop (pg_sys p')) \<and> lp_calls (gs_loop (pg_sys p')) = calls_of (pg_todo p') \<and> well_formed [] (pg_todo p') \<and>
    (\<exists>ys. xs = ys @ todo_items (pg_todo p') \<and> prefix (accepted (outs @ out)) ys \<and>
       (\<not> lp_closing (gs_loop (pg_sys p')) \<or> calls_of (pg_todo p') \<noteq> [] \<longrightarrow> accepted (outs @ out) = ys))"
proof -
  let ?s = "gs_loop (pg_sys p)"
  have rep: "lp_reporters ?s" and calls: "lp_calls ?s = calls_of (pg_todo p)" and wf: "well_formed [] (pg_todo p)"
    and li: "cq.loop_inv [] outs ?s" using k by (simp_all add: keeping_def gs_inv_def)
  obtain ys where ys: "xs = ys @ todo_items (pg_todo p)" "prefix (accepted outs) ys"
    "\<not> lp_closing ?s \<or> calls_of (pg_todo p) \<noteq> [] \<longrightarrow> accepted outs = ys" using k by (auto simp: keeping_def)
  obtain a todo where todo: "pg_todo p = a # todo" using step by (cases "pg_todo p") auto
  show ?thesis
  proof (cases a)
    case (CallReport x)
    obtain zs where zs: "todo = map CallReport zs" using wf todo CallReport by (auto simp: Cons_eq_map_conv)
    have calls': "calls_of todo = []" "well_formed [] todo" unfolding zs by (rule well_formed_reports)+
    show ?thesis
    proof (cases "lp_closing ?s")
      case True
      then have "p' = \<lparr>pg_sys = pg_sys p', pg_todo = todo\<rparr>" "gs_loop (pg_sys p') = ?s" "out = [Refused x]"
        using step todo CallReport rep by (auto simp: report_check_def)
      then show ?thesis using True rep calls calls' ys todo CallReport
        by (intro conjI exI [of _ "ys @ [x]"]) (metis Program.select_convs(2) | simp)+
    next
      case False
      then have "pg_todo p' = Producing x # todo" "gs_loop (pg_sys p') = ?s\<lparr>lp_calls := [x]\<rparr>" "out = []"
        using step todo CallReport rep calls by (auto simp: report_check_def)
      then show ?thesis using False rep ys todo CallReport zs by (auto intro: exI [of _ ys])
    qed
  next
    case (Producing x)
    obtain zs where zs: "todo = map CallReport zs" using wf todo Producing by auto
    have calls': "calls_of todo = []" "well_formed [] todo" unfolding zs by (rule well_formed_reports)+
    have acc: "accepted outs = ys" using ys(3) todo Producing by simp
    have produce: "report_produce (UnboundedSender_produce ch) 0 ?s = Some (gs_loop (pg_sys p'), out)" "pg_todo p' = todo"
      using step todo Producing by (auto split: option.splits)
    have "lp_calls (gs_loop (pg_sys p')) = [] \<and> lp_reporters (gs_loop (pg_sys p')) = lp_reporters ?s \<and>
        lp_closing (gs_loop (pg_sys p')) = lp_closing ?s \<and> accepted out = (if q_rx (lp_queue ?s) then [x] else [])"
      using cq.report_produce_cases [OF produce(1)] calls todo Producing by (auto simp: remove_nth_def)
    moreover have "\<not> q_rx (lp_queue ?s) \<Longrightarrow> lp_closing ?s" using li by (auto simp: cq.loop_inv_def)
    ultimately show ?thesis using rep produce(2) calls' ys(1) todo Producing acc
      by (intro conjI exI [of _ "ys @ [x]"]) auto
  qed (use wf todo in auto)
qed

lemma keeping_step:
  assumes "keeping xs outs p" and "prog_step ch ct cl cm ev p = Some (p', out)"
  shows "keeping xs (outs @ out) p'"
proof -
  obtain e where e: "gs_step ch ct cl cm e (pg_sys p) = Some (pg_sys p', out)" "ev = TaskStep e \<or> ev = ThreadStep \<and> \<not> task_event e"
    using prog_step_system [OF assms(2)] by blast
  have inv: "gs_inv [] (outs @ out) (pg_sys p')" using gs_step_inv [OF _ e(1)] assms(1) by (simp add: keeping_def)
  have conn: "q_tx (lp_queue (gs_loop (pg_sys p'))) = lp_reporters (gs_loop (pg_sys p'))"
    using gs_step_connected [OF e(1)] assms(1) by (simp add: keeping_def)
  show ?thesis
  proof (cases ev)
    case ThreadStep
    with keeping_thread [OF assms(1)] assms(2) inv conn show ?thesis by (simp add: keeping_def del: prog_step.simps)
  next
    case (TaskStep e')
    then have t: "task_event e" "pg_todo p' = pg_todo p" using assms(2) e(2) by (auto split: if_splits)
    show ?thesis
      using task_step_observations [OF e(1) t(1)] task_step_closing [OF e(1) t(1)] assms(1) inv conn t(2)
      by (auto simp: keeping_def)
  qed
qed

lemma keeping_run:
  "keeping xs outs p \<Longrightarrow> prog_run ch ct cl cm evs p = Some (p', outs') \<Longrightarrow> keeping xs (outs @ outs') p'"
proof (induction evs arbitrary: p outs outs')
  case (Cons ev evs)
  then obtain p1 o1 o2 where p1: "prog_step ch ct cl cm ev p = Some (p1, o1)" "prog_run ch ct cl cm evs p1 = Some (p', o2)"
    "outs' = o1 @ o2" by (auto split: option.splits prod.splits simp del: prog_step.simps)
  from Cons.IH [OF keeping_step [OF Cons.prems(1) p1(1)] p1(2)] p1(3) show ?case by simp
qed simp

lemma keeping_sent:
  assumes "keeping xs outs p"
  shows "prefix (dispatched outs) (accepted outs) \<and> prefix (accepted outs) xs \<and>
    irs_management (lp_sink (gs_loop (pg_sys p))) = management_of (dispatched outs)"
  using assms by (auto simp: keeping_def gs_inv_def cq.loop_inv_def shares_def)

lemma keeping_can_end:
  assumes k: "keeping xs outs p" and "gs_signal (pg_sys p)"
    and "lp_phase (gs_loop (pg_sys p)) = Working" "lp_signal (gs_loop (pg_sys p)) = AwaitingSignal"
  shows "\<exists>evs p' outs'. prog_run ch ct cl cm evs p = Some (p', outs') \<and> await_handle p' = Ready (Inr ()) \<and>
    dispatched (outs @ outs') = accepted outs"
proof -
  let ?s = "gs_loop (pg_sys p)"
  let ?evs = "[ShutdownSignal, RecvShutdown] @ replicate (length (queued (lp_queue ?s))) (Flush (Inr ())) @ [Flush (Inr ()), DropConsumer]"
  have "q_tx (lp_queue ?s)" using k by (simp add: keeping_def)
  then obtain lp o1 where lp: "loop_run (UnboundedSender_produce ch) (Receiver_ops ch) (InnerReportSender_report ct cl cm) ?evs ?s = Some (lp, o1)"
    "loop_result lp = Some (Inr ())" "dispatched o1 = queued (lp_queue ?s)"
    using cq.graceful_shutdown [OF assms(3,4)] by blast
  then obtain g1 d where g1: "gs_run ch ct cl cm (map LoopEv ?evs) (pg_sys p) = Some (g1, o1)" "gs_loop g1 = lp\<lparr>lp_sink := d\<rparr>"
    using lift_loop_any [OF lp(1) _ assms(2)] by (metis Loop.surjective Loop.update_convs(2))
  have "list_all task_event (map LoopEv ?evs)" by (simp add: list_all_iff)
  note run1 = lift_tasks [OF g1(1) this]
  have res: "loop_result (gs_loop g1) = Some (Inr ())" using lp(2) g1(2) by (simp add: loop_result_def)
  moreover from this have "is_done (lp_phase (gs_loop g1))"
    by (auto simp: loop_result_def split: work_phase.splits signal_phase.splits sum.splits)
  moreover have "gs_inv [] (outs @ o1) g1" using keeping_run [OF k run1] by (simp add: keeping_def)
  ultimately obtain e2 p2 where p2: "prog_run ch ct cl cm (map TaskStep e2) (p\<lparr>pg_sys := g1\<rparr>) = Some (p2, [])"
    "await_handle p2 = Ready (Inr ())" using receivers_end_tasks [of "[]" "outs @ o1" "p\<lparr>pg_sys := g1\<rparr>"] by auto
  have "accepted outs = dispatched outs @ queued (lp_queue ?s)"
    using k assms(3) by (simp add: keeping_def gs_inv_def cq.loop_inv_def)
  with lp(3) have "dispatched (outs @ o1) = accepted outs" by simp
  moreover have "prog_run ch ct cl cm (map TaskStep (map LoopEv ?evs) @ map TaskStep e2) p = Some (p2, o1)"
    using run1 p2(1) by (subst prog_run_append) simp
  ultimately show ?thesis using p2(2) by blast
qed

end

end
