(* ===== verification/Examples.thy ===== *)
theory Examples
  imports E2e_Run Management Programs
begin

text \<open>
  \<^verbatim>\<open>src/examples\<close>: the four programs that show how to use the agent, each a \<open>main\<close> that connects a gRPC
  reporter, starts its background tasks and reports something.  What \<open>main\<close> and the tasks it starts do
  after that is a run of \<open>Programs\<close>.
\<close>

section \<open>The four programs\<close>

text \<open>A \<open>main\<close> up to the point where its tasks run: it may panic, or return an error of connecting.  The
  constructors of the channels, the initial queue and what connecting gives are arguments.\<close>

record ('q, 'ct, 'cl, 'cm) runtime =
  ev_trace_channel :: "nat \<Rightarrow> 'ct"
  ev_log_channel :: "nat \<Rightarrow> 'cl"
  ev_meter_channel :: "nat \<Rightarrow> 'cm"
  ev_queue :: 'q
  ev_endpoint :: "string + unit"
  ev_connected :: "string + unit"

type_synonym 'q agent = "('q, (string \<times> string) list, unit) GrpcReporter"

definition connect_reporter :: "('q, 'ct, 'cl, 'cm) runtime \<Rightarrow> 'q agent sw_result" where
  "connect_reporter rt = GrpcReporter_connect default_err_handle (ev_queue rt) (ev_endpoint rt) (ev_connected rt)"

definition spawn_with_shutdown ::
  "('q, 'ct, 'cl, 'cm) runtime \<Rightarrow> 'q agent \<Rightarrow> ('q, 'ct, 'cl, 'cm) GrpcSystem res" where
  "spawn_with_shutdown rt rep =
     (case GrpcReporter_reporting (ev_trace_channel rt) (ev_log_channel rt) (ev_meter_channel rt) rep of
        (r, Inl p) \<Rightarrow> Inl p
      | (r, Inr rp) \<Rightarrow> Inr (Reporting_spawn (gr_queue r) (with_graceful_shutdown rp)))"

definition simple_log_report ::
  "('q, CollectItem) mpsc \<Rightarrow> ('q, 'ct, 'cl, 'cm) runtime \<Rightarrow> build \<Rightarrow> SystemTime \<Rightarrow>
   ('q, 'ct, 'cl, 'cm) Program sw_result res" where
  "simple_log_report ch rt cfg now =
     (case connect_reporter rt of
        Inl e \<Rightarrow> Inr (Inl e)
      | Inr rep \<Rightarrow>
          (case Logger_log (GrpcReporter_report (UnboundedSender_produce ch)) cfg now (Logger_new ''service'' ''instance'')
                  (LogRecord_content ''something to log'' LogRecord_new) (rep, []) of
             (_, Inl p) \<Rightarrow> Inl p
           | ((rep, _), Inr _) \<Rightarrow>
               map_sum id (\<lambda>g. Inr \<lparr>pg_sys = g, pg_todo = []\<rparr>) (spawn_with_shutdown rt rep)))"

definition handle_request ::
  "'w report_fn \<Rightarrow> build \<Rightarrow> (nat \<Rightarrow> SystemTime) \<Rightarrow> u128 \<Rightarrow> u128 \<Rightarrow> Tracer \<Rightarrow> 'w \<Rightarrow> ('w, unit) outcome" where
  "handle_request report cfg clk u1 u2 tracer =
     in_context report (Some tracer) (create_trace_context u1 u2 tracer)
       (with_span_guard cfg (clk 3) (create_entry_span cfg (clk 0) ''op1'') (\<lambda>_.
          with_span_guard cfg (clk 2) (create_exit_span cfg (clk 1) ''op2'' ''remote_peer'') (\<lambda>_ fr. (fr, Inr ()))))"

text \<open>What a piece of code reports, in order.\<close>

definition recording :: "CollectItem list report_fn" where
  "recording x xs = (xs @ [x], Inr ())"

text \<open>The tracer owns the only reporter and is moved into \<open>handle_request\<close>, which drops it.\<close>

definition simple_trace_report ::
  "('q, 'ct, 'cl, 'cm) runtime \<Rightarrow> build \<Rightarrow> (nat \<Rightarrow> SystemTime) \<Rightarrow> u128 \<Rightarrow> u128 \<Rightarrow>
   ('q, 'ct, 'cl, 'cm) Program sw_result res" where
  "simple_trace_report rt cfg clk u1 u2 =
     (case connect_reporter rt of
        Inl e \<Rightarrow> Inr (Inl e)
      | Inr rep \<Rightarrow>
          (case spawn_with_shutdown rt rep of
             Inl p \<Rightarrow> Inl p
           | Inr g \<Rightarrow>
               (case handle_request recording cfg clk u1 u2 (Tracer_new ''service'' ''instance'') [] of
                  (_, Inl p) \<Rightarrow> Inl p
                | (items, Inr _) \<Rightarrow> Inr (Inr \<lparr>pg_sys = g, pg_todo = map CallReport items @ [DropReporter]\<rparr>))))"

text \<open>The keep-alive task has a clone of the reporter and \<open>main\<close> keeps the manager, so that none is ever
  dropped; \<open>turns\<close> are the turns of that task, with what the closure returns at each.\<close>

definition example_properties :: "os_facts \<Rightarrow> Properties" where
  "example_properties os = insert_os_info os Properties_new"

definition simple_management_report ::
  "('q, 'ct, 'cl, 'cm) runtime \<Rightarrow> build \<Rightarrow> (string list \<times> os_facts) list \<Rightarrow>
   ('q, 'ct, 'cl, 'cm) Program sw_result res" where
  "simple_management_report rt cfg turns =
     (case connect_reporter rt of
        Inl e \<Rightarrow> Inr (Inl e)
      | Inr rep \<Rightarrow>
          (case spawn_with_shutdown rt rep of
             Inl p \<Rightarrow> Inl p
           | Inr g \<Rightarrow>
               (case report_and_keep_alive recording cfg (Manager_new ''service'' ''instance'') 30000000000 10
                       (map (\<lambda>(order, os). (order, example_properties os)) turns) [] of
                  ((_, items), _) \<Rightarrow> Inr (Inr \<lparr>pg_sys = g, pg_todo = map CallReport items\<rparr>))))"

section \<open>Properties of the programs\<close>

text \<open>Connecting succeeds and every channel is created open and empty.\<close>

definition fresh_runtime ::
  "('q \<Rightarrow> CollectItem list) \<Rightarrow> ('q \<Rightarrow> bool) \<Rightarrow> ('q \<Rightarrow> bool) \<Rightarrow> ('ct \<Rightarrow> SegmentObject list) \<Rightarrow> ('ct \<Rightarrow> bool) \<Rightarrow>
   ('cl \<Rightarrow> LogData list) \<Rightarrow> ('cl \<Rightarrow> bool) \<Rightarrow> ('cm \<Rightarrow> MeterData list) \<Rightarrow> ('cm \<Rightarrow> bool) \<Rightarrow>
   ('q, 'ct, 'cl, 'cm) runtime \<Rightarrow> bool" where
  "fresh_runtime queued q_rx q_tx segments t_tx records l_tx readings m_tx rt \<longleftrightarrow>
     ev_endpoint rt = Inr () \<and> ev_connected rt = Inr () \<and>
     queued (ev_queue rt) = [] \<and> q_rx (ev_queue rt) \<and> q_tx (ev_queue rt) \<and>
     makes_fresh segments t_tx (ev_trace_channel rt) \<and> makes_fresh records l_tx (ev_log_channel rt) \<and>
     makes_fresh readings m_tx (ev_meter_channel rt)"

text \<open>The runtime of the witnesses.\<close>

definition sample_runtime :: "(CollectItem list_chan, SegmentObject list_chan, LogData list_chan, MeterData list_chan) runtime" where
  "sample_runtime =
     \<lparr>ev_trace_channel = list_channels, ev_log_channel = list_channels, ev_meter_channel = list_channels,
      ev_queue = channel_new None, ev_endpoint = Inr (), ev_connected = Inr ()\<rparr>"

lemma sample_runtime_fresh: "fresh_runtime lc_items lc_rx lc_tx lc_items lc_tx lc_items lc_tx lc_items lc_tx sample_runtime"
  by (simp add: fresh_runtime_def sample_runtime_def list_channels_fresh) (simp add: channel_new_def)

definition sample_build :: build where
  "sample_build = \<lparr>overflow_checks = True, mock = False\<rparr>"

lemma connect_reporter_ok:
  "fresh_runtime queued q_rx q_tx segments t_tx records l_tx readings m_tx rt \<Longrightarrow>
   connect_reporter rt = Inr (GrpcReporter_new default_err_handle (ev_queue rt))"
  by (simp add: fresh_runtime_def connect_reporter_def GrpcReporter_connect_def and_then_def)

definition example_log :: "build \<Rightarrow> SystemTime \<Rightarrow> LogData" where
  "example_log cfg now =
     \<lparr>ld_timestamp = fetch_time cfg now PLog, ld_service = ''service'', ld_service_instance = ''instance'',
      ld_endpoint = [], ld_body = Some \<lparr>body_type = [], body_content = Some (Text ''something to log'')\<rparr>,
      ld_trace_context = None, ld_tags = None, ld_layer = []\<rparr>"

context grpc_channels
begin

lemma spawned:
  assumes "fresh_runtime queued q_rx q_tx segments t_tx records l_tx readings m_tx rt"
    and "\<not> gr_is_reporting r" and "gr_consumer r" and "q_rx (gr_queue r)"
  shows "\<exists>g d. spawn_with_shutdown rt r = Inr g \<and> gs_inv (queued (gr_queue r)) [] g \<and> gs_signal g \<and>
    gs_loop g = loop_start (gr_queue r) d"
proof -
  obtain r' rp where rp: "GrpcReporter_reporting (ev_trace_channel rt) (ev_log_channel rt) (ev_meter_channel rt) r = (r', Inr rp)"
    "gr_queue r' = gr_queue r" using assms(2,3) by (auto simp: GrpcReporter_reporting_def Let_def)
  have "gs_inv (queued (gr_queue r)) [] (Reporting_spawn (gr_queue r) (with_graceful_shutdown rp))"
    using assms(1,4) by (intro gs_spawn_inv)
      (simp_all add: reporting_sender [OF rp(1)] makes_fresh_def with_graceful_shutdown_def fresh_runtime_def)
  with rp show ?thesis
    by (auto simp: spawn_with_shutdown_def Reporting_spawn_def with_graceful_shutdown_def)
qed

lemma spawned_fresh:
  assumes "fresh_runtime queued q_rx q_tx segments t_tx records l_tx readings m_tx rt"
  shows "\<exists>g d. spawn_with_shutdown rt (GrpcReporter_new default_err_handle (ev_queue rt)) = Inr g \<and> gs_inv [] [] g \<and>
    gs_signal g \<and> gs_loop g = loop_start (ev_queue rt) d"
  using spawned [OF assms, of "GrpcReporter_new default_err_handle (ev_queue rt)"] assms
  by (auto simp: GrpcReporter_new_def GrpcReporter_new_with_pc_def fresh_runtime_def)

lemma log_example:
  assumes "fresh_runtime queued q_rx q_tx segments t_tx records l_tx readings m_tx rt"
  shows "\<exists>p. simple_log_report ch rt cfg now = Inr (Inr p) \<and>
    (\<forall>evs p' outs. prog_run ch ct cl cm evs p = Some (p', outs) \<longrightarrow>
      (\<forall>r. await_handle p' = Ready r \<longrightarrow> r = Inr () \<and> dispatched outs = [Log (example_log cfg now)] \<and>
        (concat (rt_sent (gs_log (pg_sys p'))) = [example_log cfg now] \<or>
         length (irs_err_calls (lp_sink (gs_loop (pg_sys p')))) = 1)) \<and>
      (\<exists>evs' p'' outs'. prog_run ch ct cl cm evs' p' = Some (p'', outs') \<and> await_handle p'' = Ready (Inr ())))"
proof -
  let ?x = "Log (example_log cfg now)"
  have q: "queued (ev_queue rt) = []" "q_rx (ev_queue rt)" "q_tx (ev_queue rt)" using assms by (simp_all add: fresh_runtime_def)
  obtain q' where q': "UnboundedSender_produce ch ?x (ev_queue rt) = (q', Inr (Inr ()))" "queued q' = [?x]" "q_rx q'" "q_tx q'"
    using cq.produce_attached [OF q(2), of ?x] q(1,3) by auto
  let ?r = "(GrpcReporter_new default_err_handle (ev_queue rt) :: 'q agent)\<lparr>gr_queue := q'\<rparr>"
  obtain g d where g: "spawn_with_shutdown rt ?r = Inr g" "gs_inv (queued q') [] g" "gs_signal g" "gs_loop g = loop_start q' d"
    using spawned [OF assms, of ?r] q'(3) by (auto simp: GrpcReporter_new_def GrpcReporter_new_with_pc_def)
  let ?p = "\<lparr>pg_sys = g, pg_todo = []\<rparr>"
  have main: "simple_log_report ch rt cfg now = Inr (Inr ?p)"
    using q'(1) g(1) connect_reporter_ok [OF assms]
    by (simp add: simple_log_report_def Logger_log_def Logger_new_def LogRecord_content_def LogRecord_new_def
        convert_to_log_data_def example_log_def GrpcReporter_report_def GrpcReporter_new_def GrpcReporter_new_with_pc_def)
  have held: "cq.held (queued q') [] (gs_loop g)" using g(4) cq.held_start [OF q'(3,4)] by simp
  have "(\<forall>r. await_handle p' = Ready r \<longrightarrow> r = Inr () \<and> dispatched outs = [?x] \<and>
        (concat (rt_sent (gs_log (pg_sys p'))) = [example_log cfg now] \<or> length (irs_err_calls (lp_sink (gs_loop (pg_sys p')))) = 1)) \<and>
      (\<exists>evs' p'' outs'. prog_run ch ct cl cm evs' p' = Some (p'', outs') \<and> await_handle p'' = Ready (Inr ()))"
    if run: "prog_run ch ct cl cm evs ?p = Some (p', outs)" for evs p' outs
  proof -
    have inv: "gs_inv [?x] outs (pg_sys p')" "cq.held [?x] outs (gs_loop (pg_sys p'))"
      using idle_run [OF run] g(2) held q'(2) by fastforce+
    have "gs_signal (pg_sys p')" using prog_run_signal [OF run] g(3) by simp
    from idle_can_end [OF inv this] idle_result [OF inv] only_log_share show ?thesis by metis
  qed
  with main show ?thesis by blast
qed

end

text \<open>C13. The log example does what it is for: once connected it does not panic; in every interleaving
  of its tasks, if the handle it awaits resolves then to \<open>Ok\<close>, and its one log record has by then been
  streamed to the server unless its channel refused it, which the error handler was told; and from
  every state it can get there.\<close>

theorem simple_log_report_delivers:
  assumes "grpc_channels ch queued q_rx q_tx q_room ct segments t_rx t_tx t_room
      cl records l_rx l_tx l_room cm readings m_rx m_tx m_room"
    and "fresh_runtime queued q_rx q_tx segments t_tx records l_tx readings m_tx rt"
  shows "\<exists>p. simple_log_report ch rt cfg now = Inr (Inr p) \<and>
    (\<forall>evs p' outs. prog_run ch ct cl cm evs p = Some (p', outs) \<longrightarrow>
      (\<forall>r. await_handle p' = Ready r \<longrightarrow> r = Inr () \<and> dispatched outs = [Log (example_log cfg now)] \<and>
        (concat (rt_sent (gs_log (pg_sys p'))) = [example_log cfg now] \<or>
         length (irs_err_calls (lp_sink (gs_loop (pg_sys p')))) = 1)) \<and>
      (\<exists>evs' p'' outs'. prog_run ch ct cl cm evs' p' = Some (p'', outs') \<and> await_handle p'' = Ready (Inr ())))"
  by (rule grpc_channels.log_example [OF assms])

theorem simple_log_report_delivers_witness:
  "\<exists>p evs p' outs. simple_log_report list_mpsc sample_runtime sample_build 5 = Inr (Inr p) \<and>
     prog_run list_mpsc list_mpsc list_mpsc list_mpsc evs p = Some (p', outs) \<and> await_handle p' = Ready (Inr ()) \<and>
     dispatched outs = [Log (example_log sample_build 5)]"
proof -
  obtain p where p: "simple_log_report list_mpsc sample_runtime sample_build 5 = Inr (Inr p)"
    "\<And>evs p' outs. prog_run list_mpsc list_mpsc list_mpsc list_mpsc evs p = Some (p', outs) \<Longrightarrow>
       (\<forall>r. await_handle p' = Ready r \<longrightarrow> dispatched outs = [Log (example_log sample_build 5)]) \<and>
       (\<exists>evs' p'' outs'. prog_run list_mpsc list_mpsc list_mpsc list_mpsc evs' p' = Some (p'', outs') \<and> await_handle p'' = Ready (Inr ()))"
    using simple_log_report_delivers [OF lg.grpc_channels_axioms sample_runtime_fresh, of sample_build 5] by blast
  from p(2) [of "[]" p "[]"] obtain evs p' outs where
    "prog_run list_mpsc list_mpsc list_mpsc list_mpsc evs p = Some (p', outs)" "await_handle p' = Ready (Inr ())" by auto
  with p show ?thesis by blast
qed

definition example_segment :: "build \<Rightarrow> (nat \<Rightarrow> SystemTime) \<Rightarrow> u128 \<Rightarrow> u128 \<Rightarrow> Tracer \<Rightarrow> SegmentObject" where
  "example_segment cfg clk u1 u2 t =
     \<lparr>seg_trace_id = RandomGenerator_generate u1, seg_trace_segment_id = RandomGenerator_generate u2,
      seg_spans =
        [close_obj (fetch_time cfg (clk 2) End) None
           (Span_new_obj cfg (clk 1) 1 0 ''op2'' ''remote_peer'' Exit Unknown False),
         close_obj (fetch_time cfg (clk 3) End) None
           (Span_new_obj cfg (clk 0) 0 (-1) ''op1'' [] Entry Http False)],
      seg_service = service_name t, seg_service_instance = instance_name t, is_size_limited = False\<rparr>"

lemma handle_request_reports:
  "handle_request report cfg clk u1 u2 t w = report (Trace (example_segment cfg clk u1 u2 t)) w"
  by (cases "report (Trace (example_segment cfg clk u1 u2 t)) w"; cases "snd (report (Trace (example_segment cfg clk u1 u2 t)) w)")
    (simp_all add: handle_request_def frame_defs create_defs example_segment_def FinalizeSpan_new_def Let_def)

context grpc_channels
begin

lemma trace_example:
  assumes "fresh_runtime queued q_rx q_tx segments t_tx records l_tx readings m_tx rt"
    and seg: "seg = example_segment cfg clk u1 u2 (Tracer_new ''service'' ''instance'')"
  shows "\<exists>p. simple_trace_report rt cfg clk u1 u2 = Inr (Inr p) \<and>
    (\<forall>evs p' outs. prog_run ch ct cl cm evs p = Some (p', outs) \<longrightarrow> TaskStep (LoopEv ShutdownSignal) \<notin> set evs \<longrightarrow>
      (\<forall>r. await_handle p' = Ready r \<longrightarrow> r = Inl (Other ''receiving on a closed channel'') \<and> dispatched outs = [Trace seg] \<and>
        (concat (rt_sent (gs_trace (pg_sys p'))) = [seg] \<or> length (irs_err_calls (lp_sink (gs_loop (pg_sys p')))) = 1)) \<and>
      (\<exists>evs' p'' outs' r. prog_run ch ct cl cm evs' p' = Some (p'', outs') \<and> TaskStep (LoopEv ShutdownSignal) \<notin> set evs' \<and>
         await_handle p'' = Ready r))"
proof -
  have q: "queued (ev_queue rt) = []" "q_rx (ev_queue rt)" "q_tx (ev_queue rt)" using assms by (simp_all add: fresh_runtime_def)
  obtain g d where g: "spawn_with_shutdown rt (GrpcReporter_new default_err_handle (ev_queue rt)) = Inr g" "gs_inv [] [] g"
    "gs_signal g" "gs_loop g = loop_start (ev_queue rt) d" using spawned_fresh [OF assms(1)] by blast
  let ?p = "\<lparr>pg_sys = g, pg_todo = [CallReport (Trace seg), DropReporter]\<rparr>"
  have main: "simple_trace_report rt cfg clk u1 u2 = Inr (Inr ?p)"
    using g(1) connect_reporter_ok [OF assms(1)]
    by (simp add: simple_trace_report_def handle_request_reports recording_def seg)
  have "cq.unsignalled [] [] (gs_loop g)" using g(4) cq.unsignalled_start [OF q(2,3)] q(1) by simp
  moreover have "well_formed [DropReporter] [CallReport (Trace seg), DropReporter]"
    by (auto intro: exI [of _ "[Trace seg]"])
  ultimately have start: "dropping [Trace seg] [] ?p" using g(2,4) by (simp add: dropping_def loop_start_def)
  have "(\<forall>r. await_handle p' = Ready r \<longrightarrow> r = Inl (Other ''receiving on a closed channel'') \<and> dispatched outs = [Trace seg] \<and>
        (concat (rt_sent (gs_trace (pg_sys p'))) = [seg] \<or> length (irs_err_calls (lp_sink (gs_loop (pg_sys p')))) = 1)) \<and>
      (\<exists>evs' p'' outs' r. prog_run ch ct cl cm evs' p' = Some (p'', outs') \<and> TaskStep (LoopEv ShutdownSignal) \<notin> set evs' \<and>
         await_handle p'' = Ready r)"
    if run: "prog_run ch ct cl cm evs ?p = Some (p', outs)" "TaskStep (LoopEv ShutdownSignal) \<notin> set evs" for evs p' outs
  proof -
    have d: "dropping [Trace seg] outs p'" using dropping_run [OF start run] by simp
    have "gs_signal (pg_sys p')" using prog_run_signal [OF run(1)] g(3) by simp
    from dropping_can_end [OF d this] dropping_result [OF d] only_trace_share show ?thesis by metis
  qed
  with main show ?thesis by blast
qed

end

text \<open>C14. The trace example ends with an error nobody caused: its only reporter is dropped at the end of
  \<open>handle_request\<close>, so that, in every interleaving in which Ctrl-C is not pressed, the handle it awaits
  can resolve, and resolves only to the error of a closed channel, although the segment with both
  spans has been dispatched, and streamed unless its channel refused it.\<close>

theorem simple_trace_report_ends_with_an_error:
  assumes "grpc_channels ch queued q_rx q_tx q_room ct segments t_rx t_tx t_room
      cl records l_rx l_tx l_room cm readings m_rx m_tx m_room"
    and "fresh_runtime queued q_rx q_tx segments t_tx records l_tx readings m_tx rt"
    and "seg = example_segment cfg clk u1 u2 (Tracer_new ''service'' ''instance'')"
  shows "\<exists>p. simple_trace_report rt cfg clk u1 u2 = Inr (Inr p) \<and>
    (\<forall>evs p' outs. prog_run ch ct cl cm evs p = Some (p', outs) \<longrightarrow> TaskStep (LoopEv ShutdownSignal) \<notin> set evs \<longrightarrow>
      (\<forall>r. await_handle p' = Ready r \<longrightarrow> r = Inl (Other ''receiving on a closed channel'') \<and> dispatched outs = [Trace seg] \<and>
        (concat (rt_sent (gs_trace (pg_sys p'))) = [seg] \<or> length (irs_err_calls (lp_sink (gs_loop (pg_sys p')))) = 1)) \<and>
      (\<exists>evs' p'' outs' r. prog_run ch ct cl cm evs' p' = Some (p'', outs') \<and> TaskStep (LoopEv ShutdownSignal) \<notin> set evs' \<and>
         await_handle p'' = Ready r))"
  by (rule grpc_channels.trace_example [OF assms])

theorem simple_trace_report_ends_with_an_error_witness:
  "\<exists>p evs p' outs. simple_trace_report sample_runtime sample_build int 7 8 = Inr (Inr p) \<and>
     prog_run list_mpsc list_mpsc list_mpsc list_mpsc evs p = Some (p', outs) \<and>
     TaskStep (LoopEv ShutdownSignal) \<notin> set evs \<and>
     await_handle p' = Ready (Inl (Other ''receiving on a closed channel''))"
proof -
  obtain p where p: "simple_trace_report sample_runtime sample_build int 7 8 = Inr (Inr p)"
    "\<And>evs p' outs. prog_run list_mpsc list_mpsc list_mpsc list_mpsc evs p = Some (p', outs) \<Longrightarrow>
       TaskStep (LoopEv ShutdownSignal) \<notin> set evs \<Longrightarrow>
       (\<forall>r. await_handle p' = Ready r \<longrightarrow> r = Inl (Other ''receiving on a closed channel'')) \<and>
       (\<exists>evs' p'' outs' r. prog_run list_mpsc list_mpsc list_mpsc list_mpsc evs' p' = Some (p'', outs') \<and>
          TaskStep (LoopEv ShutdownSignal) \<notin> set evs' \<and> await_handle p'' = Ready r)"
    using simple_trace_report_ends_with_an_error
      [OF lg.grpc_channels_axioms sample_runtime_fresh refl, of sample_build int 7 8] by blast
  from p(2) [of "[]" p "[]"] obtain evs p' outs r where
    "prog_run list_mpsc list_mpsc list_mpsc list_mpsc evs p = Some (p', outs)"
    "TaskStep (LoopEv ShutdownSignal) \<notin> set evs" "await_handle p' = Ready r" by auto
  with p show ?thesis by blast
qed

interpretation rec: gated_reporter recording "\<lambda>xs. xs" "\<lambda>_. True"
  by (rule gated_reporterI) (simp_all add: recording_def)

lemma management_of_heartbeat:
  "prefix xs (heartbeat mg factor n ps) \<Longrightarrow> management_of xs = xs"
proof (induction ps arbitrary: n xs)
  case (Cons p ps)
  then show ?case by (cases xs) (auto simp: heartbeat_item_def)
qed simp

context grpc_channels
begin

lemma keeping_management:
  assumes "keeping hb outs p" and "hb = heartbeat mg factor n turns"
  shows "irs_management (lp_sink (gs_loop (pg_sys p))) = dispatched outs"
proof -
  have "prefix (dispatched outs) hb" using keeping_sent [OF assms(1)] prefix_order.trans by blast
  then have "management_of (dispatched outs) = dispatched outs" unfolding assms(2) by (rule management_of_heartbeat)
  with keeping_sent [OF assms(1)] show ?thesis by simp
qed

lemma management_example:
  assumes "fresh_runtime queued q_rx q_tx segments t_tx records l_tx readings m_tx rt"
    and hb: "hb = heartbeat (Manager_new ''service'' ''instance'') 10 0 (map (\<lambda>(order, os). (order, example_properties os)) turns)"
  shows "\<exists>p. simple_management_report rt cfg turns = Inr (Inr p) \<and>
    (\<forall>evs p' outs. prog_run ch ct cl cm evs p = Some (p', outs) \<longrightarrow>
      prefix (irs_management (lp_sink (gs_loop (pg_sys p')))) (accepted outs) \<and> prefix (accepted outs) hb \<and>
      (lp_phase (gs_loop (pg_sys p')) = Working \<and> lp_signal (gs_loop (pg_sys p')) = AwaitingSignal \<longrightarrow>
        (\<exists>evs' p'' outs'. prog_run ch ct cl cm evs' p' = Some (p'', outs') \<and> await_handle p'' = Ready (Inr ()) \<and>
           irs_management (lp_sink (gs_loop (pg_sys p''))) = accepted outs)))"
proof -
  have q: "queued (ev_queue rt) = []" "q_rx (ev_queue rt)" "q_tx (ev_queue rt)" using assms by (simp_all add: fresh_runtime_def)
  obtain g d where g: "spawn_with_shutdown rt (GrpcReporter_new default_err_handle (ev_queue rt)) = Inr g" "gs_inv [] [] g"
    "gs_signal g" "gs_loop g = loop_start (ev_queue rt) d" using spawned_fresh [OF assms(1)] by blast
  let ?p = "\<lparr>pg_sys = g, pg_todo = map CallReport hb\<rparr>"
  obtain c where "report_and_keep_alive recording cfg (Manager_new ''service'' ''instance'') 30000000000 10
      (map (\<lambda>(order, os). (order, example_properties os)) turns) [] = ((c, hb), Inr ())"
    using rec.heartbeat_run [where r = "[]" and counter = 0 and n = 0 and factor = 10 and cfg = cfg and
        mg = "Manager_new ''service'' ''instance''" and ps = "map (\<lambda>(order, os). (order, example_properties os)) turns"]
    unfolding hb by (auto simp: report_and_keep_alive_def)
  then have main: "simple_management_report rt cfg turns = Inr (Inr ?p)"
    using g(1) connect_reporter_ok [OF assms(1)] by (simp add: simple_management_report_def)
  have start: "keeping hb [] ?p"
    using g(2,4) q(3) well_formed_reports [of hb] todo_items_reports [of hb "[]"] by (simp add: keeping_def loop_start_def)
  have "prefix (irs_management (lp_sink (gs_loop (pg_sys p')))) (accepted outs) \<and> prefix (accepted outs) hb \<and>
      (lp_phase (gs_loop (pg_sys p')) = Working \<and> lp_signal (gs_loop (pg_sys p')) = AwaitingSignal \<longrightarrow>
        (\<exists>evs' p'' outs'. prog_run ch ct cl cm evs' p' = Some (p'', outs') \<and> await_handle p'' = Ready (Inr ()) \<and>
           irs_management (lp_sink (gs_loop (pg_sys p''))) = accepted outs))"
    if run: "prog_run ch ct cl cm evs ?p = Some (p', outs)" for evs p' outs
  proof -
    have k: "keeping hb outs p'" using keeping_run [OF start run] by simp
    note mgmt = keeping_management [OF _ hb]
    have sig: "gs_signal (pg_sys p')" using prog_run_signal [OF run] g(3) by simp
    have "\<exists>evs' p'' outs'. prog_run ch ct cl cm evs' p' = Some (p'', outs') \<and> await_handle p'' = Ready (Inr ()) \<and>
           irs_management (lp_sink (gs_loop (pg_sys p''))) = accepted outs"
      if ph: "lp_phase (gs_loop (pg_sys p')) = Working" "lp_signal (gs_loop (pg_sys p')) = AwaitingSignal"
    proof -
      obtain evs' p'' outs' where p'': "prog_run ch ct cl cm evs' p' = Some (p'', outs')" "await_handle p'' = Ready (Inr ())"
        "dispatched (outs @ outs') = accepted outs" using keeping_can_end [OF k sig ph] by blast
      from mgmt [OF keeping_run [OF k p''(1)]] p'' show ?thesis by metis
    qed
    with mgmt [OF k] keeping_sent [OF k] show ?thesis by auto
  qed
  with main show ?thesis by blast
qed

end

text \<open>C15. The management example: whatever the interleaving, what the management client has been given is,
  item by item, the beginning of the schedule (the properties of the instance at every tenth turn,
  pings in between), nothing twice and nothing left out; and as long as Ctrl-C has not been pressed,
  pressing it can end the program with \<open>Ok\<close>, everything reported until then having been sent.\<close>

theorem simple_management_report_keeps_alive:
  assumes "grpc_channels ch queued q_rx q_tx q_room ct segments t_rx t_tx t_room
      cl records l_rx l_tx l_room cm readings m_rx m_tx m_room"
    and "fresh_runtime queued q_rx q_tx segments t_tx records l_tx readings m_tx rt"
    and "hb = heartbeat (Manager_new ''service'' ''instance'') 10 0 (map (\<lambda>(order, os). (order, example_properties os)) turns)"
  shows "\<exists>p. simple_management_report rt cfg turns = Inr (Inr p) \<and>
    (\<forall>evs p' outs. prog_run ch ct cl cm evs p = Some (p', outs) \<longrightarrow>
      prefix (irs_management (lp_sink (gs_loop (pg_sys p')))) (accepted outs) \<and> prefix (accepted outs) hb \<and>
      (lp_phase (gs_loop (pg_sys p')) = Working \<and> lp_signal (gs_loop (pg_sys p')) = AwaitingSignal \<longrightarrow>
        (\<exists>evs' p'' outs'. prog_run ch ct cl cm evs' p' = Some (p'', outs') \<and> await_handle p'' = Ready (Inr ()) \<and>
           irs_management (lp_sink (gs_loop (pg_sys p''))) = accepted outs)))"
  by (rule grpc_channels.management_example [OF assms])

theorem simple_management_report_keeps_alive_witness:
  "\<exists>p. simple_management_report sample_runtime sample_build
        (replicate 12 ([], \<lparr>os_target = Linux, os_hostname = None, os_networks = None, os_process_id = 42\<rparr>)) = Inr (Inr p) \<and>
     (\<exists>evs p' outs. prog_run list_mpsc list_mpsc list_mpsc list_mpsc evs p = Some (p', outs) \<and> await_handle p' = Ready (Inr ()))"
proof -
  let ?turns = "replicate 12 ([], \<lparr>os_target = Linux, os_hostname = None, os_networks = None, os_process_id = 42\<rparr>)"
  obtain p where p: "simple_management_report sample_runtime sample_build ?turns = Inr (Inr p)"
    "\<And>evs p' outs. prog_run list_mpsc list_mpsc list_mpsc list_mpsc evs p = Some (p', outs) \<Longrightarrow>
       lp_phase (gs_loop (pg_sys p')) = Working \<Longrightarrow> lp_signal (gs_loop (pg_sys p')) = AwaitingSignal \<Longrightarrow>
       \<exists>evs' p'' outs'. prog_run list_mpsc list_mpsc list_mpsc list_mpsc evs' p' = Some (p'', outs') \<and> await_handle p'' = Ready (Inr ())"
    using simple_management_report_keeps_alive [OF lg.grpc_channels_axioms sample_runtime_fresh refl, of sample_build ?turns] by blast
  have "lp_phase (gs_loop (pg_sys p)) = Working" "lp_signal (gs_loop (pg_sys p)) = AwaitingSignal"
    using p(1) by (auto simp: simple_management_report_def spawn_with_shutdown_def Reporting_spawn_def loop_start_def
        split: sum.splits prod.splits)
  with p(2) [of "[]" p "[]"] p(1) show ?thesis by auto
qed

section \<open>The metric example\<close>

text \<open>
  \<open>metricer.boot().await\<close>: the task of \<open>boot\<close> reports into the system, one call of \<open>report\<close> at a time;
  the future that \<open>main\<close> awaits owns the only sender of the task's shutdown channel, through which
  nothing is sent, and is dropped when it has resolved.
\<close>

record ('e, 'q, 'ct, 'cl, 'cm) MetricProgram =
  mx_boot :: "('e, ('q, 'ct, 'cl, 'cm) GrpcSystem) Boot"
  mx_awaits_boot :: bool
  mx_shutdown_tx :: bool

datatype 'e metric_event = BootStep "'e boot_event" | SystemStep sys_event | BootResolved

definition system_report ::
  "('q, CollectItem) mpsc \<Rightarrow> ('ct, SegmentObject) mpsc \<Rightarrow> ('cl, LogData) mpsc \<Rightarrow> ('cm, MeterData) mpsc \<Rightarrow>
   ('q, 'ct, 'cl, 'cm) GrpcSystem report_fn" where
  "system_report ch ct cl cm item g =
     (case prog_run ch ct cl cm (if lp_closing (gs_loop g) then [ThreadStep] else [ThreadStep, ThreadStep])
             \<lparr>pg_sys = g, pg_todo = [CallReport item]\<rparr> of
        None \<Rightarrow> (g, Inr ())
      | Some (p, _) \<Rightarrow> (pg_sys p, Inr ()))"

fun metric_step ::
  "('q, CollectItem) mpsc \<Rightarrow> ('ct, SegmentObject) mpsc \<Rightarrow> ('cl, LogData) mpsc \<Rightarrow> ('cm, MeterData) mpsc \<Rightarrow> build \<Rightarrow>
   'e metric_event \<Rightarrow> ('e, 'q, 'ct, 'cl, 'cm) MetricProgram \<Rightarrow> ('e, 'q, 'ct, 'cl, 'cm) MetricProgram option" where
  "metric_step ch ct cl cm cfg (BootStep ev) p =
     (if ev = ShutdownRecv \<and> mx_shutdown_tx p then None
      else map_option (\<lambda>b. p\<lparr>mx_boot := b\<rparr>) (boot_step (system_report ch ct cl cm) cfg ev (mx_boot p)))"
| "metric_step ch ct cl cm cfg (SystemStep ev) p =
     (if task_event ev
      then map_option (\<lambda>(g, _). p\<lparr>mx_boot := (mx_boot p)\<lparr>bt_reporter := g\<rparr>\<rparr>)
             (gs_step ch ct cl cm ev (bt_reporter (mx_boot p)))
      else None)"
| "metric_step ch ct cl cm cfg BootResolved p =
     (if mx_awaits_boot p \<and> Booting_poll (mx_boot p) = Ready (Inr ())
      then Some (p\<lparr>mx_awaits_boot := False, mx_shutdown_tx := False\<rparr>) else None)"

fun metric_run ::
  "('q, CollectItem) mpsc \<Rightarrow> ('ct, SegmentObject) mpsc \<Rightarrow> ('cl, LogData) mpsc \<Rightarrow> ('cm, MeterData) mpsc \<Rightarrow> build \<Rightarrow>
   'e metric_event list \<Rightarrow> ('e, 'q, 'ct, 'cl, 'cm) MetricProgram \<Rightarrow> ('e, 'q, 'ct, 'cl, 'cm) MetricProgram option" where
  "metric_run ch ct cl cm cfg [] p = Some p"
| "metric_run ch ct cl cm cfg (ev # evs) p = Option.bind (metric_step ch ct cl cm cfg ev p) (metric_run ch ct cl cm cfg evs)"

definition example_counter :: Counter where
  "example_counter = Counter_add_label ''az'' ''az-1'' (Counter_add_label ''region'' ''us-west''
     (Counter_new ''instance_trace_count''))"

definition simple_metric_report ::
  "('q, 'ct, 'cl, 'cm) runtime \<Rightarrow> ('e, 'q, 'ct, 'cl, 'cm) MetricProgram sw_result res" where
  "simple_metric_report rt =
     (case connect_reporter rt of
        Inl e \<Rightarrow> Inr (Inl e)
      | Inr rep \<Rightarrow>
          (case spawn_with_shutdown rt rep of
             Inl p \<Rightarrow> Inl p
           | Inr g \<Rightarrow>
               (case register (MCounter example_counter) (Metricer_new ''service'' ''instance'', []) of
                  ((mt, heap), counter) \<Rightarrow>
                    Inr (Inr \<lparr>mx_boot = Metricer_boot mt (update_meters [(counter, AddCount (f64_of_nat 1))] heap) g,
                              mx_awaits_boot = True, mx_shutdown_tx = True\<rparr>))))"

text \<open>\<open>boot().await.unwrap()\<close>, then \<open>handle.await.unwrap()\<close>.\<close>

definition metric_main :: "('e, 'q, 'ct, 'cl, 'cm) MetricProgram \<Rightarrow> unit sw_result poll" where
  "metric_main p =
     (if mx_awaits_boot p then Pending else ReportingJoinHandle_poll (gs_handles (bt_reporter (mx_boot p))))"

lemma metric_run_append:
  "metric_run ch ct cl cm cfg (xs @ ys) p = Option.bind (metric_run ch ct cl cm cfg xs p) (metric_run ch ct cl cm cfg ys)"
  by (induction xs arbitrary: p) (simp_all del: metric_step.simps split: Option.bind_split)

lemma lift_metric:
  "prog_run ch ct cl cm evs q = Some (q', outs) \<Longrightarrow> pg_todo q = [] \<Longrightarrow> bt_reporter (mx_boot p) = pg_sys q \<Longrightarrow>
   \<exists>evs'. metric_run ch ct cl cm cfg evs' p = Some (p\<lparr>mx_boot := (mx_boot p)\<lparr>bt_reporter := pg_sys q'\<rparr>\<rparr>)"
proof (induction evs arbitrary: p q outs)
  case Nil
  then have "metric_run ch ct cl cm cfg [] p = Some (p\<lparr>mx_boot := (mx_boot p)\<lparr>bt_reporter := pg_sys q'\<rparr>\<rparr>)" by auto
  then show ?case by blast
next
  case (Cons ev evs)
  then obtain q1 o1 o2 where q1: "prog_step ch ct cl cm ev q = Some (q1, o1)" "prog_run ch ct cl cm evs q1 = Some (q', o2)"
    by (auto split: option.splits prod.splits simp del: prog_step.simps)
  then obtain e where e: "task_event e" "gs_step ch ct cl cm e (pg_sys q) = Some (pg_sys q1, o1)" "pg_todo q1 = []"
    using Cons.prems(2) by (cases ev) (auto split: if_splits simp del: gs_step.simps)
  let ?p = "p\<lparr>mx_boot := (mx_boot p)\<lparr>bt_reporter := pg_sys q1\<rparr>\<rparr>"
  have "metric_step ch ct cl cm cfg (SystemStep e) p = Some ?p" using e Cons.prems(3) by (simp del: gs_step.simps)
  moreover obtain evs' where "metric_run ch ct cl cm cfg evs' ?p = Some (?p\<lparr>mx_boot := (mx_boot ?p)\<lparr>bt_reporter := pg_sys q'\<rparr>\<rparr>)"
    using Cons.IH [OF q1(2) e(3), of ?p] by auto
  ultimately have "metric_run ch ct cl cm cfg (SystemStep e # evs') p = Some (p\<lparr>mx_boot := (mx_boot p)\<lparr>bt_reporter := pg_sys q'\<rparr>\<rparr>)"
    by (simp del: metric_step.simps)
  then show ?case by blast
qed

context grpc_channels
begin

text \<open>The system beside a task that holds a reporter and is between two calls of \<open>report\<close>.\<close>

definition between_calls :: "('q, 'ct, 'cl, 'cm) GrpcSystem \<Rightarrow> bool" where
  "between_calls g \<longleftrightarrow> gs_signal g \<and> (\<exists>xs outs. keeping xs outs \<lparr>pg_sys = g, pg_todo = []\<rparr>)"

lemma keeping_forget:
  assumes "keeping xs outs p" and "pg_todo p = []" and "gs_signal (pg_sys p)"
  shows "between_calls (pg_sys p)"
proof -
  have "keeping xs outs \<lparr>pg_sys = pg_sys p, pg_todo = []\<rparr>" using assms(1,2) by (simp add: keeping_def)
  with assms(3) show ?thesis by (auto simp: between_calls_def)
qed

lemma between_calls_report: "between_calls g \<Longrightarrow> between_calls (fst (system_report ch ct cl cm x g))"
proof -
  assume b: "between_calls g"
  then obtain xs outs where k: "keeping xs outs \<lparr>pg_sys = g, pg_todo = []\<rparr>" "gs_signal g" by (auto simp: between_calls_def)
  let ?p = "\<lparr>pg_sys = g, pg_todo = [CallReport x]\<rparr>"
  have li: "cq.loop_inv [] outs (gs_loop g)" and calls: "lp_calls (gs_loop g) = []" and rep: "lp_reporters (gs_loop g)"
    using k(1) by (simp_all add: keeping_def gs_inv_def)
  have "well_formed [] [CallReport x]" by (auto intro: exI [of _ "[x]"])
  then have start: "keeping (xs @ [x]) outs ?p" using k(1) by (auto simp: keeping_def)
  show ?thesis
  proof (cases "prog_run ch ct cl cm (if lp_closing (gs_loop g) then [ThreadStep] else [ThreadStep, ThreadStep]) ?p")
    case None
    then show ?thesis using b by (simp add: system_report_def)
  next
    case (Some y)
    obtain p o1 where y: "y = (p, o1)" by fastforce
    have "pg_todo p = []"
    proof (cases "lp_closing (gs_loop g)")
      case True
      then show ?thesis using Some y rep by (auto simp: report_check_def)
    next
      case False
      then show ?thesis using Some y rep by (auto simp: report_check_def split: option.splits)
    qed
    moreover have "gs_signal (pg_sys p)" using prog_run_signal [OF Some [unfolded y]] k(2) by simp
    ultimately have "between_calls (pg_sys p)" using keeping_run [OF start Some [unfolded y]] keeping_forget by blast
    then show ?thesis using Some y by (simp add: system_report_def)
  qed
qed

definition booting :: "('e, 'q, 'ct, 'cl, 'cm) MetricProgram \<Rightarrow> bool" where
  "booting p \<longleftrightarrow> mx_awaits_boot p \<and> mx_shutdown_tx p \<and> Booting_poll (mx_boot p) = Pending \<and> between_calls (bt_reporter (mx_boot p))"

lemma booting_step:
  assumes "booting p" and "metric_step ch ct cl cm cfg ev p = Some p'"
  shows "booting p'"
proof (cases ev)
  case (BootStep e)
  then obtain b where b: "boot_step (system_report ch ct cl cm) cfg e (mx_boot p) = Some b" "p' = p\<lparr>mx_boot := b\<rparr>" "e \<noteq> ShutdownRecv"
    using assms by (auto simp: booting_def split: if_splits)
  have "Booting_poll b = Pending \<and> (bt_reporter b = bt_reporter (mx_boot p) \<or>
      (\<exists>x r. system_report ch ct cl cm x (bt_reporter (mx_boot p)) = (bt_reporter b, r)))"
    using b(1,3) assms(1)
    by (cases e) (auto simp: booting_def Booting_pending split: if_splits boot_phase.splits list.splits option.splits prod.splits sum.splits)
  then have "Booting_poll b = Pending" "between_calls (bt_reporter b)"
    using assms(1) between_calls_report [of "bt_reporter (mx_boot p)"] by (auto simp: booting_def) (metis fst_conv)
  with b(2) assms(1) show ?thesis by (simp add: booting_def)
next
  case (SystemStep e)
  then obtain g out where g: "task_event e" "gs_step ch ct cl cm e (bt_reporter (mx_boot p)) = Some (g, out)"
    "p' = p\<lparr>mx_boot := (mx_boot p)\<lparr>bt_reporter := g\<rparr>\<rparr>" using assms(2) by (auto split: if_splits simp del: gs_step.simps)
  obtain xs outs where k: "keeping xs outs \<lparr>pg_sys = bt_reporter (mx_boot p), pg_todo = []\<rparr>" "gs_signal (bt_reporter (mx_boot p))"
    using assms(1) by (auto simp: booting_def between_calls_def)
  have step: "prog_step ch ct cl cm (TaskStep e) \<lparr>pg_sys = bt_reporter (mx_boot p), pg_todo = []\<rparr> =
      Some (\<lparr>pg_sys = g, pg_todo = []\<rparr>, out)" using g by (simp del: gs_step.simps)
  have "gs_signal g" using gs_run_signal [of ch ct cl cm "[e]" "bt_reporter (mx_boot p)" g out] g(2) k(2) by simp
  with keeping_step [OF k(1) step] assms(1) g(3) show ?thesis by (auto simp: booting_def between_calls_def Booting_pending)
next
  case BootResolved
  with assms show ?thesis by (auto simp: booting_def split: if_splits)
qed

lemma booting_run: "booting p \<Longrightarrow> metric_run ch ct cl cm cfg evs p = Some p' \<Longrightarrow> booting p'"
  by (induction evs arbitrary: p) (auto simp: bind_eq_Some_conv simp del: metric_step.simps dest: booting_step)

lemma metric_example:
  assumes "fresh_runtime queued q_rx q_tx segments t_tx records l_tx readings m_tx rt"
  shows "\<exists>p :: ('e, 'q, 'ct, 'cl, 'cm) MetricProgram. simple_metric_report rt = Inr (Inr p) \<and>
    (\<forall>evs p'. metric_run ch ct cl cm cfg evs p = Some p' \<longrightarrow> metric_main p' = Pending \<and>
      (lp_phase (gs_loop (bt_reporter (mx_boot p'))) = Working \<and> lp_signal (gs_loop (bt_reporter (mx_boot p'))) = AwaitingSignal \<longrightarrow>
        (\<exists>evs' p''. metric_run ch ct cl cm cfg evs' p' = Some p'' \<and>
           ReportingJoinHandle_poll (gs_handles (bt_reporter (mx_boot p''))) = Ready (Inr ()))))"
proof -
  have q: "queued (ev_queue rt) = []" "q_rx (ev_queue rt)" "q_tx (ev_queue rt)" using assms by (simp_all add: fresh_runtime_def)
  obtain g d where g: "spawn_with_shutdown rt (GrpcReporter_new default_err_handle (ev_queue rt)) = Inr g" "gs_inv [] [] g"
    "gs_signal g" "gs_loop g = loop_start (ev_queue rt) d" using spawned_fresh [OF assms] by blast
  define mt where "mt = fst (fst (register (MCounter example_counter :: 'e meter) (Metricer_new ''service'' ''instance'', [])))"
  define heap where "heap = update_meters [(0, AddCount (f64_of_nat 1))] [MCounter example_counter :: 'e meter]"
  have ivl: "report_interval mt \<noteq> 0" by (simp add: mt_def register_def Metricer_new_def)
  have main: "simple_metric_report rt =
      Inr (Inr \<lparr>mx_boot = Metricer_boot mt heap g, mx_awaits_boot = True, mx_shutdown_tx = True\<rparr>)" (is "_ = Inr (Inr ?p)")
    using g(1) connect_reporter_ok [OF assms] by (simp add: simple_metric_report_def mt_def heap_def register_def Metricer_new_def)
  have "keeping [] [] \<lparr>pg_sys = g, pg_todo = []\<rparr>" using g(2,4) q(3) by (simp add: keeping_def loop_start_def)
  then have start: "booting ?p" using g(3) ivl
    by (auto simp: booting_def between_calls_def Metricer_boot_def Booting_pending)
  have "metric_main p' = Pending \<and>
      (lp_phase (gs_loop (bt_reporter (mx_boot p'))) = Working \<and> lp_signal (gs_loop (bt_reporter (mx_boot p'))) = AwaitingSignal \<longrightarrow>
        (\<exists>evs' p''. metric_run ch ct cl cm cfg evs' p' = Some p'' \<and>
           ReportingJoinHandle_poll (gs_handles (bt_reporter (mx_boot p''))) = Ready (Inr ())))"
    if run: "metric_run ch ct cl cm cfg evs ?p = Some p'" for evs p'
  proof -
    let ?q = "\<lparr>pg_sys = bt_reporter (mx_boot p'), pg_todo = []\<rparr>"
    have b: "booting p'" by (rule booting_run [OF start run])
    then obtain xs outs where k: "keeping xs outs ?q" "gs_signal (pg_sys ?q)" by (auto simp: booting_def between_calls_def)
    have "\<exists>evs' p''. metric_run ch ct cl cm cfg evs' p' = Some p'' \<and>
        ReportingJoinHandle_poll (gs_handles (bt_reporter (mx_boot p''))) = Ready (Inr ())"
      if ph: "lp_phase (gs_loop (pg_sys ?q)) = Working" "lp_signal (gs_loop (pg_sys ?q)) = AwaitingSignal"
    proof -
      obtain e1 q' o1 where q': "prog_run ch ct cl cm e1 ?q = Some (q', o1)" "await_handle q' = Ready (Inr ())"
        using keeping_can_end [OF k ph] by blast
      obtain evs' where "metric_run ch ct cl cm cfg evs' p' = Some (p'\<lparr>mx_boot := (mx_boot p')\<lparr>bt_reporter := pg_sys q'\<rparr>\<rparr>)"
        using lift_metric [OF q'(1), of p' cfg] by auto
      with q'(2) show ?thesis unfolding await_handle_def by fastforce
    qed
    moreover have "metric_main p' = Pending" using b by (simp add: booting_def metric_main_def)
    ultimately show ?thesis by simp
  qed
  with main show ?thesis by blast
qed

end

text \<open>C16. The metric example never ends: \<open>boot().await\<close> waits for a task that stops only when it is told to,
  and the one who could tell it is the future that is being awaited.  In every interleaving \<open>main\<close> is
  pending, although Ctrl-C can end all four tasks of the reporter, whose handle \<open>main\<close> would await next.\<close>

theorem simple_metric_report_never_returns:
  assumes "grpc_channels ch queued q_rx q_tx q_room ct segments t_rx t_tx t_room
      cl records l_rx l_tx l_room cm readings m_rx m_tx m_room"
    and "fresh_runtime queued q_rx q_tx segments t_tx records l_tx readings m_tx rt"
  shows "\<exists>p :: ('e, 'q, 'ct, 'cl, 'cm) MetricProgram. simple_metric_report rt = Inr (Inr p) \<and>
    (\<forall>evs p'. metric_run ch ct cl cm cfg evs p = Some p' \<longrightarrow> metric_main p' = Pending \<and>
      (lp_phase (gs_loop (bt_reporter (mx_boot p'))) = Working \<and> lp_signal (gs_loop (bt_reporter (mx_boot p'))) = AwaitingSignal \<longrightarrow>
        (\<exists>evs' p''. metric_run ch ct cl cm cfg evs' p' = Some p'' \<and>
           ReportingJoinHandle_poll (gs_handles (bt_reporter (mx_boot p''))) = Ready (Inr ()))))"
  by (rule grpc_channels.metric_example [OF assms])

theorem simple_metric_report_never_returns_witness:
  "\<exists>p :: (unit, _, _, _, _) MetricProgram. simple_metric_report sample_runtime = Inr (Inr p) \<and> metric_main p = Pending \<and>
     (\<exists>evs p'. metric_run list_mpsc list_mpsc list_mpsc list_mpsc sample_build evs p = Some p' \<and> metric_main p' = Pending \<and>
        ReportingJoinHandle_poll (gs_handles (bt_reporter (mx_boot p'))) = Ready (Inr ()))"
proof -
  obtain p :: "(unit, _, _, _, _) MetricProgram" where p: "simple_metric_report sample_runtime = Inr (Inr p)"
    "\<And>evs p'. metric_run list_mpsc list_mpsc list_mpsc list_mpsc sample_build evs p = Some p' \<Longrightarrow> metric_main p' = Pending \<and>
      (lp_phase (gs_loop (bt_reporter (mx_boot p'))) = Working \<and> lp_signal (gs_loop (bt_reporter (mx_boot p'))) = AwaitingSignal \<longrightarrow>
        (\<exists>evs' p''. metric_run list_mpsc list_mpsc list_mpsc list_mpsc sample_build evs' p' = Some p'' \<and>
           ReportingJoinHandle_poll (gs_handles (bt_reporter (mx_boot p''))) = Ready (Inr ())))"
    using simple_metric_report_never_returns [OF lg.grpc_channels_axioms sample_runtime_fresh, of sample_build] by blast
  have "lp_phase (gs_loop (bt_reporter (mx_boot p))) = Working" "lp_signal (gs_loop (bt_reporter (mx_boot p))) = AwaitingSignal"
    using p(1) by (auto simp: simple_metric_report_def spawn_with_shutdown_def Reporting_spawn_def loop_start_def
        Metricer_boot_def register_def split: sum.splits prod.splits)
  with p(2) [of "[]" p] obtain evs p' where
    "metric_run list_mpsc list_mpsc list_mpsc list_mpsc sample_build evs p = Some p'"
    "ReportingJoinHandle_poll (gs_handles (bt_reporter (mx_boot p'))) = Ready (Inr ())" by auto
  with p show ?thesis by (metis metric_run.simps(1))
qed

end
