(* ===== verification/Service.thy ===== *)
theory Service
  imports Examples Trace_Tree
begin

text \<open>
  A service that traces its requests with span guards and reports them through a gRPC reporter, from
  the call trees of the requests to the streams the collector receives, in every interleaving of the
  thread that serves the requests with the four tasks of the reporter.
\<close>

section \<open>The service\<close>

record request =
  rq_clock :: "nat \<Rightarrow> SystemTime"
  rq_trace_id :: u128
  rq_segment_id :: u128
  rq_name :: string
  rq_calls :: "call list"

definition rq_tree :: "request \<Rightarrow> call" where
  "rq_tree rq = Call KEntry (rq_name rq) (rq_calls rq)"

fun serve :: "'r report_fn \<Rightarrow> build \<Rightarrow> Tracer \<Rightarrow> request list \<Rightarrow> 'r \<Rightarrow> ('r, unit) outcome" where
  "serve report cfg tr [] r = (r, Inr ())"
| "serve report cfg tr (rq # rqs) r =
     (case run_request report cfg (rq_clock rq) (rq_trace_id rq) (rq_segment_id rq) tr (rq_tree rq) r of
        (r', Inl p) \<Rightarrow> (r', Inl p)
      | (r', Inr _) \<Rightarrow> serve report cfg tr rqs r')"

text \<open>Connect, start the reporting with a shutdown signal, serve the requests; the reporter is kept.\<close>

definition service ::
  "('q, 'ct, 'cl, 'cm) runtime \<Rightarrow> build \<Rightarrow> Tracer \<Rightarrow> request list \<Rightarrow> ('q, 'ct, 'cl, 'cm) Program sw_result res" where
  "service rt cfg tr rqs =
     (case connect_reporter rt of
        Inl e \<Rightarrow> Inr (Inl e)
      | Inr rep \<Rightarrow>
          (case spawn_with_shutdown rt rep of
             Inl p \<Rightarrow> Inl p
           | Inr g \<Rightarrow>
               (case serve recording cfg tr rqs [] of
                  (_, Inl p) \<Rightarrow> Inl p
                | (items, Inr _) \<Rightarrow> Inr (Inr \<lparr>pg_sys = g, pg_todo = map CallReport items\<rparr>))))"

section \<open>Its specification\<close>

text \<open>The segment of a request, from its call tree alone.\<close>

definition rq_segment :: "build \<Rightarrow> Tracer \<Rightarrow> request \<Rightarrow> SegmentObject" where
  "rq_segment cfg tr rq =
     segment_of (create_trace_context (rq_trace_id rq) (rq_segment_id rq) tr)
       (fst (spans_of_call cfg (rq_clock rq) (-1) 0 0 (rq_tree rq)))"

text \<open>What the collector has received, and that this is all of \<open>xs\<close> but for what a full or closed channel
  refused and the error handler was told of.\<close>

definition streamed :: "('q, 'ct, 'cl, 'cm) Program \<Rightarrow> SegmentObject list" where
  "streamed p = concat (rt_sent (gs_trace (pg_sys p)))"

definition arrived :: "SegmentObject list \<Rightarrow> ('q, 'ct, 'cl, 'cm) Program \<Rightarrow> bool" where
  "arrived xs p \<longleftrightarrow> subseq (streamed p) xs \<and>
     length (streamed p) + length (irs_err_calls (lp_sink (gs_loop (pg_sys p)))) = length xs"

section \<open>Lemmas\<close>

lemma serve_reports:
  "list_all (\<lambda>rq. calls_size (rq_tree rq) < 2 ^ 31) rqs \<Longrightarrow>
   serve recording cfg tr rqs xs = (xs @ map (\<lambda>rq. Trace (rq_segment cfg tr rq)) rqs, Inr ())"
proof (induction rqs arbitrary: xs)
  case (Cons rq rqs)
  then have "calls_size (Call KEntry (rq_name rq) (rq_calls rq)) < 2 ^ 31" by (simp add: rq_tree_def)
  from request_reported [OF rec.reporter_axioms TrueI this]
  have "run_request recording cfg (rq_clock rq) (rq_trace_id rq) (rq_segment_id rq) tr (rq_tree rq) xs =
      (xs @ [Trace (rq_segment cfg tr rq)], Inr ())" by (auto simp: rq_segment_def rq_tree_def)
  with Cons show ?case by simp
qed simp

lemma only_traces [simp]: "traces_of (map Trace xs) = xs" "logs_of (map Trace xs) = []" "meters_of (map Trace xs) = []"
  "management_of (map Trace xs) = []"
  by (induction xs) simp_all

lemma prefix_map_Trace: "prefix ys (map Trace xs) \<Longrightarrow> \<exists>n. ys = map Trace (take n xs)"
  by (metis prefix_length_le prefix_def append_eq_conv_conj take_map)

context grpc_channels
begin

text \<open>What the collector has received while the service runs, and when its handle has resolved.\<close>

lemma streamed_so_far:
  assumes "keeping xs outs p" and "dispatched outs = map Trace segs"
  shows "subseq (streamed p) segs"
proof -
  have "gs_inv [] ([] @ outs) (pg_sys p)" using assms(1) by (simp add: keeping_def)
  from gs_inv_shares [OF this] assms(2) have "subseq (streamed p @ segments (rf_receiver (rt_from (gs_trace (pg_sys p))))) segs"
    by (auto simp: shares_def streamed_def)
  then show ?thesis by (rule subseq_order.trans [rotated]) (rule prefix_imp_subseq, simp)
qed

lemma arrived_when_ended:
  assumes "keeping xs outs p" and "await_handle p = Ready r" and "dispatched outs = map Trace segs"
  shows "arrived segs p"
proof -
  have "gs_inv [] outs (pg_sys p)" using assms(1) by (simp add: keeping_def)
  from gs_inv_ended [OF this] assms(2,3)
  have sh: "shares (map Trace segs) (lp_sink (gs_loop (pg_sys p))) (concat (rt_sent (gs_trace (pg_sys p))))
      (concat (rt_sent (gs_log (pg_sys p)))) (concat (rt_sent (gs_meter (pg_sys p))))"
    unfolding await_handle_ready by simp
  then have "concat (rt_sent (gs_log (pg_sys p))) = []" "concat (rt_sent (gs_meter (pg_sys p))) = []"
    by (auto simp: shares_def simp del: concat_eq_Nil_conv dest: list_emb_Nil2)
  with sh show ?thesis by (auto simp: shares_def arrived_def streamed_def simp del: concat_eq_Nil_conv)
qed

text \<open>Reporting does not block: the thread can always finish by its own steps.\<close>

lemma keeping_progress:
  assumes "keeping xs outs p" and "pg_todo p \<noteq> []"
  shows "\<exists>p' out. prog_step ch ct cl cm ThreadStep p = Some (p', out) \<and> work_left (pg_todo p') < work_left (pg_todo p) \<and>
    lp_phase (gs_loop (pg_sys p')) = lp_phase (gs_loop (pg_sys p)) \<and>
    lp_signal (gs_loop (pg_sys p')) = lp_signal (gs_loop (pg_sys p))"
proof -
  obtain a todo where todo: "pg_todo p = a # todo" using assms(2) by (cases "pg_todo p") auto
  have k: "lp_reporters (gs_loop (pg_sys p))" "lp_calls (gs_loop (pg_sys p)) = calls_of (pg_todo p)" "well_formed [] (pg_todo p)"
    using assms(1) by (simp_all add: keeping_def)
  show ?thesis
  proof (cases a)
    case (CallReport x)
    with k todo show ?thesis by (simp add: report_check_def)
  next
    case (Producing x)
    obtain q' r where "UnboundedSender_produce ch x (lp_queue (gs_loop (pg_sys p))) = (q', Inr r)"
      by (cases "mp_send ch x (lp_queue (gs_loop (pg_sys p)))") (simp add: UnboundedSender_produce_def)
    with k todo Producing show ?thesis by (cases r) (auto simp: report_produce_def Let_def)
  next
    case DropReporter
    with k(3) todo have False by (auto simp: Cons_eq_map_conv)
    then show ?thesis ..
  qed
qed

lemma keeping_finishes:
  "keeping xs outs p \<Longrightarrow> \<exists>n p' outs'. prog_run ch ct cl cm (replicate n ThreadStep) p = Some (p', outs') \<and> pg_todo p' = [] \<and>
     lp_phase (gs_loop (pg_sys p')) = lp_phase (gs_loop (pg_sys p)) \<and>
     lp_signal (gs_loop (pg_sys p')) = lp_signal (gs_loop (pg_sys p))"
proof (induction "work_left (pg_todo p)" arbitrary: p outs rule: less_induct)
  case less
  show ?case
  proof (cases "pg_todo p = []")
    case True
    then show ?thesis by (intro exI [of _ 0] exI [of _ p]) simp
  next
    case False
    from keeping_progress [OF less.prems this] obtain p1 o1 where p1: "prog_step ch ct cl cm ThreadStep p = Some (p1, o1)"
      "work_left (pg_todo p1) < work_left (pg_todo p)" "lp_phase (gs_loop (pg_sys p1)) = lp_phase (gs_loop (pg_sys p))"
      "lp_signal (gs_loop (pg_sys p1)) = lp_signal (gs_loop (pg_sys p))" by blast
    from less.hyps [OF p1(2) keeping_step [OF less.prems p1(1)]] obtain n p' o2 where
      "prog_run ch ct cl cm (replicate n ThreadStep) p1 = Some (p', o2)" "pg_todo p' = []"
      "lp_phase (gs_loop (pg_sys p')) = lp_phase (gs_loop (pg_sys p1))"
      "lp_signal (gs_loop (pg_sys p')) = lp_signal (gs_loop (pg_sys p1))" by blast
    with p1 have "prog_run ch ct cl cm (replicate (Suc n) ThreadStep) p = Some (p', o1 @ o2) \<and> pg_todo p' = [] \<and>
        lp_phase (gs_loop (pg_sys p')) = lp_phase (gs_loop (pg_sys p)) \<and>
        lp_signal (gs_loop (pg_sys p')) = lp_signal (gs_loop (pg_sys p))" by (simp del: prog_step.simps)
    then show ?thesis by blast
  qed
qed

lemma service_starts:
  assumes "fresh_runtime queued q_rx q_tx segments t_tx records l_tx readings m_tx rt"
    and "list_all (\<lambda>rq. calls_size (rq_tree rq) < 2 ^ 31) rqs"
  shows "\<exists>p. service rt cfg tr rqs = Inr (Inr p) \<and> keeping (map Trace (map (rq_segment cfg tr) rqs)) [] p \<and> gs_signal (pg_sys p)"
proof -
  let ?items = "map Trace (map (rq_segment cfg tr) rqs)"
  obtain g d where g: "spawn_with_shutdown rt (GrpcReporter_new default_err_handle (ev_queue rt)) = Inr g" "gs_inv [] [] g"
    "gs_signal g" "gs_loop g = loop_start (ev_queue rt) d" using spawned_fresh [OF assms(1)] by blast
  have "service rt cfg tr rqs = Inr (Inr \<lparr>pg_sys = g, pg_todo = map CallReport ?items\<rparr>)"
    using g(1) connect_reporter_ok [OF assms(1)] serve_reports [OF assms(2), of cfg tr "[]"] by (simp add: service_def comp_def)
  moreover have "keeping ?items [] \<lparr>pg_sys = g, pg_todo = map CallReport ?items\<rparr>"
    using g(2,4) assms(1) well_formed_reports [of ?items] todo_items_reports [of ?items "[]"]
    by (simp add: keeping_def loop_start_def fresh_runtime_def del: map_map)
  ultimately show ?thesis using g(3) by force
qed

lemma service_run:
  assumes k: "keeping (map Trace segs) outs p" and "gs_signal (pg_sys p)"
  shows "\<exists>n. accepted outs = map Trace (take n segs) \<and> subseq (streamed p) (take n segs) \<and>
    (\<forall>r. await_handle p = Ready r \<longrightarrow> (\<exists>m. dispatched outs = map Trace (take m segs) \<and> arrived (take m segs) p)) \<and>
    (\<exists>k p' outs'. prog_run ch ct cl cm (replicate k ThreadStep) p = Some (p', outs') \<and> pg_todo p' = [] \<and>
       lp_phase (gs_loop (pg_sys p')) = lp_phase (gs_loop (pg_sys p)) \<and>
       lp_signal (gs_loop (pg_sys p')) = lp_signal (gs_loop (pg_sys p))) \<and>
    (lp_phase (gs_loop (pg_sys p)) = Working \<and> lp_signal (gs_loop (pg_sys p)) = AwaitingSignal \<longrightarrow>
      (pg_todo p = [] \<longrightarrow> take n segs = segs) \<and>
      (\<exists>evs p' outs'. prog_run ch ct cl cm evs p = Some (p', outs') \<and> await_handle p' = Ready (Inr ()) \<and> arrived (take n segs) p'))"
proof -
  have pre: "prefix (dispatched outs) (accepted outs)" "prefix (accepted outs) (map Trace segs)" using keeping_sent [OF k] by simp_all
  obtain n where n: "accepted outs = map Trace (take n segs)" using prefix_map_Trace [OF pre(2)] by blast
  obtain i where i: "dispatched outs = map Trace (take i (take n segs))" using prefix_map_Trace pre(1) unfolding n by blast
  have "subseq (take i (take n segs)) (take n segs)" by (rule prefix_imp_subseq) (rule take_is_prefix)
  then have sub: "subseq (streamed p) (take n segs)" using streamed_so_far [OF k i] by (meson subseq_order.trans)
  have ended: "\<exists>m. dispatched outs = map Trace (take m segs) \<and> arrived (take m segs) p" if "await_handle p = Ready r" for r
    using arrived_when_ended [OF k that i] i by (metis take_take)
  have all: "take n segs = segs" if "lp_phase (gs_loop (pg_sys p)) = Working" "pg_todo p = []"
  proof -
    have "\<not> lp_closing (gs_loop (pg_sys p))" using k that(1) by (simp add: keeping_def gs_inv_def cq.loop_inv_def)
    then have "accepted outs = map Trace segs" using k that(2) by (auto simp: keeping_def)
    then show ?thesis unfolding n by (metis only_traces(1))
  qed
  have shut: "\<exists>evs p' outs'. prog_run ch ct cl cm evs p = Some (p', outs') \<and> await_handle p' = Ready (Inr ()) \<and> arrived (take n segs) p'"
    if "lp_phase (gs_loop (pg_sys p)) = Working" "lp_signal (gs_loop (pg_sys p)) = AwaitingSignal"
  proof -
    note ended = keeping_can_end [OF k assms(2) that, unfolded n]
    from ended obtain evs p' outs' where p': "prog_run ch ct cl cm evs p = Some (p', outs')" "await_handle p' = Ready (Inr ())"
      "dispatched (outs @ outs') = map Trace (take n segs)" by blast
    from arrived_when_ended [OF keeping_run [OF k p'(1)] p'(2,3)] p'(1,2) show ?thesis by blast
  qed
  from n sub ended keeping_finishes [OF k] all shut show ?thesis by blast
qed

end

section \<open>Property\<close>

text \<open>C8. The requests of a service reach the collector: however many requests it serves and whatever its
  tasks do meanwhile, it starts and serves them without a panic; at every moment what has been streamed
  is, in order and nothing twice, among the first segments of the requests, the segments being those the
  specification computes from the call trees alone; when the handle has resolved, every dispatched
  segment has been streamed but for those a full channel refused, of which the error handler was told;
  reporting never blocks, the serving thread can always finish by its own steps; and until Ctrl-C is
  pressed, pressing it can end the service with \<open>Ok\<close>, all segments reported so far having arrived, which
  are all segments when the requests are done.\<close>

theorem requests_reach_the_collector:
  assumes "grpc_channels ch queued q_rx q_tx q_room ct segments t_rx t_tx t_room
      cl records l_rx l_tx l_room cm readings m_rx m_tx m_room"
    and "fresh_runtime queued q_rx q_tx segments t_tx records l_tx readings m_tx rt"
    and "list_all (\<lambda>rq. calls_size (rq_tree rq) < 2 ^ 31) rqs"
    and "segs = map (rq_segment cfg tr) rqs"
  shows "\<exists>p. service rt cfg tr rqs = Inr (Inr p) \<and>
    (\<forall>evs p' outs. prog_run ch ct cl cm evs p = Some (p', outs) \<longrightarrow>
      (\<exists>n. accepted outs = map Trace (take n segs) \<and> subseq (streamed p') (take n segs) \<and>
        (\<forall>r. await_handle p' = Ready r \<longrightarrow> (\<exists>m. dispatched outs = map Trace (take m segs) \<and> arrived (take m segs) p')) \<and>
        (\<exists>k p'' outs'. prog_run ch ct cl cm (replicate k ThreadStep) p' = Some (p'', outs') \<and> pg_todo p'' = [] \<and>
           lp_phase (gs_loop (pg_sys p'')) = lp_phase (gs_loop (pg_sys p')) \<and>
           lp_signal (gs_loop (pg_sys p'')) = lp_signal (gs_loop (pg_sys p'))) \<and>
        (lp_phase (gs_loop (pg_sys p')) = Working \<and> lp_signal (gs_loop (pg_sys p')) = AwaitingSignal \<longrightarrow>
          (pg_todo p' = [] \<longrightarrow> take n segs = segs) \<and>
          (\<exists>evs' p'' outs'. prog_run ch ct cl cm evs' p' = Some (p'', outs') \<and> await_handle p'' = Ready (Inr ()) \<and>
             arrived (take n segs) p''))))"
proof -
  obtain p where p: "service rt cfg tr rqs = Inr (Inr p)" "gs_signal (pg_sys p)"
    "grpc_channels.keeping queued q_rx q_tx segments t_tx records l_tx readings m_tx (map Trace segs) [] p"
    using grpc_channels.service_starts [OF assms(1-3)] unfolding assms(4) by blast
  note run = grpc_channels.service_run [OF assms(1) grpc_channels.keeping_run [OF assms(1) p(3), simplified]]
  show ?thesis
    by (rule exI [of _ p], rule conjI [OF p(1)], intro allI impI, rule run, assumption) (metis prog_run_signal p(2))
qed

text \<open>Two requests are served and reported, then Ctrl-C is pressed.\<close>

definition sample_requests :: "request list" where
  "sample_requests =
     [\<lparr>rq_clock = (\<lambda>t. 0), rq_trace_id = 1, rq_segment_id = 2, rq_name = ''/a'', rq_calls = sample_tree_calls\<rparr>,
      \<lparr>rq_clock = (\<lambda>t. 0), rq_trace_id = 3, rq_segment_id = 4, rq_name = ''/b'', rq_calls = []\<rparr>]"

theorem requests_reach_the_collector_witness:
  "\<exists>p evs p' outs. service sample_runtime sample_build (Tracer_new ''s'' ''i'') sample_requests = Inr (Inr p) \<and>
     prog_run list_mpsc list_mpsc list_mpsc list_mpsc evs p = Some (p', outs) \<and> await_handle p' = Ready (Inr ()) \<and>
     arrived (map (rq_segment sample_build (Tracer_new ''s'' ''i'')) sample_requests) p'"
proof -
  let ?run = "prog_run list_mpsc list_mpsc list_mpsc list_mpsc" and ?tr = "Tracer_new ''s'' ''i''"
  let ?segs = "map (rq_segment sample_build ?tr) sample_requests"
  have "list_all (\<lambda>rq. calls_size (rq_tree rq) < 2 ^ 31) sample_requests"
    by (simp add: sample_requests_def rq_tree_def sample_tree_calls_def)
  note reach = requests_reach_the_collector [OF lg.grpc_channels_axioms sample_runtime_fresh this refl, of sample_build ?tr]
  then obtain p where p: "service sample_runtime sample_build ?tr sample_requests = Inr (Inr p)" by blast
  then have start: "lp_phase (gs_loop (pg_sys p)) = Working" "lp_signal (gs_loop (pg_sys p)) = AwaitingSignal"
    by (auto simp: service_def spawn_with_shutdown_def Reporting_spawn_def loop_start_def split: sum.splits prod.splits)
  note body = reach [unfolded p sum.inject simp_thms, rule_format]
  have "?run [] p = Some (p, [])" by simp
  from body [OF this] start obtain k p1 o1 where p1: "?run (replicate k ThreadStep) p = Some (p1, o1)" "pg_todo p1 = []"
    "lp_phase (gs_loop (pg_sys p1)) = Working" "lp_signal (gs_loop (pg_sys p1)) = AwaitingSignal" by auto
  from body [OF p1(1)] p1(2-4) obtain evs p2 o2 where p2: "?run evs p1 = Some (p2, o2)" "await_handle p2 = Ready (Inr ())"
    "arrived ?segs p2" by (elim exE conjE) (metis (no_types, lifting))
  have "?run (replicate k ThreadStep @ evs) p = Some (p2, o1 @ o2)" using p1(1) p2(1) by (subst prog_run_append) simp
  with p p2(2,3) show ?thesis by blast
qed

end
