(* ===== verification/Spec2Isabelle.thy ===== *)
theory Spec2Isabelle
  imports Trace_Types Trace_Tree Trace_Locks Span_Atomicity Propagation Metricer Management Logging Grpc_System Kafka_Reporter
    Reporter_Clones Stream_Sharing E2e_Run Examples Service
begin

text \<open>
  A model of the \<^verbatim>\<open>skywalking\<close> crate (Apache SkyWalking's agent library for Rust) and the theorems that
  make it correct.  The crate collects trace segments, log records, meter readings and instance
  properties inside an application and ships them to a collector through a reporter.

  \<^bold>\<open>The program and how its parts interact.\<close>  A \<open>Tracer\<close> creates \<open>TracingContext\<close>s.  A context creates
  \<open>Span\<close> guards; the guards and the context share a \<open>SpanStack\<close> (the active spans and the finalized
  ones) and a \<open>WaitGroup\<close>.  A span leaves the stack when its guard is dropped, or lives on as an
  \<open>AsyncSpan\<close> that may be dropped in any thread; \<open>wait\<close> blocks until all of them are.  Dropping the context
  turns the finalized spans into one segment and hands it to the reporter of the tracer.  Contexts are
  linked across processes by the \<open>sw8\<close> header and across threads by snapshots.  \<open>Logger\<close>, \<open>Metricer\<close> and
  \<open>Manager\<close> produce the other items.  A reporter implements \<open>Report\<close>: \<open>PrintReporter\<close> prints; \<open>GrpcReporter\<close> and
  \<open>KafkaReporter\<close> put the items into a queue that a background task empties, into the four gRPC services
  or into Kafka topics.

  \<^bold>\<open>Theories, in the order of their imports, with the sources under\<close> \<^verbatim>\<open>src/src/\<close>.
  \<^item> \<open>Prelude\<close>: machine types as words, panics as values, outcomes (state left behind, result), collections
    of rewrite rules, generic lemmas.  \<open>Rust_Std\<close>, \<open>Rust_Slice\<close>, \<open>F64\<close>: what the crate uses of Rust's standard
    library (overflow, decimal printing and parsing, \<open>split\<close>, UTF-8, the clock; sort, dedup and binary search
    on slices; IEEE binary64 on bit patterns).  \<open>Proto\<close>: the protobuf messages and
    \<^verbatim>\<open>proto/v3/mod.rs\<close>.  \<open>Common\<close>: \<^verbatim>\<open>common/system_time.rs\<close>, \<^verbatim>\<open>random_generator.rs\<close>.  \<open>Errors\<close>:
    \<^verbatim>\<open>error/mod.rs\<close>.
  \<^item> \<open>Wait_Group\<close>: \<^verbatim>\<open>common/wait_group.rs\<close>, the operations and a step relation for a waiting thread.
  \<^item> \<open>Span_Stack\<close>, \<open>Span\<close>, \<open>Tracing_Context\<close>: \<^verbatim>\<open>trace/trace_context.rs\<close>, \<^verbatim>\<open>trace/span.rs\<close>, \<^verbatim>\<open>trace/tracer.rs\<close>, one
    definition per function or destructor, on the explicit state \<open>Shared\<close> that the \<open>Arc\<close>s point to.
    \<open>Trace_Machine\<close>: one context with all its guards, \<open>trace_exec\<close> runs one call of the public API.
    \<open>Trace_Invariant\<close>, \<open>Trace_Safety\<close>, \<open>Trace_Panics\<close>: the invariant of the machine and what follows from it.
    \<open>Trace_Tree\<close>: requests written with nested guards against a specification that knows only the call tree.
    \<open>Trace_Types\<close>: the machine keeps its strings well-formed.
  \<^item> \<open>Span_Locks\<close>, \<open>Span_Atomicity\<close>: the two locks of the stack and the interleavings of threads at the
    granularity of single lock operations.  \<open>Trace_Locks\<close>: every call of the API with the locks it takes, under
    guards that other threads hold all the while; it refines \<open>trace_exec\<close>, whose calls always get their locks.
  \<^item> \<open>Propagation_Context\<close>, \<open>Base64\<close>, \<open>Propagation\<close>: \<^verbatim>\<open>trace/propagation/\<close>.
  \<^item> \<open>Reporter\<close>, \<open>Print_Reporter\<close>, \<open>Channel\<close>: \<^verbatim>\<open>reporter/mod.rs\<close>, \<^verbatim>\<open>reporter/print.rs\<close>.  \<open>Report_Loop\<close>: the background
    task that the gRPC and the Kafka reporter have in common.  \<open>Grpc_Reporter\<close> (configuration, routing and the
    dispatching task), \<open>Grpc_Stream\<close> (the receiving tasks), \<open>Grpc_System\<close> (all four side by side):
    \<^verbatim>\<open>reporter/grpc.rs\<close>.  \<open>Kafka_Reporter\<close>: \<^verbatim>\<open>reporter/kafka.rs\<close>.  \<open>Reporter_Clones\<close>: any number of clones of a
    reporter, which share one queue.  \<open>Stream_Sharing\<close>: the lock around the receiver of a stream channel, when
    a client keeps the stream of a failed call beside its successor; \<open>Grpc_Stream\<close> is the case of a client
    that drops it.
  \<^item> \<open>Logging\<close>: \<^verbatim>\<open>logging/\<close>.  \<open>Meter\<close>, \<open>Metricer\<close>: \<^verbatim>\<open>metrics/\<close>.  \<open>Management\<close>: \<^verbatim>\<open>management/\<close>.
  \<^item> \<open>E2e_Services\<close>, \<open>E2e_Checks\<close>, \<open>E2e_Run\<close>: the end-to-end set-up (\<^verbatim>\<open>main.rs\<close> and \<^verbatim>\<open>e2e_kafka.rs\<close> under
    \<^verbatim>\<open>src/e2e/src/\<close>): two services that use the whole library, the reader that asserts what must have
    arrived, and the run of one request through both.
  \<^item> \<open>Programs\<close>: a thread that uses a gRPC reporter, beside the tasks of the reporter.  \<open>Examples\<close>: the four
    programs under \<^verbatim>\<open>src/examples/\<close>.
  \<^item> \<open>Service\<close>: a service that answers requests and reports them, in every interleaving with the tasks of its
    reporter.  This theory: the shortest such run, one request, with the outcome of every step.

  \<^bold>\<open>Interfaces.\<close>  \<open>reporter\<close> is what the producers rely on (an accepting reporter takes every item once, in
  order, without a panic); \<open>Box\<close>, \<open>Arc\<close> and \<open>OnceCell\<close> of a reporter and the pair of reporters of the end-to-end
  set-up are instances, and \<open>gated_reporter\<close> extends it for the print, gRPC and Kafka reporters.  \<open>http_link\<close>
  is what the services use of hyper.  \<open>collect_queue\<close> is what the background task relies on; it is derived from \<open>mpsc_channel\<close>,
  the contract of tokio's channels, and \<open>grpc_channels\<close> puts four of these together.  \<open>mpsc_channel\<close>, \<open>rwlock\<close> (parking_lot), \<open>base64\<close> and \<open>rd_config\<close> (rdkafka's
  configuration) state documented behaviour of crates that are not part of the repository; each has an
  instance that shows it can be met.  The prost encoders, the answers of the servers, tonic's requests,
  the operating system's network interfaces, the clock and the random numbers are arguments.

  \<^bold>\<open>What the theorems show.\<close>
  \<^item> Tracing: the reported segment is the call tree (refinement), is a forest numbered without gaps
    (invariant), \<open>wait\<close> ends exactly when the async spans are done, the complete list of panics, refused
    locks among them, that of the spans created each is in the segment or was open when the context was dropped and is
    lost, and that every string of a segment is well-formed UTF-8 (type), whatever
    a header carried.
  \<^item> Concurrency: the wait group loses no wake-up; a concurrent run in which no lock is refused is a
    sequential one; a refused lock means a panic and a \<open>wait\<close> that never ends.
  \<^item> Propagation: the header round trip, exactly which headers are accepted, and that a trace crosses
    processes and threads with one exact reference.
  \<^item> Reporting: in every interleaving items are dispatched at most once and in order, and everything accepted
    before the task last looks into its queue is dispatched; only an item whose \<open>report\<close> call found the closing
    flag unset and produces after that look is lost.  A shutdown completes when a reporter is left and the
    signal comes.  The streams carry every item they take, the four gRPC tasks account for every item up to that look
    and stop together; Kafka receives every record once, in the topic of its kind, with its key and payload.
  \<^item> Sharing: clones of a reporter together report as one until the last is gone (refinement); the streams of
    a client that keeps old ones carry together what the channel took, and a poll panics only with another
    under way, which never happens to a client that is done with a stream when its call returns.
  \<^item> End to end: the requests of a service reach the collector, each as the segment its call tree specifies,
    in order, in every interleaving with the tasks of the reporter; one request through two services and a thread gives three linked segments of one trace,
    and the reader's assertions hold in whatever order the broker sees the items.
  \<^item> Examples: in every interleaving of \<open>main\<close> with its tasks, the log example delivers its record and ends, the
    management example follows its schedule and ends on Ctrl-C; the trace and the metric example do not do
    what their comments say (below).
  \<^item> Meters, logs, management: histogram buckets against counting, exact counters and rates, one item per
    meter and pass, the log record of any builder chain, properties as a multimap, the heartbeat schedule.

  \<^bold>\<open>Bounds.\<close>  Span ids are \<open>i32\<close>; the tracing theorems assume fewer than \<open>2 ^ 31\<close> spans per context, and
  \<open>negative_span_id_breaks_the_header\<close> shows what happens beyond in a release build.  Counters are exact
  below \<open>2 ^ 53\<close>, where binary64 represents every whole number; bucket counts wrap at \<open>2 ^ 64\<close>.  The stream
  channels have the capacity 255 of the source.  No definition uses fuel: loops of the source that need not
  end are runs over a list of events, and what must end is proved as the existence of a bounded run.

  \<^bold>\<open>Findings.\<close>  Async spans may be dropped in any thread, but two drops that overlap make one of them panic
  and \<open>wait\<close> block for ever (\<open>overlapping_async_drop_blocks_wait\<close>); a \<open>report\<close> call that overlaps a shutdown may put its item into the
  queue after the last look into it, and the item is lost although the call and the task succeed
  (\<open>grpc_dispatches_in_order_exactly_once\<close>, \<open>kafka_sends_in_order_exactly_once\<close>); keep-alive pings go to Kafka's log topic
  (\<open>kafka_topics_carry_their_data\<close>); a task whose reporters are all gone ends with an error
  (\<open>grpc_task_fails_when_reporters_are_gone\<close>), which is what the trace example runs into
  (\<open>simple_trace_report_ends_with_an_error\<close>); the metric example waits for ever
  (\<open>simple_metric_report_never_returns\<close>); a report interval of zero kills the metrics task
  (\<open>zero_interval_crashes_the_metricer\<close>); a NaN is counted in the last bucket
  (\<open>find_bucket_refines_counting\<close>); \<open>continued\<close> without an active span loses the link
  (\<open>continued_needs_active_spans\<close>).

  \<^bold>\<open>Not modelled.\<close>  The \<open>Debug\<close> implementations and the text they print; the subscriber of \<open>tracing::error!\<close>
  (the default handlers append to a list of events); the accessors that only return a field (the record selectors stand for them); module files and
  the generated protobuf code; when tonic drops the stream of a failed call (\<open>Stream_Sharing\<close> holds for every
  moment at which it may); the tests; the accept loops and the command line of the
  end-to-end services; aborting the heartbeat task through \<open>handle\<close> (\<^verbatim>\<open>management/manager.rs\<close>).  \<open>Arc\<close> is modelled by the sharing of state, with a count only where the code upgrades a weak pointer.
\<close>

section \<open>From the request to the collector\<close>

text \<open>One item travels from the queue through the dispatcher, and one segment from its channel into a
  stream.\<close>

lemma dispatch_one:
  assumes "mpsc_channel ch contents rx_alive tx_alive room" and "contents q = [x]"
  shows "ReportSender_run ch ct cl cm [Consume net] (loop_start q d) =
    Some (loop_start (fst (mp_poll_recv ch q)) (InnerReportSender_report ct cl cm net x d), [Dispatched x])"
  using assms(2) mpsc_channel.poll_recv_result [OF assms(1), of q]
  by (auto simp: ReportSender_run_def work_consume_def Receiver_ops_def Receiver_consume_def loop_start_def
      split: prod.splits poll.splits option.splits)

lemma stream_one:
  assumes "mpsc_channel ch contents rx_alive tx_alive room" and "contents q = [x]"
  shows "\<exists>t. TraceReceiveReporter_run ch [OpenStream, PollNext] (ReceiveReporter_start q) = Some t \<and> rt_sent t = [[x]]"
  using assms(2)
  by (simp add: TraceReceiveReporter_run_def ReceiveReporter_start_def ReceiveFrom_new_def ReceiveFrom_stream_def
      mpsc_channel.poll_next_cases [OF assms(1)])

text \<open>A request arrives at the collector: a request written with span guards and reported through the
  gRPC reporter runs without a panic; the dispatching task then takes its segment from the queue and
  puts it into the trace channel, and the receiving task streams exactly that segment, with the spans
  that the specification computes from the call tree, and nothing else, to the server.\<close>

theorem request_arrives_at_the_collector:
  assumes ch: "mpsc_channel ch contents rx_alive tx_alive room"
    and ct: "mpsc_channel ct segments rx_alive' tx_alive' room'"
    and q: "\<not> gr_is_closing rep" "rx_alive (gr_queue rep)" "contents (gr_queue rep) = []"
    and d: "rx_alive' (irs_trace d)" "room' (irs_trace d)" "segments (irs_trace d) = []"
    and size: "calls_size (Call KEntry n cs) < 2 ^ 31"
  shows "\<exists>rep' h' s t.
    run_request (GrpcReporter_report (UnboundedSender_produce ch)) cfg clk u1 u2 tr (Call KEntry n cs) (rep, h) =
      ((rep', h'), Inr ()) \<and>
    ReportSender_run ch ct cl cm [Consume net] (loop_start (gr_queue rep') d) =
      Some (s, [Dispatched (Trace (segment_of (create_trace_context u1 u2 tr)
        (fst (spans_of_call cfg clk (-1) 0 0 (Call KEntry n cs)))))]) \<and>
    irs_err_calls (lp_sink s) = irs_err_calls d \<and>
    TraceReceiveReporter_run ct [OpenStream, PollNext] (ReceiveReporter_start (irs_trace (lp_sink s))) = Some t \<and>
    rt_sent t = [[segment_of (create_trace_context u1 u2 tr)
        (fst (spans_of_call cfg clk (-1) 0 0 (Call KEntry n cs)))]]"
proof -
  let ?seg = "segment_of (create_trace_context u1 u2 tr) (fst (spans_of_call cfg clk (-1) 0 0 (Call KEntry n cs)))"
  have acc: "case (rep, h) of (r, h) \<Rightarrow> \<not> gr_is_closing r \<and> rx_alive (gr_queue r)" using q by simp
  obtain rep' h' where run:
    "run_request (GrpcReporter_report (UnboundedSender_produce ch)) cfg clk u1 u2 tr (Call KEntry n cs) (rep, h) =
      ((rep', h'), Inr ())" "contents (gr_queue rep') = [Trace ?seg]"
    using request_reported [OF gated_reporter.axioms(1) [OF collect_queue.grpc_is_reporter [OF unbounded_collect_queue [OF ch]]] acc size] q(3)
    by fastforce
  let ?d = "InnerReportSender_report ct cl cm net (Trace ?seg) d"
  have snd: "snd (mp_try_send ct ?seg (irs_trace d)) = SendOk"
    using mpsc_channel.try_send_result [OF ct] d by simp
  then have "irs_trace ?d = fst (mp_try_send ct ?seg (irs_trace d))" "irs_err_calls ?d = irs_err_calls d"
    by (auto simp: err_call_def split: prod.splits)
  moreover from this have "segments (irs_trace ?d) = [?seg]"
    using mpsc_channel.try_send_contents [OF ct] d by simp
  ultimately show ?thesis
    using run dispatch_one [OF ch run(2)] stream_one [OF ct] by (fastforce simp: loop_start_def)
qed

theorem request_arrives_at_the_collector_witness:
  "\<exists>rep' h' s t.
    run_request (GrpcReporter_report (UnboundedSender_produce list_mpsc)) dev_build (\<lambda>t. 0) 1 2 (Tracer_new ''s'' ''i'')
      (Call KEntry ''/api'' sample_tree_calls) (GrpcReporter_new_with_pc (\<lambda>m e h. h) (channel_new None), ()) =
      ((rep', h'), Inr ()) \<and>
    ReportSender_run list_mpsc list_mpsc list_mpsc list_mpsc [Consume (Inr ())] (loop_start (gr_queue rep') no_sender) =
      Some (s, [Dispatched (Trace (hd (hd (rt_sent t))))]) \<and>
    TraceReceiveReporter_run list_mpsc [OpenStream, PollNext] (ReceiveReporter_start (irs_trace (lp_sink s))) = Some t \<and>
    map (map (\<lambda>seg. map (\<lambda>o'. (operation_name o', sint (span_id o'), sint (parent_span_id o'))) (seg_spans seg))) (rt_sent t) =
      [[[(''load'', 1, 0), (''parse'', 3, 2), (''query'', 2, 0), (''/api'', 0, -1)]]]"
proof -
  have spec: "map (\<lambda>o'. (operation_name o', sint (span_id o'), sint (parent_span_id o')))
      (fst (spans_of_call dev_build (\<lambda>t. 0) (-1) 0 0 (Call KEntry ''/api'' sample_tree_calls))) =
    [(''load'', 1, 0), (''parse'', 3, 2), (''query'', 2, 0), (''/api'', 0, -1)]"
    by code_simp
  have "calls_size (Call KEntry ''/api'' sample_tree_calls) < 2 ^ 31" by (simp add: sample_tree_calls_def)
  then show ?thesis
    using spec request_arrives_at_the_collector [OF lc.mpsc_channel_axioms lc.mpsc_channel_axioms,
        of "GrpcReporter_new_with_pc (\<lambda>m e h. h) (channel_new None)" no_sender "''/api''" sample_tree_calls dev_build
          "\<lambda>t. 0" 1 2 "Tracer_new ''s'' ''i''" "()" list_mpsc list_mpsc "Inr ()"]
    by (fastforce simp: GrpcReporter_new_with_pc_def channel_new_def no_sender_def lc_room_def segment_of_def
        simp del: spans_of_call.simps)
qed

end
